(* ===== verification/Prelude.thy ===== *)
theory Prelude
  imports Main "HOL-Library.Word" "HOL-Library.Monad_Syntax"
begin

unbundle bit_operations_syntax

text \<open>
  The shared basis of the development: the machine types of the 64-bit kernel build, the
  collections of simplification rules that the component theories extend, and generic lemmas on
  lists, options, function updates and bit masks that several components use.
\<close>

section \<open>Machine types\<close>

type_synonym stduint = "64 word"
type_synonym uint64 = "64 word"
type_synonym uint32 = "32 word"
type_synonym uint16 = "16 word"
type_synonym uint8 = "8 word"

text \<open>
  Kernel object addresses. Objects are allocated once and compared by address only, so an address
  is a number; 0 is \<open>nullptr\<close>.
\<close>

type_synonym ptr = nat

abbreviation nullptr :: ptr where
  "nullptr \<equiv> 0"

definition PAGE_SIZE :: stduint where
  "PAGE_SIZE = 0x1000"

section \<open>Collections\<close>

named_theorems kdefs \<open>definitions of kernel operations, unfolded by component proofs\<close>
named_theorems kframe \<open>fields an operation leaves unchanged\<close>

section \<open>Options\<close>

lemma bind_Some_iff [simp]: "(Option.bind x f = Some y) = (\<exists>a. x = Some a \<and> f a = Some y)"
  by (cases x) auto

lemma bind_eq_None_iff: "(Option.bind x f = None) = (x = None \<or> (\<exists>a. x = Some a \<and> f a = None))"
  by (cases x) auto

section \<open>Lists\<close>

lemma find_append:
  "List.find P (xs @ ys) = (case List.find P xs of None \<Rightarrow> List.find P ys | Some x \<Rightarrow> Some x)"
  by (induction xs) auto

lemma find_eq_None: "(List.find P xs = None) = (\<forall>x \<in> set xs. \<not> P x)"
  by (auto simp: find_None_iff)

lemma find_eq_SomeD: "List.find P xs = Some x \<Longrightarrow> P x \<and> x \<in> set xs"
  by (auto simp: find_Some_iff)

lemma find_upt_least:
  assumes "List.find P [0..<n] = Some i"
  shows "i < n" and "P i" and "\<And>j. j < i \<Longrightarrow> \<not> P j"
proof -
  from assms obtain k where k: "k < length [0..<n]" "P ([0..<n] ! k)" "i = [0..<n] ! k"
    "\<forall>j<k. \<not> P ([0..<n] ! j)"
    unfolding find_Some_iff by blast
  then have ik: "i = k" by simp
  with k show "i < n" and "P i" by simp_all
  show "\<And>j. j < i \<Longrightarrow> \<not> P j"
    using k ik by auto
qed

lemma find_upt_NoneD: "List.find P [0..<n] = None \<Longrightarrow> i < n \<Longrightarrow> \<not> P i"
  by (auto simp: find_None_iff)

lemma distinct_concat_disjoint:
  "distinct (concat (map f xs)) \<Longrightarrow> x \<in> set xs \<Longrightarrow> y \<in> set xs \<Longrightarrow> distinct xs \<Longrightarrow> x \<noteq> y \<Longrightarrow>
    set (f x) \<inter> set (f y) = {}"
  by (induction xs) auto

section \<open>Bit masks\<close>

lemma bit_set_mask:
  "i < LENGTH('a) \<Longrightarrow> bit ((w :: 'a::len word) OR 2 ^ i) j = (bit w j \<or> j = i)"
  by (auto simp: bit_or_iff bit_exp_iff)

lemma bit_clear_mask:
  "j < LENGTH('a) \<Longrightarrow> bit ((w :: 'a::len word) AND NOT (2 ^ i)) j = (bit w j \<and> j \<noteq> i)"
  by (auto simp: bit_and_iff bit_not_iff bit_exp_iff)

lemma word_eq_0_iff_bits: "((w :: 'a::len word) = 0) = (\<forall>i < LENGTH('a). \<not> bit w i)"
  by (auto simp: bit_eq_iff bit_imp_le_length)

section \<open>Alignment\<close>

lemma and_not_mask_minus: "(x :: stduint) AND NOT (mask n) = x - (x AND mask n)"
proof -
  have "(x AND NOT (mask n)) + (x AND mask n) = x"
    by (subst disjunctive_add) (auto simp: bit_eq_iff bit_and_iff bit_or_iff bit_not_iff)
  then show ?thesis by (metis add_diff_cancel_right')
qed

lemma imm_mask: "push_bit n (1 :: stduint) - 1 = mask n"
  by (simp add: mask_eq_exp_minus_1 push_bit_eq_mult)

lemma aligned_iff: "(a :: stduint) AND mask n = 0 \<longleftrightarrow> 2 ^ n dvd unat a"
proof -
  have "a AND mask n = 0 \<longleftrightarrow> unat (take_bit n a) = 0" by (simp add: take_bit_eq_mask unat_eq_0)
  also have "unat (take_bit n a) = unat a mod 2 ^ n"
    by (simp only: unsigned_take_bit_eq) (simp add: take_bit_eq_mod)
  finally show ?thesis by (simp only: dvd_eq_mod_eq_0)
qed

lemma aligned_add:
  assumes "n \<le> 64" "(a :: stduint) AND mask n = 0" "b AND mask n = 0"
  shows "(a + b) AND mask n = 0"
  using assms unfolding aligned_iff unat_word_ariths
  using le_imp_power_dvd [OF assms(1), of "2 :: nat"] by (intro dvd_mod) auto

lemma and_not_mask_aligned: "((x :: stduint) AND NOT (mask n)) AND mask n = 0"
  by (simp add: bit_eq_iff bit_simps)

lemma round_up_le:
  assumes "(y :: stduint) \<le> y + mask n"
  shows "y \<le> (y + mask n) AND NOT (mask n)"
proof -
  let ?z = "y + mask n"
  have z: "unat ?z = unat y + unat (mask n :: stduint)"
    using assms no_olen_add_nat [of y "mask n"] by (simp add: unat_word_ariths)
  have "unat (?z AND mask n) \<le> unat (mask n :: stduint)"
    unfolding word_le_nat_alt [symmetric] by (rule word_and_le1)
  moreover have "unat (?z - (?z AND mask n)) = unat ?z - unat (?z AND mask n)"
    by (rule unat_sub) (rule word_and_le2)
  ultimately show ?thesis unfolding and_not_mask_minus word_le_nat_alt z by linarith
qed

end
