(* ===== verification/Kernel_Types.thy ===== *)
theory Kernel_Types
  imports Prelude
begin

text \<open>
  The data model of the task manager: thread control blocks, process control blocks, per-core
  records, ready queues and the global scheduler state, as declared in
  \<^verbatim>\<open>src/include/taskman.hpp\<close> and \<^verbatim>\<open>src/include/taskman.com.hpp\<close>.
  Pointers between blocks stay pointers: a block is found through the heap functions of the
  global state, so the intrusive queues of the source are intrusive queues here.
\<close>

section \<open>Targets\<close>

text \<open>
  The two x86 builds of the kernel. Conditional compilation on \<open>_MCCA\<close> becomes a case on
  this parameter.
\<close>

datatype mcca = MCCA_8632 | MCCA_8664

section \<open>Thread states and block reasons\<close>

datatype thread_state =
    Running
  | Ready
  | Pended
  | Uninit
  | Exited
  | Hanging
  | Invalid

datatype process_state =
    PActive
  | PExpiring
  | PHanging
  | PInvalid

definition BR_None :: uint32 where "BR_None = 0"
definition BR_Resting :: uint32 where "BR_Resting = 1"
definition BR_SendMsg :: uint32 where "BR_SendMsg = 2"
definition BR_RecvMsg :: uint32 where "BR_RecvMsg = 4"
definition BR_Waiting :: uint32 where "BR_Waiting = 8"
definition BR_Exiting :: uint32 where "BR_Exiting = 16"
definition BR_Lock :: uint32 where "BR_Lock = 32"

lemmas br_defs [simp] = BR_None_def BR_Resting_def BR_SendMsg_def BR_RecvMsg_def BR_Waiting_def
  BR_Exiting_def BR_Lock_def

definition CORE_ID_INVALID :: nat where
  "CORE_ID_INVALID = 0xFFFFFFFF"

section \<open>Messages and device events\<close>

definition SENTINEL_DEAD :: nat where
  "SENTINEL_DEAD = 2 ^ 64 - 1"

definition ANYPROC :: nat where
  "ANYPROC = SENTINEL_DEAD - 1"

definition INTRUPT :: nat where
  "INTRUPT = SENTINEL_DEAD - 2"

definition LIMIT_THREAD_AMSG :: nat where
  "LIMIT_THREAD_AMSG = 64"

record CommMsg =
  msg_address :: ptr
  msg_length :: nat
  msg_type :: stduint
  msg_src :: nat

text \<open>A queued asynchronous message owns a kernel copy of its payload.\<close>

record AsyncCommMsg =
  amsg_payload :: "uint8 list"
  amsg_type :: stduint
  amsg_src :: nat

definition DeviceEventFlag_None :: uint16 where "DeviceEventFlag_None = 0"
definition DeviceEventFlag_NeedsAck :: uint16 where "DeviceEventFlag_NeedsAck = 1"
definition DeviceEventFlag_Coalesced :: uint16 where "DeviceEventFlag_Coalesced = 2"
definition DeviceEventFlag_Overflow :: uint16 where "DeviceEventFlag_Overflow = 4"

lemmas device_event_flag_defs = DeviceEventFlag_None_def DeviceEventFlag_NeedsAck_def
  DeviceEventFlag_Coalesced_def DeviceEventFlag_Overflow_def

record DeviceEvent =
  ev_version :: uint32
  ev_kind :: uint16
  ev_flags :: uint16
  ev_device_handle :: uint32
  ev_source :: uint32
  ev_count :: uint32
  ev_generation :: uint32
  ev_sequence :: uint64

definition null_event :: DeviceEvent where
  "null_event = \<lparr>ev_version = 1, ev_kind = 0, ev_flags = DeviceEventFlag_None,
     ev_device_handle = 0, ev_source = 0, ev_count = 0, ev_generation = 0, ev_sequence = 0\<rparr>"

definition EventCapacity :: nat where
  "EventCapacity = 8"

definition OverflowCapacity :: nat where
  "OverflowCapacity = EventCapacity * 4"

text \<open>
  \<open>pending\<close> is the bounded FIFO over \<open>storage\<close>; \<open>overflow\<close> and \<open>overflow_used\<close> are the
  parallel arrays of overflow slots.
\<close>

record DeviceEventQueue =
  pending :: "DeviceEvent list"
  overflow :: "DeviceEvent list"
  overflow_used :: "bool list"

definition HasPending :: "DeviceEventQueue \<Rightarrow> bool" where
  "HasPending q \<longleftrightarrow> pending q \<noteq> [] \<or> (\<exists>i \<in> set [0..<OverflowCapacity]. overflow_used q ! i)"

section \<open>Thread and process control blocks\<close>

text \<open>
  The class \<open>ThreadBlock\<close> is split by the components that own its members: the scheduling
  members are the record below, the members used by interprocess communication are
  \<open>CommBlock\<close>, and the two link members \<open>queue_state_prev\<close> and \<open>queue_state_next\<close> are heap
  functions of the scheduler state, one function per member.
\<close>

record ThreadBlock =
  tid :: nat
  parent_process :: ptr
  process_thread_next :: ptr
  just_schedule :: bool
  stack_size :: stduint
  stack_lineaddr :: stduint
  stack_levladdr :: stduint
  priority :: int
  time_slice :: uint8
  is_expired :: bool
  state :: thread_state
  block_reason :: uint32
  pending_wake :: uint32
  processor_id :: nat
  ring_coreid :: nat
  exit_status :: stduint
  is_detached :: bool
  futex_wait_addr :: stduint
  join_wait_queue :: "ptr list"

text \<open>
  The communication section of the block (\<open>_Comment(Syscomm)\<close>) and its signal masks.
\<close>

record CommBlock =
  unsolved_msg :: ptr
  unsolved_msg_from_kernel :: bool
  send_to_whom :: ptr
  recv_fo_whom :: ptr
  wait_rupt_no :: nat
  queue_send_queuehead :: ptr
  queue_send_queuenext :: ptr
  queue_wait_queuehead :: ptr
  queue_wait_queuenext :: ptr
  async_messages :: "AsyncCommMsg list"
  device_events :: "DeviceEventQueue option"
  pending_signals :: uint64
  blocked_signals :: uint64

text \<open>A block just after its constructor ran: the member initialisers of the class.\<close>

definition null_thread :: ThreadBlock where
  "null_thread = \<lparr>tid = 0, parent_process = nullptr, process_thread_next = nullptr,
     just_schedule = False, stack_size = 0, stack_lineaddr = 0, stack_levladdr = 0, priority = 0,
     time_slice = 0, is_expired = False, state = Uninit, block_reason = BR_None,
     pending_wake = BR_None, processor_id = 0, ring_coreid = CORE_ID_INVALID, exit_status = 0,
     is_detached = False, futex_wait_addr = 0, join_wait_queue = []\<rparr>"

definition null_comm :: CommBlock where
  "null_comm = \<lparr>unsolved_msg = nullptr, unsolved_msg_from_kernel = False,
     send_to_whom = nullptr, recv_fo_whom = nullptr, wait_rupt_no = 0,
     queue_send_queuehead = nullptr, queue_send_queuenext = nullptr,
     queue_wait_queuehead = nullptr, queue_wait_queuenext = nullptr, async_messages = [],
     device_events = None, pending_signals = 0, blocked_signals = 0\<rparr>"

record ProcessBlock =
  pid :: nat
  parent_id :: nat
  pb_ref_count :: int
  pb_state :: process_state
  child_list_head :: ptr
  sibling_next :: ptr
  main_thread :: ptr
  thread_list_head :: ptr

definition null_process :: ProcessBlock where
  "null_process = \<lparr>pid = 0, parent_id = 0, pb_ref_count = 1, pb_state = PActive,
     child_list_head = nullptr, sibling_next = nullptr, main_thread = nullptr,
     thread_list_head = nullptr\<rparr>"

section \<open>Cores\<close>

text \<open>Selector of the flat kernel data segment in the global descriptor table.\<close>

definition SegData :: nat where
  "SegData = 8 * 3"

datatype CoreState = CoreEmpty | CorePrepared | CoreBooting | CoreOnline | CoreFailed

text \<open>The per-core record; \<open>kernel_rsp\<close> exists in the 64-bit build only.\<close>

record PERCORE =
  pc_current_thread :: ptr
  pc_idle_thread :: ptr
  pc_switching_out_thread :: ptr
  core_state :: CoreState
  kernel_rsp :: stduint
  tss_sp0 :: stduint
  tss_ss0 :: nat
  kernel_stack :: stduint

section \<open>Scheduler state\<close>

record ReadyQueue =
  qhead :: ptr
  qtail :: ptr

definition empty_queue :: ReadyQueue where
  "empty_queue = \<lparr>qhead = nullptr, qtail = nullptr\<rparr>"

text \<open>
  The globals of \<^verbatim>\<open>src/mecocoa/schedul.cpp\<close>: the two block heaps, the ready and expired
  queue arrays with their bitmaps, the core table, the process and thread chains, the identifier
  counter and the state of \<open>scheduler_lock\<close>. The last three fields observe effects that leave
  the scheduler: rescheduling interrupts sent to other cores, addresses returned to the
  allocator, and whether a fatal log line was printed.
\<close>

record sched =
  thr :: "ptr \<Rightarrow> ThreadBlock"
  queue_state_prev :: "ptr \<Rightarrow> ptr"
  queue_state_next :: "ptr \<Rightarrow> ptr"
  procs :: "ptr \<Rightarrow> ProcessBlock"
  priority_queues :: "nat \<Rightarrow> ReadyQueue"
  expired_queues :: "nat \<Rightarrow> ReadyQueue"
  ready_bitmap :: uint32
  expired_bitmap :: uint32
  PCU_CORES :: nat
  PCU_CORES_PERCORE :: "nat \<Rightarrow> PERCORE option"
  chain :: "ptr list"
  thchain :: "ptr list"
  next_global_id :: nat
  scheduler_lock :: bool
  ipi_log :: "nat list"
  freed :: "stduint list"
  fatal :: bool

definition upd_thr :: "ptr \<Rightarrow> (ThreadBlock \<Rightarrow> ThreadBlock) \<Rightarrow> sched \<Rightarrow> sched" where
  [kdefs]: "upd_thr p f s = s\<lparr>thr := (thr s)(p := f (thr s p))\<rparr>"

definition upd_proc :: "ptr \<Rightarrow> (ProcessBlock \<Rightarrow> ProcessBlock) \<Rightarrow> sched \<Rightarrow> sched" where
  [kdefs]: "upd_proc p f s = s\<lparr>procs := (procs s)(p := f (procs s p))\<rparr>"

definition current_thread :: "sched \<Rightarrow> nat \<Rightarrow> ptr" where
  "current_thread s c =
     (case PCU_CORES_PERCORE s c of None \<Rightarrow> nullptr | Some pc \<Rightarrow> pc_current_thread pc)"

definition idle_thread :: "sched \<Rightarrow> nat \<Rightarrow> ptr" where
  "idle_thread s c =
     (case PCU_CORES_PERCORE s c of None \<Rightarrow> nullptr | Some pc \<Rightarrow> pc_idle_thread pc)"

definition switching_out_threads :: "sched \<Rightarrow> nat \<Rightarrow> ptr" where
  "switching_out_threads s c =
     (case PCU_CORES_PERCORE s c of None \<Rightarrow> nullptr | Some pc \<Rightarrow> pc_switching_out_thread pc)"

text \<open>A write through the reference returned for a core without a record hits a dummy.\<close>

definition upd_core :: "nat \<Rightarrow> (PERCORE \<Rightarrow> PERCORE) \<Rightarrow> sched \<Rightarrow> sched" where
  [kdefs]: "upd_core c f s =
     s\<lparr>PCU_CORES_PERCORE := (PCU_CORES_PERCORE s)(c := map_option f (PCU_CORES_PERCORE s c))\<rparr>"

text \<open>
  \<open>scheduler_lock\<close> as seen by one flow of control: taking it when it is already held spins
  forever, which is the value \<open>None\<close>.
\<close>

definition AcquireSched :: "sched \<Rightarrow> sched option" where
  "AcquireSched s = (if scheduler_lock s then None else Some (s\<lparr>scheduler_lock := True\<rparr>))"

definition ReleaseSched :: "sched \<Rightarrow> sched" where
  "ReleaseSched s = s\<lparr>scheduler_lock := False\<rparr>"

end
