(* ===== verification/Scheduler.thy ===== *)
theory Scheduler
  imports Kernel_Types
begin

text \<open>
  The O(1) priority scheduler of \<^verbatim>\<open>src/mecocoa/schedul.cpp\<close>: the intrusive ready and
  expired queues, the choice of the next thread with its epoch swap, blocking and waking, the
  timeslice rules, and the context-switch decision of \<open>Schedule\<close> and \<open>SleepAndRelease\<close>.
  Every operation is a function on the global state; an operation that may fail to return
  (a walk over a cyclic queue, a second acquisition of \<open>scheduler_lock\<close>) returns an option.
  Well-formed queues and the refinement of these operations to operations on lists are in
  theory \<open>Ready_Queues\<close>.
\<close>

section \<open>Kernel stack metadata\<close>

definition ThreadHasSchedulableKernelStackMetadata :: "sched \<Rightarrow> ptr \<Rightarrow> bool" where
  "ThreadHasSchedulableKernelStackMetadata s th \<longleftrightarrow>
     th \<noteq> nullptr \<and> stack_levladdr (thr s th) \<noteq> 0 \<and> stack_size (thr s th) \<noteq> 0"

definition RequireSchedulableKernelStackMetadata :: "sched \<Rightarrow> ptr \<Rightarrow> sched" where
  "RequireSchedulableKernelStackMetadata s th =
     (if ThreadHasSchedulableKernelStackMetadata s th then s else s\<lparr>fatal := True\<rparr>)"

definition TRANSITION_STACK_SIZE :: stduint where
  "TRANSITION_STACK_SIZE = 0x1000"

definition TRANSITION_STACK_BASE :: "mcca \<Rightarrow> stduint" where
  "TRANSITION_STACK_BASE m =
     (case m of MCCA_8664 \<Rightarrow> 0xFFFFFFFFFFFFF000 | MCCA_8632 \<Rightarrow> 0xFFFFF000)"

definition TRANSITION_STACK_TOP :: "mcca \<Rightarrow> stduint" where
  "TRANSITION_STACK_TOP m = TRANSITION_STACK_BASE m + (TRANSITION_STACK_SIZE - 0x10)"

definition GetCoreTransitionStackTop :: "mcca \<Rightarrow> nat \<Rightarrow> stduint" where
  "GetCoreTransitionStackTop m cpuid =
     TRANSITION_STACK_TOP m - of_nat cpuid * TRANSITION_STACK_SIZE"

definition BindCurrentKernelEntryStack_8632 :: "ptr \<Rightarrow> nat \<Rightarrow> sched \<Rightarrow> sched" where
  "BindCurrentKernelEntryStack_8632 th cpuid s =
     (if th = nullptr then s
      else case PCU_CORES_PERCORE s cpuid of
        None \<Rightarrow> s
      | Some _ \<Rightarrow>
          upd_core cpuid (\<lambda>pc. pc\<lparr>pc_current_thread := th,
              kernel_stack := take_bit 32 (stack_levladdr (thr s th) + stack_size (thr s th) - 0x10),
              tss_sp0 := GetCoreTransitionStackTop MCCA_8632 cpuid,
              tss_ss0 := SegData\<rparr>)
            (RequireSchedulableKernelStackMetadata s th))"

definition BindCurrentKernelEntryStack_8664 :: "ptr \<Rightarrow> nat \<Rightarrow> sched \<Rightarrow> sched" where
  "BindCurrentKernelEntryStack_8664 th cpuid s =
     (if th = nullptr then s
      else case PCU_CORES_PERCORE s cpuid of
        None \<Rightarrow> s
      | Some _ \<Rightarrow>
          let krsp = GetCoreTransitionStackTop MCCA_8664 cpuid;
              kstack = (if stack_levladdr (thr s th) \<noteq> 0 \<and> stack_size (thr s th) \<noteq> 0
                        then stack_levladdr (thr s th) + stack_size (thr s th) - 0x10
                        else krsp);
              s1 = upd_core cpuid (\<lambda>pc. pc\<lparr>pc_current_thread := th, kernel_rsp := krsp,
                     tss_sp0 := krsp, kernel_stack := kstack\<rparr>) s
          in if krsp = 0 then s1\<lparr>fatal := True\<rparr> else s1)"

definition BindCurrentKernelEntryStack :: "mcca \<Rightarrow> ptr \<Rightarrow> nat \<Rightarrow> sched \<Rightarrow> sched" where
  "BindCurrentKernelEntryStack m th cpuid s =
     (case m of MCCA_8632 \<Rightarrow> BindCurrentKernelEntryStack_8632 th cpuid s
      | MCCA_8664 \<Rightarrow> BindCurrentKernelEntryStack_8664 th cpuid s)"

section \<open>Rescheduling interrupts\<close>

definition SendRescheduleIPI :: "nat \<Rightarrow> sched \<Rightarrow> sched" where
  "SendRescheduleIPI core s = s\<lparr>ipi_log := ipi_log s @ [core]\<rparr>"

definition WakeThreadOnRecordedCpu :: "nat \<Rightarrow> ptr \<Rightarrow> sched \<Rightarrow> bool \<times> sched" where
  "WakeThreadOnRecordedCpu cpuid th s =
     (if th = nullptr then (False, s)
      else let target_cpu = processor_id (thr s th) in
        if target_cpu = CORE_ID_INVALID \<or> target_cpu \<ge> PCU_CORES s then (False, s)
        else if target_cpu = cpuid then (False, s)
        else case PCU_CORES_PERCORE s target_cpu of
            None \<Rightarrow> (False, s)
          | Some pc \<Rightarrow> if core_state pc \<noteq> CoreOnline then (False, s)
                       else (True, SendRescheduleIPI target_cpu s))"

section \<open>Ready and expired queues\<close>

text \<open>Clamp of a thread priority to a queue index.\<close>

definition prio_idx :: "int \<Rightarrow> nat" where
  "prio_idx p = (let idx = p + 16;
                     idx = (if idx < 0 then 0 else idx);
                     idx = (if idx > 31 then 31 else idx)
                 in nat idx)"

text \<open>The linking code shared by both enqueue operations: append a block at the tail.\<close>

definition queue_append :: "ptr \<Rightarrow> ReadyQueue \<Rightarrow> sched \<Rightarrow> ReadyQueue \<times> sched" where
  "queue_append pb q s =
     (let s = s\<lparr>queue_state_next := (queue_state_next s)(pb := nullptr)\<rparr>
      in if qtail q \<noteq> nullptr
         then let s = s\<lparr>queue_state_next := (queue_state_next s)(qtail q := pb)\<rparr>;
                  s = s\<lparr>queue_state_prev := (queue_state_prev s)(pb := qtail q)\<rparr>
              in (q\<lparr>qtail := pb\<rparr>, s)
         else (\<lparr>qhead = pb, qtail = pb\<rparr>,
               s\<lparr>queue_state_prev := (queue_state_prev s)(pb := nullptr)\<rparr>))"

definition EnqueueReadyUnlocked :: "mcca \<Rightarrow> ptr \<Rightarrow> sched \<Rightarrow> sched" where
  "EnqueueReadyUnlocked m pb s =
     (if state (thr s pb) \<noteq> Ready \<and> state (thr s pb) \<noteq> Running then s
      else
        let s = (if m = MCCA_8632 then RequireSchedulableKernelStackMetadata s pb else s);
            idx = prio_idx (priority (thr s pb))
        in if queue_state_next s pb \<noteq> nullptr \<or> queue_state_prev s pb \<noteq> nullptr \<or>
              qhead (priority_queues s idx) = pb then s
           else let (q, s) = queue_append pb (priority_queues s idx) s
                in s\<lparr>priority_queues := (priority_queues s)(idx := q),
                     ready_bitmap := ready_bitmap s OR push_bit idx 1\<rparr>)"

definition EnqueueReady :: "mcca \<Rightarrow> ptr \<Rightarrow> bool \<Rightarrow> sched \<Rightarrow> sched option" where
  "EnqueueReady m pb lock s =
     do { s \<leftarrow> (if lock then AcquireSched s else Some s);
          let s = EnqueueReadyUnlocked m pb s;
          Some (if lock then ReleaseSched s else s) }"

definition EnqueueExpiredUnlocked :: "mcca \<Rightarrow> ptr \<Rightarrow> sched \<Rightarrow> sched" where
  "EnqueueExpiredUnlocked m pb s =
     (if state (thr s pb) \<noteq> Ready \<and> state (thr s pb) \<noteq> Running then s
      else
        let s = (if m = MCCA_8632 then RequireSchedulableKernelStackMetadata s pb else s);
            idx = prio_idx (priority (thr s pb))
        in if queue_state_next s pb \<noteq> nullptr \<or> queue_state_prev s pb \<noteq> nullptr \<or>
              qhead (expired_queues s idx) = pb then s
           else let s = upd_thr pb (\<lambda>t. t\<lparr>is_expired := True\<rparr>) s;
                    (q, s) = queue_append pb (expired_queues s idx) s
                in s\<lparr>expired_queues := (expired_queues s)(idx := q),
                     expired_bitmap := expired_bitmap s OR push_bit idx 1\<rparr>)"

definition EnqueueExpired :: "mcca \<Rightarrow> ptr \<Rightarrow> bool \<Rightarrow> sched \<Rightarrow> sched option" where
  "EnqueueExpired m pb lock s =
     do { s \<leftarrow> (if lock then AcquireSched s else Some s);
          let s = EnqueueExpiredUnlocked m pb s;
          Some (if lock then ReleaseSched s else s) }"

definition DequeueReadyUnlocked :: "ptr \<Rightarrow> sched \<Rightarrow> sched" where
  "DequeueReadyUnlocked pb s =
     (let idx = prio_idx (priority (thr s pb));
          nx = queue_state_next s; pv = queue_state_prev s;
          q = priority_queues s idx; e = expired_queues s idx;
          head_active = (qhead q = pb);
          head_expired = (\<not> head_active \<and> qhead e = pb);
          q = (if head_active then q\<lparr>qhead := nx pb\<rparr> else q);
          e = (if head_expired then e\<lparr>qhead := nx pb\<rparr> else e);
          tail_active = (\<not> head_active \<and> \<not> head_expired \<and> qtail q = pb);
          tail_expired = (\<not> head_active \<and> \<not> head_expired \<and> \<not> tail_active \<and> qtail e = pb);
          in_active = (head_active \<or> tail_active);
          in_expired = (head_expired \<or> tail_expired);
          nx = (if pv pb \<noteq> nullptr then nx(pv pb := nx pb) else nx);
          pv = (if nx pb \<noteq> nullptr then pv(nx pb := pv pb) else pv);
          q = (if in_active \<and> qtail q = pb then q\<lparr>qtail := pv pb\<rparr> else q);
          e = (if in_expired \<and> qtail e = pb then e\<lparr>qtail := pv pb\<rparr> else e);
          nx = nx(pb := nullptr);
          pv = pv(pb := nullptr)
      in s\<lparr>queue_state_prev := pv, queue_state_next := nx,
           priority_queues := (priority_queues s)(idx := q),
           expired_queues := (expired_queues s)(idx := e),
           ready_bitmap := (if in_active \<and> qhead q = nullptr
                            then ready_bitmap s AND NOT (push_bit idx 1) else ready_bitmap s),
           expired_bitmap := (if in_expired \<and> qhead e = nullptr
                              then expired_bitmap s AND NOT (push_bit idx 1) else expired_bitmap s)\<rparr>)"

definition DequeueReady :: "ptr \<Rightarrow> bool \<Rightarrow> sched \<Rightarrow> sched option" where
  "DequeueReady pb lock s =
     do { s \<leftarrow> (if lock then AcquireSched s else Some s);
          let s = DequeueReadyUnlocked pb s;
          Some (if lock then ReleaseSched s else s) }"

section \<open>Choosing the next thread\<close>

text \<open>Count trailing zeros of a nonzero 32-bit word.\<close>

definition ctz32 :: "uint32 \<Rightarrow> nat" where
  "ctz32 w = length (takeWhile (\<lambda>i. \<not> bit w i) [0..<32])"

partial_function (option) clear_expired :: "ptr \<Rightarrow> sched \<Rightarrow> sched option" where
  "clear_expired node s =
     (if node = nullptr then Some s
      else let s = upd_thr node (\<lambda>t. t\<lparr>is_expired := False\<rparr>) s
           in clear_expired (queue_state_next s node) s)"

fun swap_queues :: "nat list \<Rightarrow> sched \<Rightarrow> sched option" where
  "swap_queues [] s = Some s"
| "swap_queues (i # is) s =
     (let s = s\<lparr>priority_queues := (priority_queues s)(i := expired_queues s i)\<rparr>;
          s = s\<lparr>expired_queues := (expired_queues s)(i := empty_queue)\<rparr>
      in do { s \<leftarrow> clear_expired (qhead (priority_queues s i)) s;
              swap_queues is s })"

text \<open>The epoch swap of the timeshared queues 16 to 31.\<close>

definition epoch_swap :: "sched \<Rightarrow> sched option" where
  "epoch_swap s =
     (if ready_bitmap s AND 0xFFFF0000 = 0 \<and> expired_bitmap s AND 0xFFFF0000 \<noteq> 0
      then do { s \<leftarrow> swap_queues [16..<32] s;
                Some (s\<lparr>ready_bitmap := ready_bitmap s OR (expired_bitmap s AND 0xFFFF0000),
                        expired_bitmap := expired_bitmap s AND 0x0000FFFF\<rparr>) }
      else Some s)"

definition active_on_other_cpu :: "sched \<Rightarrow> nat \<Rightarrow> ptr \<Rightarrow> bool" where
  "active_on_other_cpu s cpuid node \<longleftrightarrow>
     (\<exists>c \<in> set [0..<PCU_CORES s]. c \<noteq> cpuid \<and> current_thread s c = node)"

definition runnable_here :: "mcca \<Rightarrow> sched \<Rightarrow> nat \<Rightarrow> ptr \<Rightarrow> bool" where
  "runnable_here m s cpuid node \<longleftrightarrow>
     (m = MCCA_8632 \<longrightarrow> ring_coreid (thr s node) = CORE_ID_INVALID \<or> ring_coreid (thr s node) = cpuid)"

definition candidate :: "sched \<Rightarrow> nat \<Rightarrow> ptr \<Rightarrow> bool" where
  "candidate s cpuid node \<longleftrightarrow> \<not> just_schedule (thr s node) \<and> state (thr s node) \<noteq> Running \<and>
     \<not> active_on_other_cpu s cpuid node"

text \<open>
  The walk over one queue: the first thread that may run here (or \<open>nullptr\<close>), and whether some
  candidate was skipped because of its core affinity.
\<close>

partial_function (option) scan_queue ::
    "mcca \<Rightarrow> sched \<Rightarrow> nat \<Rightarrow> ptr \<Rightarrow> bool \<Rightarrow> (ptr \<times> bool) option" where
  "scan_queue m s cpuid node skipped =
     (if node = nullptr then Some (nullptr, skipped)
      else if candidate s cpuid node \<and> runnable_here m s cpuid node then Some (node, skipped)
      else scan_queue m s cpuid (queue_state_next s node)
             (skipped \<or> candidate s cpuid node))"

partial_function (option) scan_bitmap ::
    "mcca \<Rightarrow> sched \<Rightarrow> nat \<Rightarrow> (nat \<Rightarrow> ReadyQueue) \<Rightarrow> uint32 \<Rightarrow> bool \<Rightarrow> (ptr \<times> bool) option" where
  "scan_bitmap m s cpuid qs bitmap skipped =
     (if bitmap = 0 then Some (nullptr, skipped)
      else let idx = ctz32 bitmap in
        do { (node, skipped) \<leftarrow> scan_queue m s cpuid (qhead (qs idx)) skipped;
             if node \<noteq> nullptr then Some (node, skipped)
             else scan_bitmap m s cpuid qs (bitmap AND NOT (push_bit idx 1)) skipped })"

text \<open>Forget the first core that is still switching out the chosen thread.\<close>

definition forget_switching_out :: "ptr \<Rightarrow> sched \<Rightarrow> sched" where
  "forget_switching_out node s =
     (case List.find (\<lambda>i. switching_out_threads s i = node) [0..<PCU_CORES s] of
        None \<Rightarrow> s
      | Some i \<Rightarrow> upd_core i (\<lambda>pc. pc\<lparr>pc_switching_out_thread := nullptr\<rparr>) s)"

definition PickNext :: "mcca \<Rightarrow> nat \<Rightarrow> sched \<Rightarrow> (ptr \<times> sched) option" where
  "PickNext m cpuid s =
     do { s \<leftarrow> epoch_swap s;
          if ready_bitmap s = 0 then Some (nullptr, s)
          else do {
            (node, skipped) \<leftarrow> scan_bitmap m s cpuid (priority_queues s) (ready_bitmap s) False;
            if node \<noteq> nullptr then Some (node, forget_switching_out node s)
            else if m = MCCA_8632 \<and> skipped \<and> expired_bitmap s AND 0xFFFF0000 \<noteq> 0
            then do {
              (node, _) \<leftarrow> scan_bitmap m s cpuid (expired_queues s)
                             (expired_bitmap s AND 0xFFFF0000) False;
              if node \<noteq> nullptr then Some (node, forget_switching_out node s)
              else Some (nullptr, s) }
            else Some (nullptr, s) } }"

section \<open>Blocking and waking\<close>

definition Block :: "ptr \<Rightarrow> uint32 \<Rightarrow> sched \<Rightarrow> sched option" where
  "Block th reason s =
     do { s \<leftarrow> AcquireSched s;
          s \<leftarrow> DequeueReady th False s;
          let s = (if pending_wake (thr s th) AND reason \<noteq> 0
                   then upd_thr th (\<lambda>t. t\<lparr>pending_wake := pending_wake t AND NOT reason,
                                           block_reason := block_reason t AND NOT reason\<rparr>) s
                   else upd_thr th (\<lambda>t. t\<lparr>state := Pended,
                                           block_reason := block_reason t OR reason\<rparr>) s);
          Some (ReleaseSched s) }"

definition UnblockThreadLocked :: "mcca \<Rightarrow> nat \<Rightarrow> ptr \<Rightarrow> uint32 \<Rightarrow> sched \<Rightarrow> sched option" where
  "UnblockThreadLocked m cpuid th reason s =
     (let s = upd_thr th (\<lambda>t. t\<lparr>block_reason := block_reason t AND NOT reason\<rparr>) s in
      if block_reason (thr s th) = BR_None then
        if state (thr s th) = Running
        then Some (upd_thr th (\<lambda>t. t\<lparr>pending_wake := pending_wake t OR reason\<rparr>) s)
        else if state (thr s th) = Ready then Some s
        else
          let s = upd_thr th (\<lambda>t. t\<lparr>state := Ready\<rparr>) s in
          do { s \<leftarrow> (if is_expired (thr s th) then EnqueueExpired m th False s
                      else EnqueueReady m th False s);
               Some (if m = MCCA_8632 then snd (WakeThreadOnRecordedCpu cpuid th s) else s) }
      else Some s)"

definition Unblock :: "mcca \<Rightarrow> nat \<Rightarrow> ptr \<Rightarrow> uint32 \<Rightarrow> sched \<Rightarrow> sched option" where
  "Unblock m cpuid th reason s =
     do { s \<leftarrow> AcquireSched s;
          s \<leftarrow> UnblockThreadLocked m cpuid th reason s;
          Some (ReleaseSched s) }"

definition UnblockThread :: "mcca \<Rightarrow> nat \<Rightarrow> nat \<Rightarrow> uint32 \<Rightarrow> sched \<Rightarrow> (bool \<times> sched) option" where
  "UnblockThread m cpuid t reason s =
     do { s \<leftarrow> AcquireSched s;
          case List.find (\<lambda>th. tid (thr s th) = t) (thchain s) of
            None \<Rightarrow> Some (False, ReleaseSched s)
          | Some th \<Rightarrow>
              if state (thr s th) = Exited \<or> state (thr s th) = Invalid
              then Some (False, ReleaseSched s)
              else if block_reason (thr s th) AND reason = 0 then Some (False, ReleaseSched s)
              else do { s \<leftarrow> UnblockThreadLocked m cpuid th reason s;
                        Some (True, ReleaseSched s) } }"

section \<open>Registering processes and threads\<close>

definition fetch_add_id :: "sched \<Rightarrow> nat \<times> sched" where
  "fetch_add_id s = (next_global_id s, s\<lparr>next_global_id := (next_global_id s + 1) mod 2 ^ 64\<rparr>)"

definition Append :: "ptr \<Rightarrow> sched \<Rightarrow> sched option" where
  "Append task s =
     do { s \<leftarrow> AcquireSched s;
          let (i, s) = fetch_add_id s;
          let s = upd_proc task (\<lambda>p. p\<lparr>pid := i\<rparr>) s;
          let s = (case List.find (\<lambda>p. pid (procs s p) = parent_id (procs s task)) (chain s) of
                     None \<Rightarrow> s
                   | Some pparent \<Rightarrow>
                       (let s = upd_proc task
                              (\<lambda>p. p\<lparr>sibling_next := child_list_head (procs s pparent)\<rparr>) s
                        in upd_proc pparent (\<lambda>p. p\<lparr>child_list_head := task\<rparr>) s));
          let s = s\<lparr>chain := chain s @ [task]\<rparr>;
          let s = upd_proc task (\<lambda>p. p\<lparr>pb_state := PActive\<rparr>) s;
          Some (ReleaseSched s) }"

definition AppendThread :: "mcca \<Rightarrow> ptr \<Rightarrow> sched \<Rightarrow> sched option" where
  "AppendThread m task s =
     do { s \<leftarrow> AcquireSched s;
          let pb = parent_process (thr s task);
          let s = (if pb \<noteq> nullptr \<and> main_thread (procs s pb) = task
                   then upd_thr task (\<lambda>t. t\<lparr>tid := pid (procs s pb)\<rparr>) s
                   else let (i, s) = fetch_add_id s in upd_thr task (\<lambda>t. t\<lparr>tid := i\<rparr>) s);
          let s = (if m = MCCA_8632 then RequireSchedulableKernelStackMetadata s task else s);
          let s = s\<lparr>thchain := thchain s @ [task]\<rparr>;
          let s = upd_thr task (\<lambda>t. t\<lparr>state := Ready\<rparr>) s;
          s \<leftarrow> EnqueueReady m task False s;
          Some (ReleaseSched s) }"

definition Locate :: "nat \<Rightarrow> sched \<Rightarrow> ptr option" where
  "Locate taskid s =
     do { s \<leftarrow> AcquireSched s;
          Some (case List.find (\<lambda>p. pid (procs s p) = taskid) (chain s) of
                  None \<Rightarrow> nullptr | Some p \<Rightarrow> p) }"

definition LocateThread :: "nat \<Rightarrow> sched \<Rightarrow> ptr option" where
  "LocateThread t s =
     do { s \<leftarrow> AcquireSched s;
          Some (case List.find (\<lambda>th. tid (thr s th) = t) (thchain s) of
                  None \<Rightarrow> nullptr | Some th \<Rightarrow> th) }"


section \<open>Timeslices\<close>

text \<open>
  Whether the running thread keeps the core at a timer tick. \<open>time_slice\<close> is an 8-bit counter,
  so the new allotment is written at that width.
\<close>

definition ifContinueProcess :: "mcca \<Rightarrow> ptr \<Rightarrow> sched \<Rightarrow> (bool \<times> sched) option" where
  "ifContinueProcess m old s =
     (if state (thr s old) = Running then
        if priority (thr s old) \<ge> 0 then
          if time_slice (thr s old) > 0
          then Some (True, upd_thr old (\<lambda>t. t\<lparr>time_slice := time_slice t - 1\<rparr>) s)
          else do { s \<leftarrow> DequeueReady old False s;
                    let s = upd_thr old (\<lambda>t. t\<lparr>state := Ready\<rparr>) s;
                    s \<leftarrow> EnqueueExpired m old False s;
                    Some (False, upd_thr old
                      (\<lambda>t. t\<lparr>time_slice := word_of_int (3 - priority t div 4)\<rparr>) s) }
        else
          if time_slice (thr s old) > 0
          then Some (True, upd_thr old (\<lambda>t. t\<lparr>time_slice := time_slice t - 1\<rparr>) s)
          else do { s \<leftarrow> DequeueReady old False s;
                    let s = upd_thr old (\<lambda>t. t\<lparr>state := Ready\<rparr>) s;
                    s \<leftarrow> EnqueueReady m old False s;
                    Some (False, upd_thr old (\<lambda>t. t\<lparr>time_slice := 4\<rparr>) s) }
      else Some (False, s))"

section \<open>Destroying a thread\<close>

text \<open>
  A nested call of \<open>Schedule\<close>: it takes \<open>scheduler_lock\<close> first; what the state is when control
  comes back to the caller is up to the rest of the system, the parameter \<open>env\<close>.
\<close>

definition call_Schedule :: "(sched \<Rightarrow> sched option) \<Rightarrow> sched \<Rightarrow> sched option" where
  "call_Schedule env s = do { s \<leftarrow> AcquireSched s; env s }"

definition thread_active :: "ptr \<Rightarrow> sched \<Rightarrow> bool" where
  "thread_active th s \<longleftrightarrow> state (thr s th) = Running \<or>
     (\<exists>i \<in> set [0..<PCU_CORES s]. current_thread s i = th \<or> switching_out_threads s i = th)"

partial_function (option) await_inactive ::
    "(sched \<Rightarrow> sched option) \<Rightarrow> ptr \<Rightarrow> sched \<Rightarrow> sched option" where
  "await_inactive env th s =
     (if thread_active th s
      then do { s \<leftarrow> call_Schedule env s; await_inactive env th s }
      else Some s)"

text \<open>The last list element whose successor is \<open>th\<close>, or \<open>nullptr\<close>.\<close>

partial_function (option) find_thread_prev ::
    "(ptr \<Rightarrow> ThreadBlock) \<Rightarrow> ptr \<Rightarrow> ptr \<Rightarrow> ptr option" where
  "find_thread_prev h prev th =
     (if prev = nullptr \<or> process_thread_next (h prev) = th then Some prev
      else find_thread_prev h (process_thread_next (h prev)) th)"

definition unlink_process_thread :: "ptr \<Rightarrow> ptr \<Rightarrow> sched \<Rightarrow> sched option" where
  "unlink_process_thread ppb th s =
     do { s \<leftarrow> AcquireSched s;
          s \<leftarrow> (if thread_list_head (procs s ppb) = th
                 then Some (upd_proc ppb
                        (\<lambda>p. p\<lparr>thread_list_head := process_thread_next (thr s th)\<rparr>) s)
                 else do { prev \<leftarrow> find_thread_prev (thr s) (thread_list_head (procs s ppb)) th;
                           Some (if prev \<noteq> nullptr
                                 then upd_thr prev
                                   (\<lambda>t. t\<lparr>process_thread_next := process_thread_next (thr s th)\<rparr>) s
                                 else s) });
          let s = (if main_thread (procs s ppb) = th
                   then upd_proc ppb (\<lambda>p. p\<lparr>main_thread := thread_list_head p\<rparr>) s else s);
          Some (ReleaseSched s) }"

text \<open>
  \<open>pg\<close> is the page lookup of the process's \<open>Paging\<close> object. Timers, device handles and
  device events of the thread are released by their own components.
\<close>

definition DestroyThread ::
    "(sched \<Rightarrow> sched option) \<Rightarrow> (ptr \<Rightarrow> stduint \<Rightarrow> stduint) \<Rightarrow> ptr \<Rightarrow> sched \<Rightarrow> sched option" where
  "DestroyThread env pg th s =
     (if th = nullptr then Some s
      else do {
        s \<leftarrow> await_inactive env th s;
        let ppb = parent_process (thr s th);
        s \<leftarrow> (if ppb \<noteq> nullptr then unlink_process_thread ppb th s else Some s);
        s \<leftarrow> AcquireSched s;
        s \<leftarrow> DequeueReady th False s;
        let s = ReleaseSched (s\<lparr>thchain := removeAll th (thchain s)\<rparr>);
        let line = stack_lineaddr (thr s th);
        let lev = stack_levladdr (thr s th);
        let s = (if line = lev then s\<lparr>freed := freed s @ [lev]\<rparr>
                 else if ppb \<noteq> nullptr
                 then s\<lparr>freed := freed s @
                          (if line \<noteq> 0 then [pg ppb (line AND NOT 0xFFF)] else []) @ [lev]\<rparr>
                 else s);
        Some (s\<lparr>freed := freed s @ [of_nat th]\<rparr>) })"

definition SettleSwitchingOutThread ::
    "(sched \<Rightarrow> sched option) \<Rightarrow> (ptr \<Rightarrow> stduint \<Rightarrow> stduint) \<Rightarrow> nat \<Rightarrow> sched \<Rightarrow> sched option" where
  "SettleSwitchingOutThread env pg cpuid s =
     (let completed = switching_out_threads s cpuid in
      if completed \<noteq> nullptr then
        do { s \<leftarrow> (if state (thr s completed) = Hanging \<and> is_detached (thr s completed)
                   then DestroyThread env pg completed s else Some s);
             let s = upd_thr completed (\<lambda>t. t\<lparr>just_schedule := False\<rparr>) s;
             Some (upd_core cpuid (\<lambda>pc. pc\<lparr>pc_switching_out_thread := nullptr\<rparr>) s) }
      else Some s)"

section \<open>The scheduling decision\<close>

text \<open>
  How a call ends: it returns to its caller on the same thread; it switches context from one
  thread to another; it spins with interrupts enabled because no idle thread exists yet; or the
  core has no current thread and halts.
\<close>

datatype sched_result =
    Returned sched
  | Switched ptr ptr sched
  | Spinning ptr sched
  | NoCurrent sched

definition switch_to :: "mcca \<Rightarrow> nat \<Rightarrow> ptr \<Rightarrow> sched \<Rightarrow> sched" where
  "switch_to m cpuid new s =
     (let s = upd_core cpuid (\<lambda>pc. pc\<lparr>pc_current_thread := new\<rparr>) s;
          s = upd_thr new (\<lambda>t. t\<lparr>processor_id := cpuid\<rparr>) s
      in BindCurrentKernelEntryStack m new cpuid s)"

definition switch_from :: "nat \<Rightarrow> ptr \<Rightarrow> sched \<Rightarrow> sched" where
  "switch_from cpuid old s =
     (let s = upd_thr old (\<lambda>t. t\<lparr>just_schedule := True\<rparr>) s
      in upd_core cpuid (\<lambda>pc. pc\<lparr>pc_switching_out_thread := old\<rparr>) s)"

text \<open>The part of \<open>Schedule\<close> after the next thread is known; the lock is held.\<close>

definition Schedule_commit :: "mcca \<Rightarrow> nat \<Rightarrow> ptr \<Rightarrow> ptr \<Rightarrow> sched \<Rightarrow> sched_result option" where
  "Schedule_commit m cpuid old new s =
     (if new = old then
        let s = (if state (thr s old) = Ready then upd_thr old (\<lambda>t. t\<lparr>state := Running\<rparr>) s else s)
        in do { s \<leftarrow> DequeueReady old False s;
                let s = upd_thr old (\<lambda>t. t\<lparr>processor_id := cpuid\<rparr>) s;
                Some (Returned (ReleaseSched s)) }
      else do {
        s \<leftarrow> (if new \<noteq> idle_thread s cpuid then DequeueReady new False s else Some s);
        let s = (if state (thr s new) = Uninit then upd_thr new (\<lambda>t. t\<lparr>state := Ready\<rparr>) s else s);
        let s = (if state (thr s old) = Running \<and> state (thr s new) = Ready
                 then upd_thr new (\<lambda>t. t\<lparr>state := Running\<rparr>)
                        (upd_thr old (\<lambda>t. t\<lparr>state := Ready\<rparr>) s)
                 else if state (thr s new) = Ready
                 then upd_thr new (\<lambda>t. t\<lparr>state := Running\<rparr>) s
                 else s\<lparr>fatal := True\<rparr>);
        let s = switch_to m cpuid new s;
        let s = switch_from cpuid old s;
        Some (Switched old new (ReleaseSched s)) })"

text \<open>What \<open>Schedule\<close> does with the outgoing thread before it picks; \<open>True\<close> keeps it running.\<close>

definition Schedule_outgoing :: "mcca \<Rightarrow> bool \<Rightarrow> nat \<Rightarrow> ptr \<Rightarrow> sched \<Rightarrow> (bool \<times> sched) option" where
  "Schedule_outgoing m omit_slice cpuid old s =
     (let is_idle = (old = idle_thread s cpuid) in
      if \<not> omit_slice then
        if \<not> is_idle then ifContinueProcess m old s
        else Some (ready_bitmap s = 0 \<and> expired_bitmap s = 0, s)
      else
        let st = state (thr s old) in
        if st = Pended \<or> st = Hanging \<or> st = Invalid then Some (False, s)
        else if \<not> is_idle then
          do { s \<leftarrow> DequeueReady old False s;
               let s = upd_thr old (\<lambda>t. t\<lparr>state := Ready\<rparr>) s;
               s \<leftarrow> (if st = Running \<or> st = Ready then EnqueueExpired m old False s else Some s);
               Some (False, s) }
        else Some (False, upd_thr old (\<lambda>t. t\<lparr>state := Ready\<rparr>) s))"

definition Schedule ::
    "(sched \<Rightarrow> sched option) \<Rightarrow> (ptr \<Rightarrow> stduint \<Rightarrow> stduint) \<Rightarrow> mcca \<Rightarrow> bool \<Rightarrow> nat \<Rightarrow> sched \<Rightarrow>
      sched_result option" where
  "Schedule env pg m omit_slice cpuid s =
     do { s \<leftarrow> AcquireSched s;
          s \<leftarrow> SettleSwitchingOutThread env pg cpuid s;
          let old = current_thread s cpuid;
          if old = nullptr then Some (NoCurrent s)
          else do {
            (keep, s) \<leftarrow> Schedule_outgoing m omit_slice cpuid old s;
            if keep then Some (Returned (ReleaseSched s))
            else do {
              (new, s) \<leftarrow> PickNext m cpuid s;
              if new \<noteq> nullptr then Schedule_commit m cpuid old new s
              else if state (thr s old) = Running \<or> state (thr s old) = Ready
              then Schedule_commit m cpuid old old s
              else if idle_thread s cpuid \<noteq> nullptr
              then Schedule_commit m cpuid old (idle_thread s cpuid) s
              else Some (Spinning old (ReleaseSched s)) } } }"

text \<open>When the spin ends because \<open>PickNext\<close> found a thread, the call goes on under the lock.\<close>

definition Schedule_after_spin :: "mcca \<Rightarrow> nat \<Rightarrow> ptr \<Rightarrow> ptr \<Rightarrow> sched \<Rightarrow> sched_result option" where
  "Schedule_after_spin m cpuid old new s =
     do { s \<leftarrow> AcquireSched s; Schedule_commit m cpuid old new s }"

definition SleepAndRelease_commit :: "mcca \<Rightarrow> nat \<Rightarrow> ptr \<Rightarrow> ptr \<Rightarrow> sched \<Rightarrow> sched_result option" where
  "SleepAndRelease_commit m cpuid old new s =
     (let s = switch_to m cpuid new s in
      do { s \<leftarrow> (if new \<noteq> idle_thread s cpuid then DequeueReady new False s else Some s);
           let s = upd_thr new (\<lambda>t. t\<lparr>state := Running\<rparr>) s;
           let s = switch_from cpuid old s;
           Some (Switched old new (ReleaseSched s)) })"

text \<open>
  The caller's lock is released between the dequeue and the pick; its state belongs to the
  caller (theory \<open>Locks\<close>).
\<close>

definition SleepAndRelease ::
    "(sched \<Rightarrow> sched option) \<Rightarrow> (ptr \<Rightarrow> stduint \<Rightarrow> stduint) \<Rightarrow> mcca \<Rightarrow> nat \<Rightarrow> sched \<Rightarrow>
      sched_result option" where
  "SleepAndRelease env pg m cpuid s =
     (let old = current_thread s cpuid in
      do { s \<leftarrow> AcquireSched s;
           s \<leftarrow> SettleSwitchingOutThread env pg cpuid s;
           s \<leftarrow> DequeueReady old False s;
           (new, s) \<leftarrow> PickNext m cpuid s;
           if new \<noteq> nullptr then SleepAndRelease_commit m cpuid old new s
           else if idle_thread s cpuid \<noteq> nullptr
           then SleepAndRelease_commit m cpuid old (idle_thread s cpuid) s
           else Some (Spinning old (ReleaseSched s)) })"

end
