(* ===== verification/Ready_Queues.thy ===== *)
theory Ready_Queues
  imports Scheduler
begin

text \<open>
  The intrusive ready and expired queues as lists. \<open>dll\<close> relates a queue head/tail pair and the
  link members of the thread blocks to the list of queued threads; \<open>queues_ok\<close> is the invariant of
  the scheduler's two queue arrays, relative to the abstract arrays \<open>A\<close> (active) and \<open>E\<close>
  (expired). The lemmas show that each queue operation of theory \<open>Scheduler\<close> keeps the invariant
  and implements the corresponding list operation.
\<close>

section \<open>Doubly linked queues\<close>

definition hd0 :: "ptr list \<Rightarrow> ptr" where
  "hd0 xs = (case xs of [] \<Rightarrow> nullptr | x # _ \<Rightarrow> x)"

definition last0 :: "ptr list \<Rightarrow> ptr" where
  "last0 xs = (if xs = [] then nullptr else last xs)"

lemma hd0_simps [simp]: "hd0 [] = nullptr" "hd0 (x # xs) = x"
  by (simp_all add: hd0_def)

lemma last0_simps [simp]: "last0 [] = nullptr" "last0 (xs @ [x]) = x" "last0 [x] = x"
  "ys \<noteq> [] \<Longrightarrow> last0 (xs @ ys) = last0 ys" "xs \<noteq> [] \<Longrightarrow> last0 (x # xs) = last0 xs"
  by (simp_all add: last0_def)

lemma hd0_append: "hd0 (xs @ ys) = (if xs = [] then hd0 ys else hd0 xs)"
  by (cases xs) simp_all

lemma last0_append: "last0 (xs @ ys) = (if ys = [] then last0 xs else last0 ys)"
  by (simp add: last0_def)

lemma hd0_in: "xs \<noteq> [] \<Longrightarrow> hd0 xs \<in> set xs"
  by (cases xs) simp_all

lemma last0_in: "xs \<noteq> [] \<Longrightarrow> last0 xs \<in> set xs"
  by (simp add: last0_def)

fun links :: "(ptr \<Rightarrow> ptr) \<Rightarrow> (ptr \<Rightarrow> ptr) \<Rightarrow> ptr \<Rightarrow> ptr list \<Rightarrow> ptr \<Rightarrow> bool" where
  "links pv nx p [] n \<longleftrightarrow> True"
| "links pv nx p (x # xs) n \<longleftrightarrow> pv x = p \<and> nx x = (if xs = [] then n else hd0 xs) \<and>
     links pv nx x xs n"

lemma links_cong:
  "(\<And>x. x \<in> set xs \<Longrightarrow> pv x = pv' x \<and> nx x = nx' x) \<Longrightarrow> links pv nx p xs n = links pv' nx' p xs n"
  by (induction xs arbitrary: p) auto

lemma links_append:
  "links pv nx p (xs @ ys) n \<longleftrightarrow> links pv nx p xs (if ys = [] then n else hd0 ys) \<and>
     links pv nx (if xs = [] then p else last0 xs) ys n"
proof (induction xs arbitrary: p)
  case Nil
  then show ?case by simp
next
  case (Cons x xs)
  show ?case
    by (cases "xs = []") (auto simp: Cons.IH hd0_append)
qed

lemma links_upd [simp]:
  "a \<notin> set xs \<Longrightarrow> links (pv(a := v)) nx p xs n = links pv nx p xs n"
  "a \<notin> set xs \<Longrightarrow> links pv (nx(a := v)) p xs n = links pv nx p xs n"
  by (rule links_cong; auto)+

definition dll :: "(ptr \<Rightarrow> ptr) \<Rightarrow> (ptr \<Rightarrow> ptr) \<Rightarrow> ReadyQueue \<Rightarrow> ptr list \<Rightarrow> bool" where
  "dll pv nx q xs \<longleftrightarrow> distinct xs \<and> nullptr \<notin> set xs \<and> qhead q = hd0 xs \<and> qtail q = last0 xs \<and>
     links pv nx nullptr xs nullptr"

lemma dll_cong:
  "(\<And>x. x \<in> set xs \<Longrightarrow> pv x = pv' x \<and> nx x = nx' x) \<Longrightarrow> dll pv nx q xs = dll pv' nx' q xs"
  unfolding dll_def using links_cong [of xs pv pv' nx nx'] by blast

lemma dll_upd [simp]:
  "a \<notin> set xs \<Longrightarrow> dll (pv(a := v)) nx q xs = dll pv nx q xs"
  "a \<notin> set xs \<Longrightarrow> dll pv (nx(a := v)) q xs = dll pv nx q xs"
  by (simp_all add: dll_def)

lemma dll_empty [simp]: "dll pv nx empty_queue []"
  by (simp add: dll_def empty_queue_def)

lemma dll_qhead_null: "dll pv nx q xs \<Longrightarrow> (qhead q = nullptr) = (xs = [])"
  by (cases xs) (auto simp: dll_def)

lemma dll_qtail_null: "dll pv nx q xs \<Longrightarrow> (qtail q = nullptr) = (xs = [])"
  unfolding dll_def last0_def by (metis last_in_set)

lemma dll_qhead_notin: "dll pv nx q xs \<Longrightarrow> x \<notin> set xs \<Longrightarrow> x \<noteq> nullptr \<Longrightarrow> qhead q \<noteq> x"
  by (cases xs) (auto simp: dll_def)

lemma dll_qtail_notin: "dll pv nx q xs \<Longrightarrow> x \<notin> set xs \<Longrightarrow> x \<noteq> nullptr \<Longrightarrow> qtail q \<noteq> x"
  unfolding dll_def last0_def by (metis last_in_set)

lemma dll_split_links:
  assumes "dll pv nx q (us @ x # vs)"
  shows "pv x = last0 us" "nx x = hd0 vs"
  using assms by (auto simp: dll_def links_append split: if_splits)

lemma dll_detects_member:
  assumes d: "dll pv nx q xs" and x: "x \<in> set xs"
  shows "pv x \<noteq> nullptr \<or> qhead q = x"
proof -
  from x obtain us vs where xs: "xs = us @ x # vs" by (meson split_list)
  show ?thesis
  proof (cases "us = []")
    case True
    with d xs show ?thesis by (simp add: dll_def)
  next
    case False
    then have "last0 us \<in> set xs" using xs last0_in by simp
    moreover have "pv x = last0 us" using d xs dll_split_links by blast
    ultimately show ?thesis using d unfolding dll_def by metis
  qed
qed

subsection \<open>Append and remove\<close>

lemma dll_append_tail:
  assumes d: "dll pv nx q xs" and new: "pb \<notin> set xs" "pb \<noteq> nullptr" and ne: "xs \<noteq> []"
  shows "dll (pv(pb := qtail q)) (nx(pb := nullptr, qtail q := pb)) (q\<lparr>qtail := pb\<rparr>) (xs @ [pb])"
proof -
  obtain ys t where xs: "xs = ys @ [t]" using ne by (cases xs rule: rev_cases) auto
  with d have "qtail q = t" "t \<notin> set ys" "links pv nx nullptr ys t"
    "pv t = (if ys = [] then nullptr else last0 ys)"
    by (auto simp: dll_def links_append)
  with d new xs show ?thesis
    by (auto simp: dll_def links_append hd0_append)
qed

lemma dll_append_empty:
  assumes "pb \<noteq> nullptr"
  shows "dll (pv(pb := nullptr)) (nx(pb := nullptr)) \<lparr>qhead = pb, qtail = pb\<rparr> [pb]"
  using assms by (simp add: dll_def)

lemma dll_remove:
  assumes d: "dll pv nx q (us @ x # vs)"
    and h: "qhead q' = (if us = [] then hd0 vs else qhead q)"
    and t: "qtail q' = (if vs = [] then last0 us else qtail q)"
    and nx': "nx' = (if us = [] then nx else nx(last0 us := hd0 vs))(x := nullptr)"
    and pv': "pv' = (if vs = [] then pv else pv(hd0 vs := last0 us))(x := nullptr)"
  shows "dll pv' nx' q' (us @ vs)"
proof -
  from d have dist: "distinct (us @ x # vs)" and nz: "nullptr \<notin> set (us @ x # vs)"
    and lk: "links pv nx nullptr us x" "links pv nx x vs nullptr"
    by (auto simp: dll_def links_append split: if_splits)
  have u: "links pv' nx' nullptr us (hd0 vs)"
  proof (cases us rule: rev_cases)
    case (snoc ys z)
    then have "links pv nx nullptr ys z" "pv z = (if ys = [] then nullptr else last0 ys)"
      using lk(1) by (auto simp: links_append)
    moreover have "hd0 vs \<notin> set us" if "vs \<noteq> []"
      using dist hd0_in [OF that] by auto
    ultimately show ?thesis
      using snoc dist by (auto simp: links_append nx' pv')
  qed simp
  have v: "links pv' nx' (last0 us) vs nullptr"
  proof (cases vs)
    case (Cons y ys)
    then have "links pv nx y ys nullptr" "nx y = (if ys = [] then nullptr else hd0 ys)"
      using lk(2) by auto
    moreover have "last0 us \<notin> set vs" if "us \<noteq> []"
      using dist last0_in [OF that] by auto
    ultimately show ?thesis
      using Cons dist by (auto simp: nx' pv')
  qed simp
  have "links pv' nx' nullptr (us @ vs) nullptr"
    using u v by (cases "vs = []"; cases "us = []") (simp_all add: links_append)
  with d dist nz h t show ?thesis
    by (auto simp: dll_def hd0_append last0_append)
qed


section \<open>The invariant of the queue arrays\<close>

definition queued :: "(nat \<Rightarrow> ptr list) \<Rightarrow> (nat \<Rightarrow> ptr list) \<Rightarrow> ptr set" where
  "queued A E = (\<Union>i \<in> {..<32}. set (A i) \<union> set (E i))"

definition queue_ok :: "sched \<Rightarrow> (nat \<Rightarrow> ptr list) \<Rightarrow> (nat \<Rightarrow> ptr list) \<Rightarrow> nat \<Rightarrow> bool" where
  "queue_ok s A E i \<longleftrightarrow>
     dll (queue_state_prev s) (queue_state_next s) (priority_queues s i) (A i) \<and>
     dll (queue_state_prev s) (queue_state_next s) (expired_queues s i) (E i) \<and>
     bit (ready_bitmap s) i = (A i \<noteq> []) \<and> bit (expired_bitmap s) i = (E i \<noteq> []) \<and>
     (\<forall>p \<in> set (A i) \<union> set (E i). prio_idx (priority (thr s p)) = i) \<and>
     set (A i) \<inter> set (E i) = {}"

definition queues_ok :: "sched \<Rightarrow> (nat \<Rightarrow> ptr list) \<Rightarrow> (nat \<Rightarrow> ptr list) \<Rightarrow> bool" where
  "queues_ok s A E \<longleftrightarrow> (\<forall>i < 32. queue_ok s A E i) \<and>
     (\<forall>p. p \<notin> queued A E \<longrightarrow> queue_state_prev s p = nullptr \<and> queue_state_next s p = nullptr)"

lemma prio_idx_less [simp]: "prio_idx p < 32"
  by (auto simp: prio_idx_def Let_def)

lemma queues_okD: "queues_ok s A E \<Longrightarrow> i < 32 \<Longrightarrow> queue_ok s A E i"
  by (simp add: queues_ok_def)

lemma queue_ok_dll:
  assumes "queue_ok s A E i"
  shows "dll (queue_state_prev s) (queue_state_next s) (priority_queues s i) (A i)"
    and "dll (queue_state_prev s) (queue_state_next s) (expired_queues s i) (E i)"
    and "set (A i) \<inter> set (E i) = {}"
    and "bit (ready_bitmap s) i = (A i \<noteq> [])" and "bit (expired_bitmap s) i = (E i \<noteq> [])"
  using assms by (simp_all add: queue_ok_def)

lemma queues_ok_unqueued:
  "queues_ok s A E \<Longrightarrow> p \<notin> queued A E \<Longrightarrow>
    queue_state_prev s p = nullptr \<and> queue_state_next s p = nullptr"
  by (simp add: queues_ok_def)

lemma queued_idx:
  "queues_ok s A E \<Longrightarrow> i < 32 \<Longrightarrow> p \<in> set (A i) \<or> p \<in> set (E i) \<Longrightarrow>
    prio_idx (priority (thr s p)) = i"
  using queues_okD [of s A E i] by (auto simp: queue_ok_def)

lemma queued_iff:
  "queues_ok s A E \<Longrightarrow> p \<in> queued A E \<longleftrightarrow>
    p \<in> set (A (prio_idx (priority (thr s p)))) \<or> p \<in> set (E (prio_idx (priority (thr s p))))"
  using queued_idx [of s A E] prio_idx_less by (fastforce simp: queued_def)

lemma queued_not_null: "queues_ok s A E \<Longrightarrow> nullptr \<notin> queued A E"
  using queues_okD [of s A E] by (fastforce simp: queued_def queue_ok_def dll_def)

text \<open>The invariant reads the links, the queues, the bitmaps and the priorities only.\<close>

lemma queues_ok_cong:
  assumes "queue_state_prev s' = queue_state_prev s" "queue_state_next s' = queue_state_next s"
    "priority_queues s' = priority_queues s" "expired_queues s' = expired_queues s"
    "ready_bitmap s' = ready_bitmap s" "expired_bitmap s' = expired_bitmap s"
    "\<And>p. priority (thr s' p) = priority (thr s p)"
  shows "queues_ok s' A E = queues_ok s A E"
  using assms by (simp add: queues_ok_def queue_ok_def)

lemma queues_ok_upd_thr [simp]:
  "(\<And>t. priority (f t) = priority t) \<Longrightarrow> queues_ok (upd_thr p f s) A E = queues_ok s A E"
  by (rule queues_ok_cong) (simp_all add: upd_thr_def)

lemma queues_ok_upd_core [simp]: "queues_ok (upd_core c f s) A E = queues_ok s A E"
  by (rule queues_ok_cong) (simp_all add: upd_core_def)

lemma queues_ok_upd_proc [simp]: "queues_ok (upd_proc c f s) A E = queues_ok s A E"
  by (rule queues_ok_cong) (simp_all add: upd_proc_def)

lemma queues_ok_fields [simp]:
  "queues_ok (s\<lparr>fatal := b\<rparr>) A E = queues_ok s A E"
  "queues_ok (s\<lparr>scheduler_lock := l\<rparr>) A E = queues_ok s A E"
  "queues_ok (s\<lparr>ipi_log := is\<rparr>) A E = queues_ok s A E"
  "queues_ok (s\<lparr>thchain := ts\<rparr>) A E = queues_ok s A E"
  "queues_ok (s\<lparr>chain := ts\<rparr>) A E = queues_ok s A E"
  "queues_ok (s\<lparr>next_global_id := n\<rparr>) A E = queues_ok s A E"
  "queues_ok (s\<lparr>freed := fs\<rparr>) A E = queues_ok s A E"
  by (rule queues_ok_cong; simp)+

lemma queues_ok_Release [simp]: "queues_ok (ReleaseSched s) A E = queues_ok s A E"
  by (simp add: ReleaseSched_def)

lemma queues_ok_Acquire: "AcquireSched s = Some s' \<Longrightarrow> queues_ok s' A E = queues_ok s A E"
  by (auto simp: AcquireSched_def split: if_splits)

lemma queues_ok_Require [simp]:
  "queues_ok (RequireSchedulableKernelStackMetadata s th) A E = queues_ok s A E"
  by (simp add: RequireSchedulableKernelStackMetadata_def)

section \<open>Enqueue\<close>

text \<open>The list operation an enqueue implements: append unless already queued there.\<close>

definition enq :: "(nat \<Rightarrow> ptr list) \<Rightarrow> nat \<Rightarrow> ptr \<Rightarrow> nat \<Rightarrow> ptr list" where
  "enq Q i p = Q(i := (if p \<in> set (Q i) then Q i else Q i @ [p]))"

definition schedulable :: "ThreadBlock \<Rightarrow> bool" where
  "schedulable t \<longleftrightarrow> state t = Ready \<or> state t = Running"

lemma queue_append_links:
  assumes app: "queue_append pb q s = (q', s')"
    and d: "dll (queue_state_prev s) (queue_state_next s) q xs"
    and new: "pb \<notin> set xs" "pb \<noteq> nullptr"
  shows "dll (queue_state_prev s') (queue_state_next s') q' (xs @ [pb])"
    and "pb \<notin> set ys \<Longrightarrow> set xs \<inter> set ys = {} \<Longrightarrow>
      dll (queue_state_prev s') (queue_state_next s') r ys =
      dll (queue_state_prev s) (queue_state_next s) r ys"
    and "p \<noteq> pb \<Longrightarrow> p \<notin> set xs \<Longrightarrow>
      queue_state_prev s' p = queue_state_prev s p \<and> queue_state_next s' p = queue_state_next s p"
    and "\<exists>pv nx. s' = s\<lparr>queue_state_prev := pv, queue_state_next := nx\<rparr>"
proof -
  have "(dll (queue_state_prev s') (queue_state_next s') q' (xs @ [pb])) \<and>
    (pb \<notin> set ys \<longrightarrow> set xs \<inter> set ys = {} \<longrightarrow>
      dll (queue_state_prev s') (queue_state_next s') r ys =
      dll (queue_state_prev s) (queue_state_next s) r ys) \<and>
    (p \<noteq> pb \<longrightarrow> p \<notin> set xs \<longrightarrow>
      queue_state_prev s' p = queue_state_prev s p \<and> queue_state_next s' p = queue_state_next s p) \<and>
    (\<exists>pv nx. s' = s\<lparr>queue_state_prev := pv, queue_state_next := nx\<rparr>)"
  proof (cases "xs = []")
    case True
    then have "qtail q = nullptr" using d by (simp add: dll_def)
    with app have "q' = \<lparr>qhead = pb, qtail = pb\<rparr>"
      "s' = s\<lparr>queue_state_prev := (queue_state_prev s)(pb := nullptr),
             queue_state_next := (queue_state_next s)(pb := nullptr)\<rparr>"
      by (auto simp: queue_append_def Let_def)
    with True new show ?thesis by (auto simp: dll_append_empty)
  next
    case False
    then have t: "qtail q \<noteq> nullptr" and ti: "qtail q \<in> set xs"
      using d dll_qtail_null [OF d] last0_in [OF False] by (auto simp: dll_def)
    with app have "q' = q\<lparr>qtail := pb\<rparr>"
      "s' = s\<lparr>queue_state_prev := (queue_state_prev s)(pb := qtail q),
             queue_state_next := (queue_state_next s)(pb := nullptr, qtail q := pb)\<rparr>"
      by (auto simp: queue_append_def Let_def)
    moreover have "qtail q \<notin> set ys" if "set xs \<inter> set ys = {}"
      using ti that by auto
    ultimately show ?thesis using new ti dll_append_tail [OF d new False] by auto
  qed
  then show "dll (queue_state_prev s') (queue_state_next s') q' (xs @ [pb])"
    and "pb \<notin> set ys \<Longrightarrow> set xs \<inter> set ys = {} \<Longrightarrow>
      dll (queue_state_prev s') (queue_state_next s') r ys =
      dll (queue_state_prev s) (queue_state_next s) r ys"
    and "p \<noteq> pb \<Longrightarrow> p \<notin> set xs \<Longrightarrow>
      queue_state_prev s' p = queue_state_prev s p \<and> queue_state_next s' p = queue_state_next s p"
    and "\<exists>pv nx. s' = s\<lparr>queue_state_prev := pv, queue_state_next := nx\<rparr>"
    by blast+
qed

text \<open>Different queues of a well-formed state hold different threads.\<close>

lemma queues_disjoint:
  assumes "queues_ok s A E" "i < 32" "j < 32" "i \<noteq> j"
  shows "(set (A i) \<union> set (E i)) \<inter> (set (A j) \<union> set (E j)) = {}"
  using queued_idx [OF assms(1,2)] queued_idx [OF assms(1,3)] assms(4) by blast

lemma queued_enq [simp]:
  "i < 32 \<Longrightarrow> queued (enq A i p) E = insert p (queued A E)"
  "i < 32 \<Longrightarrow> queued A (enq E i p) = insert p (queued A E)"
  by (auto simp: queued_def enq_def split: if_splits)

lemma queue_append_active:
  assumes ok: "queues_ok s A E" and nz: "pb \<noteq> nullptr" and new: "pb \<notin> queued A E"
    and idx: "prio_idx (priority (thr s pb)) = idx"
    and app: "queue_append pb (priority_queues s idx) s = (q', s')"
  shows "queues_ok (s'\<lparr>priority_queues := (priority_queues s)(idx := q'),
                    ready_bitmap := ready_bitmap s OR 2 ^ idx\<rparr>) (enq A idx pb) E" (is "queues_ok ?t _ _")
proof -
  have i32: "idx < 32" using prio_idx_less [of "priority (thr s pb)"] by (simp add: idx)
  have d: "dll (queue_state_prev s) (queue_state_next s) (priority_queues s idx) (A idx)"
    using queues_okD [OF ok i32] by (simp add: queue_ok_def)
  have pbA: "pb \<notin> set (A i)" and pbE: "pb \<notin> set (E i)" if "i < 32" for i
    using new that by (auto simp: queued_def)
  note lk = queue_append_links [OF app d pbA [OF i32] nz]
  from lk(4) obtain pv nx where s': "s' = s\<lparr>queue_state_prev := pv, queue_state_next := nx\<rparr>"
    by blast
  have "queue_ok ?t (enq A idx pb) E i" if i: "i < 32" for i
  proof -
    have o: "queue_ok s A E i" using ok i by (rule queues_okD)
    have fE: "dll (queue_state_prev s') (queue_state_next s') (expired_queues s i) (E i)"
      using o lk(2) [of "E i"] pbE [OF i] queues_disjoint [OF ok i32 i] queues_okD [OF ok i32]
      by (cases "i = idx") (auto simp: queue_ok_def)
    show ?thesis
    proof (cases "i = idx")
      case True
      with o lk(1) fE pbA [OF i] pbE [OF i] show ?thesis
        by (auto simp: queue_ok_def enq_def bit_set_mask i32 idx s')
    next
      case False
      have "dll (queue_state_prev s') (queue_state_next s') (priority_queues s i) (A i)"
        using o lk(2) [of "A i"] pbA [OF i] queues_disjoint [OF ok i32 i] False
        by (auto simp: queue_ok_def)
      with o False fE show ?thesis
        by (auto simp: queue_ok_def enq_def bit_set_mask i32 s')
    qed
  qed
  moreover have "queue_state_prev s' p = nullptr \<and> queue_state_next s' p = nullptr"
    if "p \<notin> insert pb (queued A E)" for p
    using that lk(3) [of p] ok i32 by (auto simp: queues_ok_def queued_def)
  ultimately show ?thesis using i32 by (simp add: queues_ok_def)
qed

text \<open>Exchanging the two queue arrays: what holds of the active side holds of the expired side.\<close>

definition flip :: "sched \<Rightarrow> sched" where
  "flip s = s\<lparr>priority_queues := expired_queues s, expired_queues := priority_queues s,
              ready_bitmap := expired_bitmap s, expired_bitmap := ready_bitmap s\<rparr>"

lemma queued_swap: "queued A E = queued E A"
  by (auto simp: queued_def)

lemma queues_ok_flip: "queues_ok (flip s) A E = queues_ok s E A"
  by (auto simp: queues_ok_def queue_ok_def flip_def queued_swap [of A E])

lemma queue_append_flip:
  "queue_append pb q s = (q', s') \<Longrightarrow> queue_append pb q (flip s) = (q', flip s')"
  by (auto simp: queue_append_def flip_def Let_def split: if_splits)

lemma queue_append_expired:
  assumes ok: "queues_ok s A E" and nz: "pb \<noteq> nullptr" and new: "pb \<notin> queued A E"
    and idx: "prio_idx (priority (thr s pb)) = idx"
    and app: "queue_append pb (expired_queues s idx) s = (q', s')"
  shows "queues_ok (s'\<lparr>expired_queues := (expired_queues s)(idx := q'),
                    expired_bitmap := expired_bitmap s OR 2 ^ idx\<rparr>) A (enq E idx pb)" (is "queues_ok ?t _ _")
proof -
  have same: "expired_queues (flip s) = priority_queues s" "expired_bitmap (flip s) = ready_bitmap s"
    "priority_queues s' = priority_queues s" "ready_bitmap s' = ready_bitmap s"
    using app by (auto simp: flip_def queue_append_def Let_def split: if_splits)
  have "queues_ok ((flip s')\<lparr>priority_queues := (priority_queues (flip s))(idx := q'),
          ready_bitmap := ready_bitmap (flip s) OR 2 ^ idx\<rparr>) (enq E idx pb) A"
  proof (rule queue_append_active)
    show "queues_ok (flip s) E A" using ok by (simp add: queues_ok_flip)
    show "pb \<notin> queued E A" using new by (simp add: queued_swap)
    show "queue_append pb (priority_queues (flip s) idx) (flip s) = (q', flip s')"
      using queue_append_flip [OF app] by (simp add: flip_def)
  qed (use nz idx in \<open>simp_all add: flip_def\<close>)
  then have "queues_ok (flip ?t) (enq E idx pb) A"
    by (rule queues_ok_cong [THEN iffD1, rotated -1]) (simp_all add: flip_def)
  then show ?thesis by (simp add: queues_ok_flip)
qed

section \<open>What enqueue does\<close>

lemma EnqueueReadyUnlocked_ok:
  assumes ok: "queues_ok s A E" and nz: "pb \<noteq> nullptr"
    and notE: "pb \<notin> set (E (prio_idx (priority (thr s pb))))"
  shows "queues_ok (EnqueueReadyUnlocked m pb s)
    (if schedulable (thr s pb) then enq A (prio_idx (priority (thr s pb))) pb else A) E"
proof -
  define i where "i = prio_idx (priority (thr s pb))"
  define t where "t = (if m = MCCA_8632 then RequireSchedulableKernelStackMetadata s pb else s)"
  have okt: "queues_ok t A E" using ok by (simp add: t_def)
  have same: "thr t = thr s"
    by (simp add: t_def RequireSchedulableKernelStackMetadata_def)
  have enq_eq: "EnqueueReadyUnlocked m pb s =
      (if \<not> schedulable (thr s pb) then s
       else if queue_state_next t pb \<noteq> nullptr \<or> queue_state_prev t pb \<noteq> nullptr \<or>
         qhead (priority_queues t i) = pb then t
       else let (q, u) = queue_append pb (priority_queues t i) t
            in u\<lparr>priority_queues := (priority_queues u)(i := q),
                 ready_bitmap := ready_bitmap u OR 2 ^ i\<rparr>)"
    by (simp add: EnqueueReadyUnlocked_def schedulable_def t_def [symmetric] same i_def Let_def)
  have i32: "i < 32" by (simp add: i_def)
  note oi = queue_ok_dll [OF queues_okD [OF okt i32]]
  show ?thesis
  proof (cases "schedulable (thr s pb) \<and> pb \<notin> set (A i)")
    case True
    then have new: "pb \<notin> queued A E" using queued_iff [OF ok] notE by (simp add: i_def)
    have free: "queue_state_prev t pb = nullptr" "queue_state_next t pb = nullptr"
      using queues_ok_unqueued [OF okt new] by simp_all
    have hd: "qhead (priority_queues t i) \<noteq> pb"
      using dll_qhead_notin [OF oi(1)] True nz by simp
    obtain q' u where app: "queue_append pb (priority_queues t i) t = (q', u)"
      by (cases "queue_append pb (priority_queues t i) t")
    have "priority_queues u = priority_queues t" "ready_bitmap u = ready_bitmap t"
      using app by (auto simp: queue_append_def Let_def split: if_splits)
    with free hd True app have "EnqueueReadyUnlocked m pb s =
        u\<lparr>priority_queues := (priority_queues t)(i := q'), ready_bitmap := ready_bitmap t OR 2 ^ i\<rparr>"
      by (simp add: enq_eq)
    with queue_append_active [OF okt nz new _ app] True show ?thesis by (simp add: same i_def)
  next
    case False
    then have "EnqueueReadyUnlocked m pb s = (if schedulable (thr s pb) then t else s)"
      using dll_detects_member [OF oi(1), of pb] by (auto simp: enq_eq)
    with False ok okt show ?thesis by (auto simp: enq_def i_def)
  qed
qed

lemma EnqueueExpiredUnlocked_ok:
  assumes ok: "queues_ok s A E" and nz: "pb \<noteq> nullptr"
    and notA: "pb \<notin> set (A (prio_idx (priority (thr s pb))))"
  shows "queues_ok (EnqueueExpiredUnlocked m pb s) A
    (if schedulable (thr s pb) then enq E (prio_idx (priority (thr s pb))) pb else E)"
proof -
  define i where "i = prio_idx (priority (thr s pb))"
  define t where "t = (if m = MCCA_8632 then RequireSchedulableKernelStackMetadata s pb else s)"
  define u where "u = upd_thr pb (\<lambda>t. t\<lparr>is_expired := True\<rparr>) t"
  have okt: "queues_ok t A E" using ok by (simp add: t_def)
  have same: "thr t = thr s"
    by (simp add: t_def RequireSchedulableKernelStackMetadata_def)
  have oku: "queues_ok u A E" using okt by (simp add: u_def)
  have enq_eq: "EnqueueExpiredUnlocked m pb s =
      (if \<not> schedulable (thr s pb) then s
       else if queue_state_next t pb \<noteq> nullptr \<or> queue_state_prev t pb \<noteq> nullptr \<or>
         qhead (expired_queues t i) = pb then t
       else let (q, v) = queue_append pb (expired_queues u i) u
            in v\<lparr>expired_queues := (expired_queues v)(i := q),
                 expired_bitmap := expired_bitmap v OR 2 ^ i\<rparr>)"
    by (simp add: EnqueueExpiredUnlocked_def schedulable_def t_def [symmetric] same i_def
        u_def [symmetric] Let_def)
  have i32: "i < 32" by (simp add: i_def)
  note oi = queue_ok_dll [OF queues_okD [OF okt i32]]
  show ?thesis
  proof (cases "schedulable (thr s pb) \<and> pb \<notin> set (E i)")
    case True
    then have new: "pb \<notin> queued A E" using queued_iff [OF ok] notA by (simp add: i_def)
    have free: "queue_state_prev t pb = nullptr" "queue_state_next t pb = nullptr"
      using queues_ok_unqueued [OF okt new] by simp_all
    have hd: "qhead (expired_queues t i) \<noteq> pb"
      using dll_qhead_notin [OF oi(2)] True nz by simp
    have prio: "prio_idx (priority (thr u pb)) = i"
      by (simp add: u_def upd_thr_def same i_def)
    obtain q' v where app: "queue_append pb (expired_queues u i) u = (q', v)"
      by (cases "queue_append pb (expired_queues u i) u")
    have "expired_queues v = expired_queues u" "expired_bitmap v = expired_bitmap u"
      using app by (auto simp: queue_append_def Let_def split: if_splits)
    with free hd True app have "EnqueueExpiredUnlocked m pb s =
        v\<lparr>expired_queues := (expired_queues u)(i := q'), expired_bitmap := expired_bitmap u OR 2 ^ i\<rparr>"
      by (simp add: enq_eq)
    with queue_append_expired [OF oku nz new prio app] True show ?thesis by (simp add: i_def)
  next
    case False
    then have "EnqueueExpiredUnlocked m pb s = (if schedulable (thr s pb) then t else s)"
      using dll_detects_member [OF oi(2), of pb] by (auto simp: enq_eq)
    with False ok okt show ?thesis by (auto simp: enq_def i_def)
  qed
qed

section \<open>Dequeue\<close>

lemma queued_remove:
  assumes "i < 32" "A i = us @ pb # vs" "queues_ok s A E"
  shows "queued (A(i := us @ vs)) E = queued A E - {pb}"
proof -
  have d: "pb \<notin> set us" "pb \<notin> set vs" "pb \<notin> set (E i)"
    using queue_ok_dll [OF queues_okD [OF assms(3,1)]] assms(2) by (auto simp: dll_def)
  have o: "pb \<notin> set (A j)" "pb \<notin> set (E j)" if "j < 32" "j \<noteq> i" for j
    using queues_disjoint [OF assms(3,1) that(1)] that(2) assms(2) by auto
  have "p \<in> queued (A(i := us @ vs)) E \<longleftrightarrow> p \<in> queued A E \<and> p \<noteq> pb" for p
  proof (cases "p = pb")
    case True
    have "pb \<notin> set ((A(i := us @ vs)) j)" "pb \<notin> set (E j)" if "j < 32" for j
      using d o that by (cases "j = i"; simp)+
    with True show ?thesis by (auto simp: queued_def)
  next
    case False
    have "p \<in> set ((A(i := us @ vs)) j) \<longleftrightarrow> p \<in> set (A j)" for j
      using False assms(2) by simp
    with False show ?thesis by (simp add: queued_def)
  qed
  then show ?thesis by blast
qed

lemma queues_ok_remove_active:
  assumes ok: "queues_ok s A E" and i: "i < 32" and Ai: "A i = us @ pb # vs"
    and h: "qhead q' = (if us = [] then hd0 vs else qhead (priority_queues s i))"
    and t: "qtail q' = (if vs = [] then last0 us else qtail (priority_queues s i))"
    and nx: "nx = (if us = [] then queue_state_next s
                   else (queue_state_next s)(last0 us := hd0 vs))(pb := nullptr)"
    and pv: "pv = (if vs = [] then queue_state_prev s
                   else (queue_state_prev s)(hd0 vs := last0 us))(pb := nullptr)"
  shows "queues_ok (s\<lparr>queue_state_prev := pv, queue_state_next := nx,
      priority_queues := (priority_queues s)(i := q'),
      ready_bitmap := (if us @ vs = [] then ready_bitmap s AND NOT (2 ^ i) else ready_bitmap s)\<rparr>)
      (A(i := us @ vs)) E" (is "queues_ok ?t _ _")
proof -
  note oi = queue_ok_dll [OF queues_okD [OF ok i]]
  have dA: "dll pv nx q' (us @ vs)"
    using dll_remove [OF oi(1) [unfolded Ai] h t nx pv] .
  have sub: "last0 us \<in> set (A i)" if "us \<noteq> []" using last0_in [OF that] Ai by simp
  have sub': "hd0 vs \<in> set (A i)" if "vs \<noteq> []" using hd0_in [OF that] Ai by simp
  have frame: "dll pv nx r ys" if "dll (queue_state_prev s) (queue_state_next s) r ys"
    "set (A i) \<inter> set ys = {}" for r ys
  proof -
    have "pb \<notin> set ys" "us \<noteq> [] \<Longrightarrow> last0 us \<notin> set ys" "vs \<noteq> [] \<Longrightarrow> hd0 vs \<notin> set ys"
      using that(2) Ai sub sub' by auto
    then show ?thesis using that(1) by (simp add: nx pv)
  qed
  have "queue_ok ?t (A(i := us @ vs)) E j" if j: "j < 32" for j
  proof (cases "j = i")
    case True
    have "prio_idx (priority (thr s p)) = i" if "p \<in> set (us @ vs) \<union> set (E i)" for p
      using queued_idx [OF ok i, of p] that Ai by auto
    then show ?thesis
      using True oi dA frame [OF oi(2)] Ai i by (auto simp: queue_ok_def bit_clear_mask)
  next
    case False
    note oj = queue_ok_dll [OF queues_okD [OF ok j]]
    have disj: "set (A i) \<inter> set (A j) = {}" "set (A i) \<inter> set (E j) = {}"
      using queues_disjoint [OF ok i j] False by auto
    have "prio_idx (priority (thr s p)) = j" if "p \<in> set (A j) \<union> set (E j)" for p
      using queued_idx [OF ok j, of p] that by auto
    then show ?thesis
      using False oj frame [OF oj(1) disj(1)] frame [OF oj(2) disj(2)] j
      by (auto simp: queue_ok_def bit_clear_mask)
  qed
  moreover have "pv p = nullptr \<and> nx p = nullptr" if "p \<notin> queued A E - {pb}" for p
  proof (cases "p = pb")
    case False
    then have "p \<notin> queued A E" using that by simp
    moreover have "set (A i) \<subseteq> queued A E" using i by (auto simp: queued_def)
    ultimately show ?thesis
      using queues_ok_unqueued [OF ok] sub sub' False by (auto simp: nx pv)
  qed (simp add: nx pv)
  ultimately show ?thesis
    using queued_remove [OF i Ai ok] by (simp add: queues_ok_def)
qed

lemma queues_ok_remove_expired:
  assumes ok: "queues_ok s A E" and i: "i < 32" and Ei: "E i = us @ pb # vs"
    and h: "qhead q' = (if us = [] then hd0 vs else qhead (expired_queues s i))"
    and t: "qtail q' = (if vs = [] then last0 us else qtail (expired_queues s i))"
    and nx: "nx = (if us = [] then queue_state_next s
                   else (queue_state_next s)(last0 us := hd0 vs))(pb := nullptr)"
    and pv: "pv = (if vs = [] then queue_state_prev s
                   else (queue_state_prev s)(hd0 vs := last0 us))(pb := nullptr)"
  shows "queues_ok (s\<lparr>queue_state_prev := pv, queue_state_next := nx,
      expired_queues := (expired_queues s)(i := q'),
      expired_bitmap := (if us @ vs = [] then expired_bitmap s AND NOT (2 ^ i) else expired_bitmap s)\<rparr>)
      A (E(i := us @ vs))" (is "queues_ok ?t _ _")
proof -
  have okf: "queues_ok (flip s) E A" using ok by (simp add: queues_ok_flip)
  have "queues_ok ((flip s)\<lparr>queue_state_prev := pv, queue_state_next := nx,
      priority_queues := (priority_queues (flip s))(i := q'),
      ready_bitmap := (if us @ vs = [] then ready_bitmap (flip s) AND NOT (2 ^ i)
                       else ready_bitmap (flip s))\<rparr>) (E(i := us @ vs)) A"
    by (rule queues_ok_remove_active [where A = E and us = us and vs = vs and pb = pb, OF okf i Ei])
      (use h t nx pv in \<open>simp_all add: flip_def\<close>)
  then have "queues_ok (flip ?t) (E(i := us @ vs)) A"
    by (rule queues_ok_cong [THEN iffD1, rotated -1]) (simp_all add: flip_def)
  then show ?thesis by (simp add: queues_ok_flip)
qed

lemma queues_ok_lists_cong:
  assumes "\<And>i. i < 32 \<Longrightarrow> A i = A' i" "\<And>i. i < 32 \<Longrightarrow> E i = E' i"
  shows "queues_ok s A E = queues_ok s A' E'"
  using assms by (simp add: queues_ok_def queue_ok_def queued_def)

text \<open>The list operation a dequeue implements: remove the thread wherever it is queued.\<close>

definition deq :: "(nat \<Rightarrow> ptr list) \<Rightarrow> ptr \<Rightarrow> nat \<Rightarrow> ptr list" where
  "deq Q p i = removeAll p (Q i)"

lemma ReadyQueue_eq_iff: "(q :: ReadyQueue) = r \<longleftrightarrow> qhead q = qhead r \<and> qtail q = qtail r"
  by (cases q, cases r) simp

lemma fun_upd_eq_iff: "f(i := a) = f(i := b) \<longleftrightarrow> a = b"
  by (metis fun_upd_same)

lemma DequeueReadyUnlocked_active:
  assumes ok: "queues_ok s A E" and nz: "pb \<noteq> nullptr"
    and i: "i = prio_idx (priority (thr s pb))" and Ai: "A i = us @ pb # vs"
  shows "queues_ok (DequeueReadyUnlocked pb s) (A(i := us @ vs)) E"
proof -
  have i32: "i < 32" by (simp add: i)
  note oi = queue_ok_dll [OF queues_okD [OF ok i32]]
  define q where "q = priority_queues s i"
  note lk = dll_split_links [OF oi(1) [unfolded Ai]]
  have dist: "distinct (us @ pb # vs)" "nullptr \<notin> set (us @ pb # vs)"
    and hq: "qhead q = hd0 (us @ pb # vs)" and tq: "qtail q = last0 (us @ pb # vs)"
    using oi(1) Ai by (simp_all add: dll_def q_def)
  have e: "qhead (expired_queues s i) \<noteq> pb" "qtail (expired_queues s i) \<noteq> pb"
    using dll_qhead_notin [OF oi(2) _ nz] dll_qtail_notin [OF oi(2) _ nz] oi(3) Ai by auto
  have hd: "qhead q = pb \<longleftrightarrow> us = []"
    using hq dist hd0_in [of us] by (cases "us = []") (auto simp: hd0_append)
  have tl: "qtail q = pb \<longleftrightarrow> vs = []"
    using tq dist last0_in [of vs] by (cases "vs = []") auto
  have n0: "hd0 vs = nullptr \<longleftrightarrow> vs = []" using dist hd0_in [of vs] by (cases "vs = []") auto
  have p0: "last0 us = nullptr \<longleftrightarrow> us = []" using dist last0_in [of us] by (cases "us = []") auto
  have pne: "last0 us \<noteq> pb" using dist last0_in [of us] nz by (cases "us = []") auto
  have nne: "hd0 vs \<noteq> pb" using dist hd0_in [of vs] nz by (cases "vs = []") auto
  have qh0: "qhead q \<noteq> nullptr" using hq dist hd0_in [of "us @ pb # vs"] by force
  define q' where "q' = \<lparr>qhead = (if us = [] then hd0 vs else qhead q),
    qtail = (if vs = [] then last0 us else qtail q)\<rparr>"
  define nx where "nx = (if us = [] then queue_state_next s
                   else (queue_state_next s)(last0 us := hd0 vs))(pb := nullptr)"
  define pv where "pv = (if vs = [] then queue_state_prev s
                   else (queue_state_prev s)(hd0 vs := last0 us))(pb := nullptr)"
  have "queues_ok (s\<lparr>queue_state_prev := pv, queue_state_next := nx,
      priority_queues := (priority_queues s)(i := q'),
      ready_bitmap := (if us @ vs = [] then ready_bitmap s AND NOT (2 ^ i) else ready_bitmap s)\<rparr>)
      (A(i := us @ vs)) E"
    by (rule queues_ok_remove_active [OF ok i32 Ai]) (simp_all add: q'_def q_def nx_def pv_def)
  then show ?thesis
    by (rule queues_ok_cong [THEN iffD1, rotated -1])
      (use e hd tl n0 p0 pne nne qh0 in \<open>simp_all (no_asm_simp) add: DequeueReadyUnlocked_def Let_def lk
         i [symmetric] q_def [symmetric] q'_def pv_def nx_def ReadyQueue_eq_iff fun_upd_eq_iff\<close>)
qed

lemma DequeueReadyUnlocked_flip:
  assumes "qhead (priority_queues s (prio_idx (priority (thr s pb)))) \<noteq> pb"
    "qtail (priority_queues s (prio_idx (priority (thr s pb)))) \<noteq> pb"
  shows "DequeueReadyUnlocked pb (flip s) = flip (DequeueReadyUnlocked pb s)"
  using assms by (simp add: DequeueReadyUnlocked_def flip_def Let_def)

lemma DequeueReadyUnlocked_expired:
  assumes ok: "queues_ok s A E" and nz: "pb \<noteq> nullptr"
    and i: "i = prio_idx (priority (thr s pb))" and Ei: "E i = us @ pb # vs"
  shows "queues_ok (DequeueReadyUnlocked pb s) A (E(i := us @ vs))"
proof -
  have i32: "i < 32" by (simp add: i)
  note oi = queue_ok_dll [OF queues_okD [OF ok i32]]
  have "pb \<notin> set (A i)" using oi(3) Ei by auto
  then have a: "qhead (priority_queues s i) \<noteq> pb" "qtail (priority_queues s i) \<noteq> pb"
    using dll_qhead_notin [OF oi(1) _ nz] dll_qtail_notin [OF oi(1) _ nz] by auto
  have "queues_ok (flip s) E A" using ok by (simp add: queues_ok_flip)
  then have "queues_ok (DequeueReadyUnlocked pb (flip s)) (E(i := us @ vs)) A"
    by (rule DequeueReadyUnlocked_active [where A = E]) (use nz Ei in \<open>simp_all add: i flip_def\<close>)
  then show ?thesis
    using a by (simp add: DequeueReadyUnlocked_flip i queues_ok_flip)
qed

lemma DequeueReadyUnlocked_idle:
  assumes ok: "queues_ok s A E" and nz: "pb \<noteq> nullptr" and "pb \<notin> queued A E"
  shows "DequeueReadyUnlocked pb s = s"
proof -
  define i where "i = prio_idx (priority (thr s pb))"
  note oi = queue_ok_dll [OF queues_okD [OF ok prio_idx_less [of "priority (thr s pb)"]], folded i_def]
  have "pb \<notin> set (A i)" "pb \<notin> set (E i)"
    using assms(3) prio_idx_less by (auto simp: queued_def i_def)
  then have "qhead (priority_queues s i) \<noteq> pb" "qtail (priority_queues s i) \<noteq> pb"
    "qhead (expired_queues s i) \<noteq> pb" "qtail (expired_queues s i) \<noteq> pb"
    using dll_qhead_notin [OF oi(1) _ nz] dll_qtail_notin [OF oi(1) _ nz]
      dll_qhead_notin [OF oi(2) _ nz] dll_qtail_notin [OF oi(2) _ nz] by auto
  moreover have "queue_state_prev s pb = nullptr" "queue_state_next s pb = nullptr"
    using queues_ok_unqueued [OF ok assms(3)] by auto
  ultimately show ?thesis
    by (simp add: DequeueReadyUnlocked_def Let_def i_def [symmetric] fun_upd_idem)
qed

lemma removeAll_split: "distinct (us @ x # vs) \<Longrightarrow> removeAll x (us @ x # vs) = us @ vs"
  by (simp add: removeAll_id)

lemma DequeueReadyUnlocked_ok:
  assumes ok: "queues_ok s A E" and nz: "pb \<noteq> nullptr"
  shows "queues_ok (DequeueReadyUnlocked pb s) (deq A pb) (deq E pb)"
proof -
  define i where "i = prio_idx (priority (thr s pb))"
  have i32: "i < 32" by (simp add: i_def)
  note oi = queue_ok_dll [OF queues_okD [OF ok i32]]
  have dist: "distinct (A i)" "distinct (E i)" using oi(1,2) by (simp_all add: dll_def)
  have other: "pb \<notin> set (A j) \<and> pb \<notin> set (E j)" if "j < 32" "j \<noteq> i" for j
    using queued_idx [OF ok that(1)] that(2) i_def by blast
  consider (a) "pb \<in> set (A i)" | (e) "pb \<in> set (E i)" | (n) "pb \<notin> set (A i)" "pb \<notin> set (E i)" by blast
  then show ?thesis
  proof cases
    case a
    then obtain us vs where sp: "A i = us @ pb # vs" by (meson split_list)
    have "queues_ok (DequeueReadyUnlocked pb s) (A(i := us @ vs)) E"
      by (rule DequeueReadyUnlocked_active [OF ok nz i_def sp])
    moreover have "deq A pb j = (A(i := us @ vs)) j" "deq E pb j = E j" if "j < 32" for j
      using other [OF that] a oi(3) dist sp removeAll_split [of us pb vs]
      by (cases "j = i"; auto simp: deq_def removeAll_id)+
    ultimately show ?thesis using queues_ok_lists_cong [of "deq A pb" "A(i := us @ vs)"] by simp
  next
    case e
    then obtain us vs where sp: "E i = us @ pb # vs" by (meson split_list)
    have "queues_ok (DequeueReadyUnlocked pb s) A (E(i := us @ vs))"
      by (rule DequeueReadyUnlocked_expired [OF ok nz i_def sp])
    moreover have "deq E pb j = (E(i := us @ vs)) j" "deq A pb j = A j" if "j < 32" for j
      using other [OF that] e oi(3) dist sp removeAll_split [of us pb vs]
      by (cases "j = i"; auto simp: deq_def removeAll_id)+
    ultimately show ?thesis using queues_ok_lists_cong [of "deq A pb" A "deq E pb" "E(i := us @ vs)"] by simp
  next
    case n
    then have nq: "pb \<notin> queued A E" using other by (force simp: queued_def)
    moreover have "deq A pb j = A j" "deq E pb j = E j" if "j < 32" for j
      using nq that by (auto simp: deq_def queued_def removeAll_id)
    ultimately show ?thesis
      using ok nz queues_ok_lists_cong [of "deq A pb" A "deq E pb" E] by (simp add: DequeueReadyUnlocked_idle)
  qed
qed

lemma queued_deq [simp]: "queued (deq A p) (deq E p) = queued A E - {p}"
  by (auto simp: queued_def deq_def)

lemma DequeueReadyUnlocked_frame [simp]:
  "thr (DequeueReadyUnlocked pb s) = thr s"
  "procs (DequeueReadyUnlocked pb s) = procs s"
  "PCU_CORES (DequeueReadyUnlocked pb s) = PCU_CORES s"
  "PCU_CORES_PERCORE (DequeueReadyUnlocked pb s) = PCU_CORES_PERCORE s"
  "scheduler_lock (DequeueReadyUnlocked pb s) = scheduler_lock s"
  "fatal (DequeueReadyUnlocked pb s) = fatal s"
  by (simp_all add: DequeueReadyUnlocked_def Let_def)

end
