(* ===== verification/Pick_Next.thy ===== *)
theory Pick_Next
  imports Ready_Queues
begin

text \<open>
  Choosing the next thread (\<open>Taskman::PickNext\<close> of mecocoa/schedul.cpp): the epoch swap and the
  scan of the queues terminate on every well-formed queue state, and their result is the first
  eligible thread of the queues read as lists, in the order of the priorities.
\<close>

declare upt_rec_numeral [simp del]

definition eligible :: "mcca \<Rightarrow> sched \<Rightarrow> nat \<Rightarrow> ptr \<Rightarrow> bool" where
  "eligible m s cpuid p \<longleftrightarrow> candidate s cpuid p \<and> runnable_here m s cpuid p"

definition the_ptr :: "ptr option \<Rightarrow> ptr" where
  "the_ptr o' = (case o' of None \<Rightarrow> nullptr | Some p \<Rightarrow> p)"

text \<open>The epoch swap on lists.\<close>

definition epoch_due :: "(nat \<Rightarrow> ptr list) \<Rightarrow> (nat \<Rightarrow> ptr list) \<Rightarrow> bool" where
  "epoch_due A E \<longleftrightarrow> (\<forall>i \<in> {16..<32}. A i = []) \<and> (\<exists>i \<in> {16..<32}. E i \<noteq> [])"

definition epoch_active :: "(nat \<Rightarrow> ptr list) \<Rightarrow> (nat \<Rightarrow> ptr list) \<Rightarrow> nat \<Rightarrow> ptr list" where
  "epoch_active A E i = (if epoch_due A E \<and> 16 \<le> i \<and> i < 32 then E i else A i)"

definition epoch_expired :: "(nat \<Rightarrow> ptr list) \<Rightarrow> (nat \<Rightarrow> ptr list) \<Rightarrow> nat \<Rightarrow> ptr list" where
  "epoch_expired A E i = (if epoch_due A E \<and> 16 \<le> i \<and> i < 32 then [] else E i)"

definition unexpire :: "ptr set \<Rightarrow> sched \<Rightarrow> sched" where
  "unexpire X s = s\<lparr>thr := (\<lambda>p. if p \<in> X then (thr s p)\<lparr>is_expired := False\<rparr> else thr s p)\<rparr>"

section \<open>Walks over one queue\<close>

lemma clear_expired_links:
  "links (queue_state_prev s) (queue_state_next s) p xs nullptr \<Longrightarrow> nullptr \<notin> set xs \<Longrightarrow>
   clear_expired (hd0 xs) s = Some (unexpire (set xs) s)"
proof (induction xs arbitrary: p s)
  case Nil
  then show ?case by (subst clear_expired.simps) (simp add: unexpire_def)
next
  case (Cons x xs)
  define t where "t = upd_thr x (\<lambda>t. t\<lparr>is_expired := False\<rparr>) s"
  have "clear_expired (hd0 xs) t = Some (unexpire (set xs) t)"
    by (rule Cons.IH [of _ x]) (use Cons.prems in \<open>auto simp: t_def upd_thr_def split: if_splits\<close>)
  moreover have "unexpire (set xs) t = unexpire (set (x # xs)) s"
    by (rule sched.equality) (auto simp: unexpire_def t_def upd_thr_def)
  moreover have "queue_state_next t x = hd0 xs"
    using Cons.prems by (auto simp: t_def upd_thr_def split: if_splits)
  ultimately show ?case
    using Cons.prems by (subst clear_expired.simps) (simp add: t_def [symmetric] Let_def)
qed

lemma scan_queue_links:
  "links (queue_state_prev s) (queue_state_next s) p xs nullptr \<Longrightarrow> nullptr \<notin> set xs \<Longrightarrow>
   scan_queue m s cpuid (hd0 xs) sk =
     Some (the_ptr (List.find (eligible m s cpuid) xs),
           sk \<or> (\<exists>x \<in> set (takeWhile (\<lambda>p. \<not> eligible m s cpuid p) xs). candidate s cpuid x))"
proof (induction xs arbitrary: p sk)
  case Nil
  then show ?case by (subst scan_queue.simps) (simp add: the_ptr_def)
next
  case (Cons x xs)
  show ?case
  proof (cases "eligible m s cpuid x")
    case True
    with Cons.prems show ?thesis
      by (subst scan_queue.simps) (auto simp: eligible_def the_ptr_def)
  next
    case False
    have "queue_state_next s x = hd0 xs" using Cons.prems by (auto split: if_splits)
    moreover have "scan_queue m s cpuid (hd0 xs) (sk \<or> candidate s cpuid x) =
      Some (the_ptr (List.find (eligible m s cpuid) xs), (sk \<or> candidate s cpuid x) \<or>
        (\<exists>x \<in> set (takeWhile (\<lambda>p. \<not> eligible m s cpuid p) xs). candidate s cpuid x))"
      by (rule Cons.IH [of x]) (use Cons.prems in \<open>auto split: if_splits\<close>)
    ultimately show ?thesis
      using False Cons.prems by (subst scan_queue.simps) (auto simp: eligible_def)
  qed
qed

lemma dll_links: "dll pv nx q xs \<Longrightarrow> links pv nx nullptr xs nullptr \<and> nullptr \<notin> set xs \<and> qhead q = hd0 xs"
  by (auto simp: dll_def)

section \<open>The epoch swap\<close>

lemma unexpire_frame [simp]:
  "queue_state_prev (unexpire X s) = queue_state_prev s"
  "queue_state_next (unexpire X s) = queue_state_next s"
  "priority_queues (unexpire X s) = priority_queues s"
  "expired_queues (unexpire X s) = expired_queues s"
  "ready_bitmap (unexpire X s) = ready_bitmap s" "expired_bitmap (unexpire X s) = expired_bitmap s"
  "PCU_CORES (unexpire X s) = PCU_CORES s" "PCU_CORES_PERCORE (unexpire X s) = PCU_CORES_PERCORE s"
  "priority (thr (unexpire X s) p) = priority (thr s p)"
  "state (thr (unexpire X s) p) = state (thr s p)"
  "just_schedule (thr (unexpire X s) p) = just_schedule (thr s p)"
  "ring_coreid (thr (unexpire X s) p) = ring_coreid (thr s p)"
  "scheduler_lock (unexpire X s) = scheduler_lock s" "fatal (unexpire X s) = fatal s"
  "procs (unexpire X s) = procs s"
  by (simp_all add: unexpire_def)

lemma swap_queues_ok:
  "distinct is \<Longrightarrow>
   (\<And>i. i \<in> set is \<Longrightarrow> dll (queue_state_prev s) (queue_state_next s) (expired_queues s i) (E i)) \<Longrightarrow>
   swap_queues is s = Some (unexpire (\<Union>i \<in> set is. set (E i)) (s\<lparr>
     priority_queues := (\<lambda>i. if i \<in> set is then expired_queues s i else priority_queues s i),
     expired_queues := (\<lambda>i. if i \<in> set is then empty_queue else expired_queues s i)\<rparr>))"
proof (induction "is" arbitrary: s)
  case Nil
  then show ?case by (simp add: unexpire_def)
next
  case (Cons i "is")
  define t where "t = s\<lparr>priority_queues := (priority_queues s)(i := expired_queues s i),
    expired_queues := (expired_queues s)(i := empty_queue)\<rparr>"
  have d: "dll (queue_state_prev t) (queue_state_next t) (priority_queues t i) (E i)"
    using Cons.prems by (simp add: t_def)
  have c: "clear_expired (qhead (priority_queues t i)) t = Some (unexpire (set (E i)) t)"
    using dll_links [OF d] clear_expired_links by auto
  define u where "u = unexpire (set (E i)) t"
  have "swap_queues is u = Some (unexpire (\<Union>i \<in> set is. set (E i)) (u\<lparr>
     priority_queues := (\<lambda>i. if i \<in> set is then expired_queues u i else priority_queues u i),
     expired_queues := (\<lambda>i. if i \<in> set is then empty_queue else expired_queues u i)\<rparr>))"
    by (rule Cons.IH) (use Cons.prems in \<open>auto simp: u_def t_def\<close>)
  moreover have "unexpire (\<Union>i \<in> set is. set (E i)) (u\<lparr>
     priority_queues := (\<lambda>i. if i \<in> set is then expired_queues u i else priority_queues u i),
     expired_queues := (\<lambda>i. if i \<in> set is then empty_queue else expired_queues u i)\<rparr>) =
     unexpire (\<Union>i \<in> set (i # is). set (E i)) (s\<lparr>
     priority_queues := (\<lambda>j. if j \<in> set (i # is) then expired_queues s j else priority_queues s j),
     expired_queues := (\<lambda>j. if j \<in> set (i # is) then empty_queue else expired_queues s j)\<rparr>)"
    by (rule sched.equality) (use Cons.prems in \<open>auto simp: u_def t_def unexpire_def\<close>)
  moreover have "clear_expired (qhead (expired_queues s i)) t = Some u"
    using c by (simp add: u_def) (simp add: t_def)
  ultimately show ?case by (simp add: t_def [symmetric] Let_def)
qed

lemma high_half_bits:
  "bit (0xFFFF0000 :: uint32) i \<longleftrightarrow> 16 \<le> i \<and> i < 32"
  "bit (0x0000FFFF :: uint32) i \<longleftrightarrow> i < 16"
  "(w AND 0xFFFF0000 = 0) \<longleftrightarrow> (\<forall>i \<in> {16..<32}. \<not> bit (w :: uint32) i)"
proof -
  have m: "bit (0xFFFF0000 :: uint32) i \<longleftrightarrow> 16 \<le> i \<and> i < 32" for i
  proof -
    have "(0xFFFF0000 :: uint32) = push_bit 16 (mask 16)" by (simp add: mask_eq_exp_minus_1)
    then have "bit (0xFFFF0000 :: uint32) i \<longleftrightarrow> bit (push_bit 16 (mask 16) :: uint32) i" by simp
    also have "\<dots> \<longleftrightarrow> 16 \<le> i \<and> i < 32"
      unfolding bit_push_bit_iff bit_mask_iff by (auto simp: not_le)
    finally show ?thesis .
  qed
  then show "bit (0xFFFF0000 :: uint32) i \<longleftrightarrow> 16 \<le> i \<and> i < 32" .
  have "(0x0000FFFF :: uint32) = mask 16" by (simp add: mask_eq_exp_minus_1)
  then have "bit (0x0000FFFF :: uint32) i \<longleftrightarrow> bit (mask 16 :: uint32) i" by simp
  then show "bit (0x0000FFFF :: uint32) i \<longleftrightarrow> i < 16" unfolding bit_mask_iff by auto
  show "(w AND 0xFFFF0000 = 0) \<longleftrightarrow> (\<forall>i \<in> {16..<32}. \<not> bit (w :: uint32) i)"
    unfolding word_eq_0_iff_bits bit_and_iff m by auto
qed

definition swapped :: "sched \<Rightarrow> sched" where
  "swapped s = s\<lparr>
     priority_queues := (\<lambda>i. if 16 \<le> i \<and> i < 32 then expired_queues s i else priority_queues s i),
     expired_queues := (\<lambda>i. if 16 \<le> i \<and> i < 32 then empty_queue else expired_queues s i),
     ready_bitmap := ready_bitmap s OR (expired_bitmap s AND 0xFFFF0000),
     expired_bitmap := expired_bitmap s AND 0x0000FFFF\<rparr>"

lemma queues_ok_swapped:
  assumes ok: "queues_ok s A E" and due: "epoch_due A E"
  shows "queues_ok (swapped s) (epoch_active A E) (epoch_expired A E)"
proof -
  have "queue_ok (swapped s) (epoch_active A E) (epoch_expired A E) i" if i: "i < 32" for i
  proof -
    have o: "queue_ok s A E i" by (rule queues_okD [OF ok i])
    show ?thesis
    proof (cases "16 \<le> i")
      case True
      then have "A i = []" using due i by (simp add: epoch_due_def)
      with o True i due show ?thesis
        by (simp add: queue_ok_def swapped_def epoch_active_def epoch_expired_def high_half_bits
            bit_or_iff bit_and_iff del: bit_numeral_word_iff)
    next
      case False
      with o i show ?thesis
        by (simp add: queue_ok_def swapped_def epoch_active_def epoch_expired_def high_half_bits
            bit_or_iff bit_and_iff del: bit_numeral_word_iff)
    qed
  qed
  moreover have "queued (epoch_active A E) (epoch_expired A E) = queued A E"
    unfolding queued_def using due
    by (intro SUP_cong) (simp_all add: epoch_active_def epoch_expired_def epoch_due_def)
  ultimately show ?thesis using ok by (simp add: queues_ok_def swapped_def)
qed

definition swept :: "(nat \<Rightarrow> ptr list) \<Rightarrow> (nat \<Rightarrow> ptr list) \<Rightarrow> sched \<Rightarrow> sched" where
  "swept A E s = (if epoch_due A E then unexpire (\<Union>i \<in> {16..<32}. set (E i)) (swapped s) else s)"

lemma epoch_due_bitmaps:
  assumes ok: "queues_ok s A E"
  shows "epoch_due A E \<longleftrightarrow> ready_bitmap s AND 0xFFFF0000 = 0 \<and> expired_bitmap s AND 0xFFFF0000 \<noteq> 0"
proof -
  have "bit (ready_bitmap s) i = (A i \<noteq> [])" "bit (expired_bitmap s) i = (E i \<noteq> [])"
    if "i \<in> {16..<32}" for i
    using queue_ok_dll(4,5) [OF queues_okD [OF ok]] that by auto
  then show ?thesis by (auto simp: epoch_due_def high_half_bits)
qed

lemma epoch_swap_spec:
  assumes ok: "queues_ok s A E"
  shows "epoch_swap s = Some (swept A E s)"
proof (cases "epoch_due A E")
  case True
  have "dll (queue_state_prev s) (queue_state_next s) (expired_queues s i) (E i)"
    if "i \<in> set [16..<32]" for i
    using queue_ok_dll(2) [OF queues_okD [OF ok]] that by auto
  from swap_queues_ok [OF distinct_upt this]
  have "swap_queues [16..<32] s = Some (unexpire (\<Union>i \<in> {16..<32}. set (E i)) (s\<lparr>
     priority_queues := (\<lambda>i. if 16 \<le> i \<and> i < 32 then expired_queues s i else priority_queues s i),
     expired_queues := (\<lambda>i. if 16 \<le> i \<and> i < 32 then empty_queue else expired_queues s i)\<rparr>))"
    by (simp only: set_upt atLeastLessThan_iff)
  moreover have "unexpire X t\<lparr>ready_bitmap := r, expired_bitmap := e\<rparr> =
      unexpire X (t\<lparr>ready_bitmap := r, expired_bitmap := e\<rparr>)" for X t r e
    by (rule sched.equality) (simp_all add: unexpire_def fun_eq_iff)
  ultimately show ?thesis
    using True epoch_due_bitmaps [OF ok] by (simp add: epoch_swap_def swept_def swapped_def
        del: swap_queues.simps)
next
  case False
  then show ?thesis using epoch_due_bitmaps [OF ok] by (auto simp: epoch_swap_def swept_def)
qed

lemma queues_ok_unexpire [simp]: "queues_ok (unexpire X s) A E = queues_ok s A E"
  by (rule queues_ok_cong) simp_all

lemma queues_ok_swept:
  assumes "queues_ok s A E"
  shows "queues_ok (swept A E s) (epoch_active A E) (epoch_expired A E)"
proof (cases "epoch_due A E")
  case True
  with queues_ok_swapped [OF assms] show ?thesis by (simp add: swept_def)
next
  case False
  moreover from False have "epoch_active A E = A" "epoch_expired A E = E"
    by (simp_all add: fun_eq_iff epoch_active_def epoch_expired_def)
  ultimately show ?thesis using assms by (simp add: swept_def)
qed

lemma swept_frame [simp]:
  "priority (thr (swept A E s) p) = priority (thr s p)"
  "state (thr (swept A E s) p) = state (thr s p)"
  "just_schedule (thr (swept A E s) p) = just_schedule (thr s p)"
  "ring_coreid (thr (swept A E s) p) = ring_coreid (thr s p)"
  "PCU_CORES (swept A E s) = PCU_CORES s" "PCU_CORES_PERCORE (swept A E s) = PCU_CORES_PERCORE s"
  "scheduler_lock (swept A E s) = scheduler_lock s" "fatal (swept A E s) = fatal s"
  "procs (swept A E s) = procs s"
  by (simp_all add: swept_def swapped_def)

lemma cores_swept [simp]:
  "current_thread (swept A E s) = current_thread s" "idle_thread (swept A E s) = idle_thread s"
  "switching_out_threads (swept A E s) = switching_out_threads s"
  by (simp_all add: fun_eq_iff current_thread_def idle_thread_def switching_out_threads_def)

lemma eligible_swept [simp]:
  "candidate (swept A E s) = candidate s" "eligible m (swept A E s) = eligible m s"
  by (simp_all add: fun_eq_iff candidate_def eligible_def runnable_here_def active_on_other_cpu_def)

section \<open>The scan of the bitmap\<close>

definition bits32 :: "uint32 \<Rightarrow> nat list" where
  "bits32 w = filter (bit w) [0..<32]"

lemma bits32_Nil: "bits32 w = [] \<longleftrightarrow> w = 0"
  by (auto simp: bits32_def filter_empty_conv word_eq_0_iff_bits)

lemma bits32_Cons:
  assumes "bits32 w = b # bs"
  shows "ctz32 w = b" "bits32 (w AND NOT (2 ^ b)) = bs"
proof -
  obtain us vs where sp: "[0..<32] = us @ b # vs" and us: "\<forall>u \<in> set us. \<not> bit w u"
    and b: "bit w b" and bs: "bs = filter (bit w) vs"
    using assms unfolding bits32_def by (auto simp: filter_eq_Cons_iff)
  have "distinct (us @ b # vs)" using sp by (metis distinct_upt)
  have vs32: "x < 32" if "x \<in> set vs" for x
    using that arg_cong [OF sp, of set] by (metis Un_iff atLeastLessThan_iff list.set_intros(2) set_append set_upt)
  have "b = [0..<32] ! length us" unfolding sp by simp
  moreover have "length us < 32" using arg_cong [OF sp, of length] by simp
  ultimately have len: "length us = b" by simp
  have "takeWhile (\<lambda>i. \<not> bit w i) (us @ b # vs) = us" using us b by (simp add: takeWhile_append)
  then show "ctz32 w = b" unfolding ctz32_def sp using len by simp
  have "filter (bit (w AND NOT (2 ^ b))) (us @ b # vs) = bs"
    using us bs \<open>distinct (us @ b # vs)\<close> vs32
    by (auto simp: bit_and_iff bit_not_iff bit_exp_iff filter_empty_conv
        intro!: filter_cong)
  then show "bits32 (w AND NOT (2 ^ b)) = bs" unfolding bits32_def sp .
qed

lemma the_ptr_null: "nullptr \<notin> set xs \<Longrightarrow> the_ptr (List.find P xs) = nullptr \<longleftrightarrow> List.find P xs = None"
  by (auto simp: the_ptr_def find_eq_None split: option.splits dest: find_eq_SomeD)

lemma scan_bitmap_ok:
  assumes "\<And>i. i \<in> set (bits32 bm) \<Longrightarrow> dll (queue_state_prev s) (queue_state_next s) (qs i) (Q i)"
  shows "\<exists>sk'. scan_bitmap m s cpuid qs bm sk =
      Some (the_ptr (List.find (eligible m s cpuid) (concat (map Q (bits32 bm)))), sk') \<and>
    (List.find (eligible m s cpuid) (concat (map Q (bits32 bm))) = None \<longrightarrow>
      sk' = (sk \<or> (\<exists>x \<in> set (concat (map Q (bits32 bm))). candidate s cpuid x)))"
  using assms
proof (induction "bits32 bm" arbitrary: bm sk)
  case Nil
  then have "bm = 0" by (metis bits32_Nil)
  then show ?case by (subst scan_bitmap.simps) (simp add: bits32_def the_ptr_def)
next
  case (Cons b bs)
  note b = bits32_Cons [OF Cons.hyps(2) [symmetric]]
  have bm: "bm \<noteq> 0" using Cons.hyps(2) by (metis bits32_Nil list.distinct(1))
  have d: "dll (queue_state_prev s) (queue_state_next s) (qs b) (Q b)"
    using Cons.prems Cons.hyps(2) by (metis list.set_intros(1))
  have ds: "dll (queue_state_prev s) (queue_state_next s) (qs i) (Q i)" if "i \<in> set bs" for i
    using Cons.prems [of i] that Cons.hyps(2) by (metis list.set_intros(2))
  note dl = dll_links [OF d]
  let ?P = "eligible m s cpuid"
  define sk1 where "sk1 = (sk \<or> (\<exists>x \<in> set (takeWhile (\<lambda>p. \<not> ?P p) (Q b)). candidate s cpuid x))"
  have sq: "scan_queue m s cpuid (qhead (qs b)) sk = Some (the_ptr (List.find ?P (Q b)), sk1)"
    using dl scan_queue_links [of s nullptr "Q b"] by (simp add: sk1_def)
  show ?case
  proof (cases "List.find ?P (Q b)")
    case None
    then have sk1: "sk1 = (sk \<or> (\<exists>x \<in> set (Q b). candidate s cpuid x))"
      unfolding sk1_def by (metis find_None_iff takeWhile_eq_all_conv)
    have "\<exists>sk'. scan_bitmap m s cpuid qs (bm AND NOT (2 ^ b)) sk1 =
      Some (the_ptr (List.find ?P (concat (map Q (bits32 (bm AND NOT (2 ^ b)))))), sk') \<and>
      (List.find ?P (concat (map Q (bits32 (bm AND NOT (2 ^ b))))) = None \<longrightarrow>
        sk' = (sk1 \<or> (\<exists>x \<in> set (concat (map Q (bits32 (bm AND NOT (2 ^ b))))). candidate s cpuid x)))"
      by (rule Cons.hyps(1)) (simp_all only: b(2) ds)
    then show ?thesis
      using None bm sq b(1) sk1
      by (subst scan_bitmap.simps) (simp add: Let_def the_ptr_def b(2) find_append disj_ac ball_Un bex_Un
          flip: Cons.hyps(2))
  next
    case (Some x)
    then have "x \<noteq> nullptr" using dl by (metis find_eq_SomeD)
    with Some show ?thesis
      using bm sq b(1)
      by (subst scan_bitmap.simps) (simp add: Let_def the_ptr_def find_append flip: Cons.hyps(2))
  qed
qed

section \<open>The choice\<close>

definition pick :: "mcca \<Rightarrow> sched \<Rightarrow> nat \<Rightarrow> (nat \<Rightarrow> ptr list) \<Rightarrow> (nat \<Rightarrow> ptr list) \<Rightarrow> ptr" where
  "pick m s cpuid A E =
     (case List.find (eligible m s cpuid) (concat (map A [0..<32])) of
        Some p \<Rightarrow> p
      | None \<Rightarrow> if m = MCCA_8632 \<and> (\<exists>x \<in> set (concat (map A [0..<32])). candidate s cpuid x)
                then the_ptr (List.find (eligible m s cpuid) (concat (map E [16..<32])))
                else nullptr)"

lemma concat_map_filter:
  "(\<And>i. i \<in> set is \<Longrightarrow> P i = (Q i \<noteq> [])) \<Longrightarrow> concat (map Q (filter P is)) = concat (map Q is)"
  by (induction "is") auto

lemma concat_ready:
  assumes "queues_ok s A E"
  shows "concat (map A (bits32 (ready_bitmap s))) = concat (map A [0..<32])"
    and "concat (map E (bits32 (expired_bitmap s AND 0xFFFF0000))) = concat (map E [16..<32])"
proof -
  note o = queue_ok_dll(4,5) [OF queues_okD [OF assms]]
  show "concat (map A (bits32 (ready_bitmap s))) = concat (map A [0..<32])"
    unfolding bits32_def by (rule concat_map_filter) (simp add: o(1))
  have "filter (bit (expired_bitmap s AND 0xFFFF0000)) [0..<32] = filter (bit (expired_bitmap s)) [16..<32]"
  proof -
    have "[0..<32] = [0..<16] @ [16..<32]" by (metis upt_add_eq_append zero_le numeral_Bit0 add_0)
    moreover have "filter (bit (expired_bitmap s AND 0xFFFF0000)) [0..<16] = []"
      by (simp add: filter_empty_conv bit_and_iff high_half_bits del: bit_numeral_word_iff)
    moreover have "filter (bit (expired_bitmap s AND 0xFFFF0000)) [16..<32] =
        filter (bit (expired_bitmap s)) [16..<32]"
      by (rule filter_cong) (simp_all add: bit_and_iff high_half_bits del: bit_numeral_word_iff)
    ultimately show ?thesis by (simp del:)
  qed
  then show "concat (map E (bits32 (expired_bitmap s AND 0xFFFF0000))) = concat (map E [16..<32])"
    unfolding bits32_def using concat_map_filter [of "[16..<32]" "bit (expired_bitmap s)" E] o(2) by simp
qed

lemma bits32_less: "i \<in> set (bits32 w) \<Longrightarrow> i < 32"
  by (simp add: bits32_def)

lemma PickNext_spec:
  assumes ok: "queues_ok s A E"
    and n_def: "n = pick m s cpuid (epoch_active A E) (epoch_expired A E)"
  shows "PickNext m cpuid s = Some (n, if n = nullptr then swept A E s
                                       else forget_switching_out n (swept A E s))"
proof -
  define t where "t = swept A E s"
  define A' where "A' = epoch_active A E"
  define E' where "E' = epoch_expired A E"
  let ?P = "eligible m s cpuid"
  define xs where "xs = concat (map A' [0..<32])"
  define ys where "ys = concat (map E' [16..<32])"
  have okt: "queues_ok t A' E'" unfolding t_def A'_def E'_def by (rule queues_ok_swept [OF ok])
  note d = queue_ok_dll [OF queues_okD [OF okt bits32_less]]
  have P: "eligible m t cpuid = ?P" and C: "candidate t cpuid = candidate s cpuid"
    by (simp_all add: t_def)
  obtain sk where a: "scan_bitmap m t cpuid (priority_queues t) (ready_bitmap t) False =
      Some (the_ptr (List.find ?P xs), sk)"
    and sk: "List.find ?P xs = None \<Longrightarrow> sk = (\<exists>x \<in> set xs. candidate s cpuid x)"
    using scan_bitmap_ok [of "ready_bitmap t" t "priority_queues t" A' m cpuid False] d(1)
    unfolding P C concat_ready(1) [OF okt] xs_def [symmetric] by auto
  obtain sk2 where e: "scan_bitmap m t cpuid (expired_queues t) (expired_bitmap t AND 0xFFFF0000) False =
      Some (the_ptr (List.find ?P ys), sk2)"
    using scan_bitmap_ok [of "expired_bitmap t AND 0xFFFF0000" t "expired_queues t" E' m cpuid False] d(2)
    unfolding P C concat_ready(2) [OF okt] ys_def [symmetric] by auto
  have r0: "ready_bitmap t = 0 \<longleftrightarrow> xs = []"
    using queue_ok_dll(4) [OF queues_okD [OF okt]] by (auto simp: word_eq_0_iff_bits xs_def)
  have nx: "nullptr \<notin> set xs" "nullptr \<notin> set ys"
    using queued_not_null [OF okt] by (auto simp: queued_def xs_def ys_def)
  have e0: "ys = []" if "expired_bitmap t AND 0xFFFF0000 = 0"
    using concat_ready(2) [OF okt] bits32_Nil [of "expired_bitmap t AND 0xFFFF0000"] that by (simp add: ys_def)
  have "PickNext m cpuid s = (if ready_bitmap t = 0 then Some (nullptr, t) else
      if the_ptr (List.find ?P xs) \<noteq> nullptr
      then Some (the_ptr (List.find ?P xs), forget_switching_out (the_ptr (List.find ?P xs)) t)
      else if m = MCCA_8632 \<and> sk \<and> expired_bitmap t AND 0xFFFF0000 \<noteq> 0
      then if the_ptr (List.find ?P ys) \<noteq> nullptr
        then Some (the_ptr (List.find ?P ys), forget_switching_out (the_ptr (List.find ?P ys)) t)
        else Some (nullptr, t)
      else Some (nullptr, t))"
    unfolding PickNext_def epoch_swap_spec [OF ok] t_def [symmetric] bind.bind_lunit option.simps a e
    by (auto simp: a e)
  then show ?thesis
    unfolding n_def A'_def [symmetric] E'_def [symmetric] t_def [symmetric] pick_def
      xs_def [symmetric] ys_def [symmetric]
    using r0 sk e0 the_ptr_null [OF nx(1), of ?P] the_ptr_null [OF nx(2), of ?P]
    by (cases "List.find ?P xs") (auto simp: the_ptr_def)
qed

end
