(* ===== verification/Run_Queue.thy ===== *)
theory Run_Queue
  imports Pick_Next
begin

text \<open>
  The ready and expired queues seen as one set of queued threads. The locale \<open>run_queue\<close> is the
  contract the scheduler's operations rely on; both enqueue operations, together with
  \<open>DequeueReady\<close>, provide it.
\<close>

definition runq :: "sched \<Rightarrow> ptr set \<Rightarrow> bool" where
  "runq s Q \<longleftrightarrow> (\<exists>A E. queues_ok s A E \<and> Q = queued A E)"

lemma runq_cong:
  assumes "queue_state_prev s' = queue_state_prev s" "queue_state_next s' = queue_state_next s"
    "priority_queues s' = priority_queues s" "expired_queues s' = expired_queues s"
    "ready_bitmap s' = ready_bitmap s" "expired_bitmap s' = expired_bitmap s"
    "\<And>p. priority (thr s' p) = priority (thr s p)"
  shows "runq s' Q = runq s Q"
  using queues_ok_cong [OF assms] by (simp add: runq_def)

lemma runq_upd [simp]:
  "(\<And>t. priority (f t) = priority t) \<Longrightarrow> runq (upd_thr p f s) Q = runq s Q"
  "runq (upd_core c g s) Q = runq s Q" "runq (upd_proc p h s) Q = runq s Q"
  "runq (ReleaseSched s) Q = runq s Q"
  "runq (s\<lparr>scheduler_lock := l\<rparr>) Q = runq s Q" "runq (s\<lparr>fatal := b\<rparr>) Q = runq s Q"
  "runq (s\<lparr>ipi_log := is\<rparr>) Q = runq s Q" "runq (s\<lparr>thchain := ts\<rparr>) Q = runq s Q"
  "runq (s\<lparr>chain := ts\<rparr>) Q = runq s Q" "runq (s\<lparr>next_global_id := n\<rparr>) Q = runq s Q"
  "runq (s\<lparr>freed := fs\<rparr>) Q = runq s Q"
  "runq (RequireSchedulableKernelStackMetadata s th) Q = runq s Q"
  by (simp_all add: runq_def)

lemma runq_procs [simp]: "runq (s\<lparr>procs := ps\<rparr>) Q = runq s Q"
  by (rule runq_cong) simp_all

lemma runq_not_null: "runq s Q \<Longrightarrow> nullptr \<notin> Q"
  using queued_not_null by (auto simp: runq_def)

lemma runq_unique:
  assumes "runq s Q" "runq s R"
  shows "Q = R"
proof -
  have "Q \<subseteq> R" if Q: "runq s Q" and R: "runq s R" for Q R
  proof
    fix p assume p: "p \<in> Q"
    obtain A E where q: "queues_ok s A E" "Q = queued A E" using Q by (auto simp: runq_def)
    obtain B F where r: "queues_ok s B F" "R = queued B F" using R by (auto simp: runq_def)
    have pn: "p \<noteq> nullptr" using p runq_not_null [OF Q] by metis
    define i where "i = prio_idx (priority (thr s p))"
    note oq = queue_ok_dll [OF queues_okD [OF q(1) prio_idx_less], of "priority (thr s p)", folded i_def]
    note or = queue_ok_dll [OF queues_okD [OF r(1) prio_idx_less], of "priority (thr s p)", folded i_def]
    show "p \<in> R"
    proof (rule ccontr)
      assume n: "p \<notin> R"
      then have "queue_state_prev s p = nullptr" using queues_ok_unqueued [OF r(1)] r(2) by auto
      moreover have "p \<in> set (A i) \<or> p \<in> set (E i)" using p q queued_iff i_def by auto
      ultimately have "qhead (priority_queues s i) = p \<or> qhead (expired_queues s i) = p"
        using dll_detects_member [OF oq(1), of p] dll_detects_member [OF oq(2), of p] by metis
      moreover have "p \<notin> set (B i)" "p \<notin> set (F i)" using n r queued_iff i_def by auto
      ultimately show False
        using dll_qhead_notin [OF or(1) _ pn] dll_qhead_notin [OF or(2) _ pn] by auto
    qed
  qed
  then show ?thesis using assms by blast
qed

section \<open>The contract\<close>

locale run_queue =
  fixes rq :: "sched \<Rightarrow> ptr set \<Rightarrow> bool" and insq remq :: "ptr \<Rightarrow> sched \<Rightarrow> sched"
  assumes insq_law: "rq s Q \<Longrightarrow> p \<noteq> nullptr \<Longrightarrow> p \<notin> Q \<Longrightarrow> schedulable (thr s p) \<Longrightarrow> rq (insq p s) (insert p Q)"
    and remq_law: "rq s Q \<Longrightarrow> p \<noteq> nullptr \<Longrightarrow> rq (remq p s) (Q - {p})"
    and upd_law: "(\<And>t. priority (f t) = priority t) \<Longrightarrow> rq (upd_thr p f s) Q = rq s Q"
begin

text \<open>Taking a thread out, making it ready and putting it back leaves it queued once.\<close>

lemma requeue:
  assumes "rq s Q" "p \<noteq> nullptr"
  shows "rq (insq p (upd_thr p (\<lambda>t. t\<lparr>state := Ready\<rparr>) (remq p s))) (insert p Q)"
proof -
  have "rq (upd_thr p (\<lambda>t. t\<lparr>state := Ready\<rparr>) (remq p s)) (Q - {p})"
    using remq_law [OF assms] by (simp add: upd_law)
  from insq_law [OF this assms(2)] show ?thesis by (simp add: upd_thr_def schedulable_def)
qed

text \<open>A thread that was not queued is queued by waking it.\<close>

lemma wake:
  assumes "rq s Q" "p \<noteq> nullptr" "p \<notin> Q"
  shows "rq (insq p (upd_thr p (\<lambda>t. t\<lparr>state := Ready\<rparr>) s)) (insert p Q)"
  proof (rule insq_law)
  show "rq (upd_thr p (\<lambda>t. t\<lparr>state := Ready\<rparr>) s) Q" using assms by (simp add: upd_law)
qed (use assms in \<open>simp_all add: upd_thr_def schedulable_def\<close>)

end

interpretation ready_q: run_queue runq "EnqueueReadyUnlocked m" DequeueReadyUnlocked
proof
  show "runq (EnqueueReadyUnlocked m p s) (insert p Q)"
    if "runq s Q" "p \<noteq> nullptr" "p \<notin> Q" "schedulable (thr s p)" for s Q p
  proof -
    obtain A E where q: "queues_ok s A E" "Q = queued A E" using \<open>runq s Q\<close> by (auto simp: runq_def)
    then have "p \<notin> set (E (prio_idx (priority (thr s p))))" using that(3) queued_iff by blast
    from EnqueueReadyUnlocked_ok [OF q(1) that(2) this, of m] that(4)
    have "queues_ok (EnqueueReadyUnlocked m p s) (enq A (prio_idx (priority (thr s p))) p) E"
      by simp
    then show ?thesis unfolding runq_def q(2)
      by (intro exI conjI) (assumption, simp)
  qed
  show "runq (DequeueReadyUnlocked p s) (Q - {p})" if "runq s Q" "p \<noteq> nullptr" for s Q p
    using \<open>runq s Q\<close> DequeueReadyUnlocked_ok [OF _ \<open>p \<noteq> nullptr\<close>] unfolding runq_def
    by (elim exE conjE) (intro exI conjI, assumption, simp)
qed simp

interpretation expired_q: run_queue runq "EnqueueExpiredUnlocked m" DequeueReadyUnlocked
proof
  show "runq (EnqueueExpiredUnlocked m p s) (insert p Q)"
    if "runq s Q" "p \<noteq> nullptr" "p \<notin> Q" "schedulable (thr s p)" for s Q p
  proof -
    obtain A E where q: "queues_ok s A E" "Q = queued A E" using \<open>runq s Q\<close> by (auto simp: runq_def)
    then have "p \<notin> set (A (prio_idx (priority (thr s p))))" using that(3) queued_iff by blast
    from EnqueueExpiredUnlocked_ok [OF q(1) that(2) this, of m] that(4)
    have "queues_ok (EnqueueExpiredUnlocked m p s) A (enq E (prio_idx (priority (thr s p))) p)"
      by simp
    then show ?thesis unfolding runq_def q(2)
      by (intro exI conjI) (assumption, simp)
  qed
  show "runq (DequeueReadyUnlocked p s) (Q - {p})" if "runq s Q" "p \<noteq> nullptr" for s Q p
    by (rule ready_q.remq_law [OF that])
qed simp

end
