(* ===== verification/Sched_Inv.thy ===== *)
theory Sched_Inv
  imports Run_Queue
begin

text \<open>
  The multi-core invariant of the scheduler and its preservation by every operation that takes
  \<open>scheduler_lock\<close>. It says that the queues are well formed and hold ready threads only, that no
  thread is current on two cores, that a thread whose context is still being saved on some core is
  marked and current nowhere, and that every running thread is current on some core.
\<close>

section \<open>The cores' view\<close>

definition smp_view :: "nat \<Rightarrow> (nat \<Rightarrow> ptr) \<Rightarrow> (nat \<Rightarrow> ptr) \<Rightarrow> (nat \<Rightarrow> ptr) \<Rightarrow>
    (ptr \<Rightarrow> thread_state) \<Rightarrow> (ptr \<Rightarrow> bool) \<Rightarrow> bool" where
  "smp_view n cur idl sw st js \<longleftrightarrow>
     (\<forall>c < n. \<forall>d < n. c \<noteq> d \<longrightarrow> cur c \<noteq> nullptr \<longrightarrow> cur c \<noteq> cur d) \<and>
     (\<forall>c < n. \<forall>d < n. c \<noteq> d \<longrightarrow> idl c \<noteq> nullptr \<longrightarrow> cur d \<noteq> idl c \<and> sw d \<noteq> idl c) \<and>
     (\<forall>c < n. \<forall>d < n. sw d \<noteq> nullptr \<longrightarrow> cur c \<noteq> sw d) \<and>
     (\<forall>d < n. sw d \<noteq> nullptr \<longrightarrow> js (sw d)) \<and>
     (\<forall>c < n. \<forall>d < n. c \<noteq> d \<longrightarrow> sw c \<noteq> nullptr \<longrightarrow> sw c \<noteq> sw d) \<and>
     (\<forall>p. p \<noteq> nullptr \<longrightarrow> js p \<longrightarrow> (\<exists>d < n. sw d = p)) \<and>
     (\<forall>p. p \<noteq> nullptr \<longrightarrow> st p = Running \<longrightarrow> (\<exists>c < n. cur c = p)) \<and>
     (\<forall>c < n. \<forall>d < n. c \<noteq> d \<longrightarrow> idl c \<noteq> nullptr \<longrightarrow> idl c \<noteq> idl d)"

lemma smp_viewD:
  assumes "smp_view n cur idl sw st js"
  shows "c < n \<Longrightarrow> d < n \<Longrightarrow> c \<noteq> d \<Longrightarrow> cur c \<noteq> nullptr \<Longrightarrow> cur c \<noteq> cur d"
    and "c < n \<Longrightarrow> d < n \<Longrightarrow> c \<noteq> d \<Longrightarrow> idl c \<noteq> nullptr \<Longrightarrow> cur d \<noteq> idl c"
    and "c < n \<Longrightarrow> d < n \<Longrightarrow> c \<noteq> d \<Longrightarrow> idl c \<noteq> nullptr \<Longrightarrow> sw d \<noteq> idl c"
    and "c < n \<Longrightarrow> d < n \<Longrightarrow> sw d \<noteq> nullptr \<Longrightarrow> cur c \<noteq> sw d"
    and "d < n \<Longrightarrow> sw d \<noteq> nullptr \<Longrightarrow> js (sw d)"
    and "c < n \<Longrightarrow> d < n \<Longrightarrow> c \<noteq> d \<Longrightarrow> sw c \<noteq> nullptr \<Longrightarrow> sw c \<noteq> sw d"
    and "p \<noteq> nullptr \<Longrightarrow> js p \<Longrightarrow> \<exists>d < n. sw d = p"
    and "p \<noteq> nullptr \<Longrightarrow> st p = Running \<Longrightarrow> \<exists>c < n. cur c = p"
    and "c < n \<Longrightarrow> d < n \<Longrightarrow> c \<noteq> d \<Longrightarrow> idl c \<noteq> nullptr \<Longrightarrow> idl c \<noteq> idl d"
  using assms by (simp_all add: smp_view_def)

lemma smp_viewI:
  assumes "\<And>c d. c < n \<Longrightarrow> d < n \<Longrightarrow> c \<noteq> d \<Longrightarrow> cur c \<noteq> nullptr \<Longrightarrow> cur c \<noteq> cur d"
    and "\<And>c d. c < n \<Longrightarrow> d < n \<Longrightarrow> c \<noteq> d \<Longrightarrow> idl c \<noteq> nullptr \<Longrightarrow> cur d \<noteq> idl c"
    and "\<And>c d. c < n \<Longrightarrow> d < n \<Longrightarrow> c \<noteq> d \<Longrightarrow> idl c \<noteq> nullptr \<Longrightarrow> sw d \<noteq> idl c"
    and "\<And>c d. c < n \<Longrightarrow> d < n \<Longrightarrow> sw d \<noteq> nullptr \<Longrightarrow> cur c \<noteq> sw d"
    and "\<And>d. d < n \<Longrightarrow> sw d \<noteq> nullptr \<Longrightarrow> js (sw d)"
    and "\<And>c d. c < n \<Longrightarrow> d < n \<Longrightarrow> c \<noteq> d \<Longrightarrow> sw c \<noteq> nullptr \<Longrightarrow> sw c \<noteq> sw d"
    and "\<And>p. p \<noteq> nullptr \<Longrightarrow> js p \<Longrightarrow> \<exists>d < n. sw d = p"
    and "\<And>p. p \<noteq> nullptr \<Longrightarrow> st p = Running \<Longrightarrow> \<exists>c < n. cur c = p"
    and "\<And>c d. c < n \<Longrightarrow> d < n \<Longrightarrow> c \<noteq> d \<Longrightarrow> idl c \<noteq> nullptr \<Longrightarrow> idl c \<noteq> idl d"
  shows "smp_view n cur idl sw st js"
  unfolding smp_view_def by (intro conjI allI impI) (rule assms; assumption)+

lemma smp_view_stop:
  assumes "smp_view n cur idl sw st js" "x \<noteq> Running"
  shows "smp_view n cur idl sw (st(p := x)) js"
  by (rule smp_viewI) (use smp_viewD [OF assms(1)] assms(2) in \<open>auto split: if_splits\<close>)

lemma smp_view_resume:
  assumes "smp_view n cur idl sw st js" "c < n" "cur c = p"
  shows "smp_view n cur idl sw (st(p := Running)) js"
  by (rule smp_viewI) (use smp_viewD [OF assms(1)] assms(2,3) in \<open>auto split: if_splits\<close>)

lemma smp_view_settle:
  assumes v: "smp_view n cur idl sw st js" and c: "c < n"
  shows "smp_view n cur idl (sw(c := nullptr)) st (js(sw c := False))"
proof (rule smp_viewI)
  show "\<exists>d < n. (sw(c := nullptr)) d = p" if "p \<noteq> nullptr" "(js(sw c := False)) p" for p
    using smp_viewD(7) [OF v that(1)] that(2) by (auto split: if_splits)
qed (use smp_viewD(1-6,8,9) [OF v] c in \<open>auto split: if_splits\<close>)

lemma smp_view_switch:
  assumes v: "smp_view n cur idl sw st js" and c: "c < n" "cur c = old" "sw c = nullptr"
    and new: "new \<noteq> old" "new \<noteq> nullptr" "\<not> js new" "\<And>d. d < n \<Longrightarrow> d \<noteq> c \<Longrightarrow> cur d \<noteq> new"
      "\<And>d. d < n \<Longrightarrow> d \<noteq> c \<Longrightarrow> idl d \<noteq> new"
    and old: "old \<noteq> nullptr" "st old \<noteq> Running"
  shows "smp_view n (cur(c := new)) idl (sw(c := old)) (st(new := Running)) (js(old := True))"
proof (rule smp_viewI)
  fix d e assume "d < n" "e < n" "(sw(c := old)) e \<noteq> nullptr"
  then show "(cur(c := new)) d \<noteq> (sw(c := old)) e"
    using smp_viewD(1) [OF v c(1), of d] smp_viewD(4,5) [OF v] c new old by (auto split: if_splits)
next
  fix d e assume "d < n" "e < n" "d \<noteq> e" "(sw(c := old)) d \<noteq> nullptr"
  then show "(sw(c := old)) d \<noteq> (sw(c := old)) e"
    using smp_viewD(4) [OF v c(1), of d] smp_viewD(4) [OF v c(1), of e] smp_viewD(6) [OF v, of d e] c old
    by (auto split: if_splits)
next
  fix d e assume "d < n" "e < n" "d \<noteq> e" "idl d \<noteq> nullptr"
  then show "(sw(c := old)) e \<noteq> idl d"
    using smp_viewD(2) [OF v, of d c] smp_viewD(3) [OF v, of d e] c by (auto split: if_splits)
next
  fix p assume "p \<noteq> nullptr" "(js(old := True)) p"
  then show "\<exists>d < n. (sw(c := old)) d = p"
    using smp_viewD(7) [OF v, of p] c by (metis fun_upd_apply)
next
  fix p assume "p \<noteq> nullptr" "(st(new := Running)) p = Running"
  then show "\<exists>d < n. (cur(c := new)) d = p"
    using smp_viewD(8) [OF v, of p] c old by (metis fun_upd_apply)
next
  fix d e assume "d < n" "e < n" "d \<noteq> e" "(cur(c := new)) d \<noteq> nullptr"
  then show "(cur(c := new)) d \<noteq> (cur(c := new)) e"
    using smp_viewD(1) [OF v, of d e] new(4) [of d] new(4) [of e] by (metis fun_upd_apply)
next
  fix d e assume "d < n" "e < n" "d \<noteq> e" "idl d \<noteq> nullptr"
  then show "(cur(c := new)) e \<noteq> idl d"
    using smp_viewD(2) [OF v, of d e] new(5) [of d] by (metis fun_upd_apply)
qed (use smp_viewD(5,9) [OF v] c new old in \<open>auto split: if_splits\<close>)

section \<open>What the operations leave alone\<close>

definition tstates :: "sched \<Rightarrow> ptr \<Rightarrow> thread_state" where
  "tstates s p = state (thr s p)"

definition marks :: "sched \<Rightarrow> ptr \<Rightarrow> bool" where
  "marks s p = just_schedule (thr s p)"

lemma tstates_upd: "tstates (upd_thr p f s) = (tstates s)(p := state (f (thr s p)))"
  by (auto simp: tstates_def upd_thr_def fun_eq_iff)

lemma tstates_upd_state [simp]: "tstates (upd_thr p (\<lambda>t. t\<lparr>state := x\<rparr>) s) = (tstates s)(p := x)"
  by (simp add: tstates_upd)

lemma marks_upd: "marks (upd_thr p f s) = (marks s)(p := just_schedule (f (thr s p)))"
  by (auto simp: marks_def upd_thr_def fun_eq_iff)

lemma view_triv [simp]:
  "(tstates s)(p := state (thr s p)) = tstates s"
  "(marks s)(p := just_schedule (thr s p)) = marks s"
  by (auto simp: tstates_def marks_def fun_eq_iff)

lemma tstates_upd_keep [simp]:
  "(\<And>t. state (f t) = state t) \<Longrightarrow> tstates (upd_thr p f s) = tstates s"
  by (auto simp: tstates_def upd_thr_def fun_eq_iff)

lemma marks_upd_keep [simp]:
  "(\<And>t. just_schedule (f t) = just_schedule t) \<Longrightarrow> marks (upd_thr p f s) = marks s"
  by (auto simp: marks_def upd_thr_def fun_eq_iff)

text \<open>Two states that show the cores the same threads in the same states.\<close>

definition same_view :: "sched \<Rightarrow> sched \<Rightarrow> bool" where
  "same_view s t \<longleftrightarrow> PCU_CORES t = PCU_CORES s \<and> PCU_CORES_PERCORE t = PCU_CORES_PERCORE s \<and>
     tstates t = tstates s \<and> marks t = marks s \<and> scheduler_lock t = scheduler_lock s"

lemma queue_append_frame:
  "queue_append p q s = (q', s') \<Longrightarrow>
    s' = s\<lparr>queue_state_prev := queue_state_prev s', queue_state_next := queue_state_next s'\<rparr>"
  by (auto simp: queue_append_def Let_def split: if_splits)

lemma same_view_Require: "same_view s (RequireSchedulableKernelStackMetadata s p)"
  by (simp add: same_view_def RequireSchedulableKernelStackMetadata_def tstates_def marks_def fun_eq_iff)

lemma same_view_EnqueueReady: "same_view s (EnqueueReadyUnlocked m p s)"
  by (auto simp: same_view_def EnqueueReadyUnlocked_def queue_append_def Let_def tstates_def marks_def
      RequireSchedulableKernelStackMetadata_def fun_eq_iff)

lemma same_view_EnqueueExpired: "same_view s (EnqueueExpiredUnlocked m p s)"
  by (auto simp: same_view_def EnqueueExpiredUnlocked_def queue_append_def Let_def tstates_def marks_def
      RequireSchedulableKernelStackMetadata_def upd_thr_def fun_eq_iff)

lemma same_view_Dequeue: "same_view s (DequeueReadyUnlocked p s)"
  by (simp add: same_view_def tstates_def marks_def fun_eq_iff)

lemma cores_upd [simp]:
  "current_thread (upd_thr p f s) = current_thread s" "idle_thread (upd_thr p f s) = idle_thread s"
  "switching_out_threads (upd_thr p f s) = switching_out_threads s"
  "PCU_CORES (upd_thr p f s) = PCU_CORES s" "PCU_CORES_PERCORE (upd_thr p f s) = PCU_CORES_PERCORE s"
  "scheduler_lock (upd_thr p f s) = scheduler_lock s"
  by (simp_all add: fun_eq_iff upd_thr_def current_thread_def idle_thread_def switching_out_threads_def)

lemma cores_lock [simp]:
  "current_thread (s\<lparr>scheduler_lock := l\<rparr>) = current_thread s"
  "idle_thread (s\<lparr>scheduler_lock := l\<rparr>) = idle_thread s"
  "switching_out_threads (s\<lparr>scheduler_lock := l\<rparr>) = switching_out_threads s"
  "tstates (s\<lparr>scheduler_lock := l\<rparr>) = tstates s" "marks (s\<lparr>scheduler_lock := l\<rparr>) = marks s"
  by (simp_all add: fun_eq_iff current_thread_def idle_thread_def switching_out_threads_def
      tstates_def marks_def)

section \<open>The invariant\<close>

definition inv_with :: "sched \<Rightarrow> ptr set \<Rightarrow> bool" where
  "inv_with s Q \<longleftrightarrow> runq s Q \<and> (\<forall>p \<in> Q. tstates s p = Ready) \<and>
     (\<forall>c < PCU_CORES s. idle_thread s c \<notin> Q \<and> PCU_CORES_PERCORE s c \<noteq> None) \<and>
     smp_view (PCU_CORES s) (current_thread s) (idle_thread s) (switching_out_threads s)
       (tstates s) (marks s)"

text \<open>No ready thread is lost, and no core runs a thread that has not started or has exited.\<close>

definition ready_queued :: "sched \<Rightarrow> ptr set \<Rightarrow> bool" where
  "ready_queued s Q \<longleftrightarrow>
     (\<forall>p. p \<noteq> nullptr \<longrightarrow> tstates s p = Ready \<longrightarrow> p \<in> Q \<or> p \<in> idle_thread s ` {..<PCU_CORES s})"

definition live_current :: "sched \<Rightarrow> bool" where
  "live_current s \<longleftrightarrow> (\<forall>c < PCU_CORES s. current_thread s c \<noteq> nullptr \<longrightarrow>
     tstates s (current_thread s c) \<notin> {Uninit, Exited})"

definition idle_ok :: "sched \<Rightarrow> bool" where
  "idle_ok s \<longleftrightarrow> (\<forall>c < PCU_CORES s. idle_thread s c \<noteq> nullptr \<longrightarrow>
     tstates s (idle_thread s c) \<in> {Ready, Running, Uninit})"

definition full_inv :: "sched \<Rightarrow> ptr set \<Rightarrow> bool" where
  "full_inv s Q \<longleftrightarrow> inv_with s Q \<and> ready_queued s Q \<and> live_current s \<and> idle_ok s"

definition sched_inv :: "sched \<Rightarrow> bool" where
  "sched_inv s \<longleftrightarrow> (\<exists>Q. full_inv s Q)"

definition same_cores :: "sched \<Rightarrow> sched \<Rightarrow> bool" where
  "same_cores s t \<longleftrightarrow> PCU_CORES t = PCU_CORES s \<and> PCU_CORES_PERCORE t = PCU_CORES_PERCORE s \<and>
     marks t = marks s"

lemma same_coresD:
  "same_cores s t \<Longrightarrow> current_thread t = current_thread s \<and> idle_thread t = idle_thread s \<and>
     switching_out_threads t = switching_out_threads s \<and> PCU_CORES t = PCU_CORES s \<and> marks t = marks s"
  by (simp add: same_cores_def fun_eq_iff current_thread_def idle_thread_def switching_out_threads_def)

lemma same_view_same_cores: "same_view s t \<Longrightarrow> same_cores s t"
  by (simp add: same_view_def same_cores_def)

lemma same_view_cores:
  "same_view s t \<Longrightarrow> current_thread t = current_thread s \<and> idle_thread t = idle_thread s \<and>
     switching_out_threads t = switching_out_threads s"
  by (simp add: same_view_def fun_eq_iff current_thread_def idle_thread_def switching_out_threads_def)

lemma inv_with_same_view:
  assumes "same_view s t" "inv_with s Q" "runq t R"
    and "\<And>p. p \<in> R \<Longrightarrow> p \<notin> Q \<Longrightarrow> tstates s p = Ready \<and> p \<notin> idle_thread s ` {..<PCU_CORES s}"
  shows "inv_with t R"
  using assms same_view_cores [OF assms(1)] unfolding inv_with_def same_view_def
  by (metis imageI lessThan_iff)

lemma inv_with_lock [simp]:
  "inv_with (s\<lparr>scheduler_lock := l\<rparr>) Q = inv_with s Q" "inv_with (ReleaseSched s) Q = inv_with s Q"
  by (simp_all add: inv_with_def ReleaseSched_def)

lemma inv_with_cong:
  assumes "same_view s t" "runq t Q = runq s Q"
  shows "inv_with t Q = inv_with s Q"
  using assms same_view_cores [OF assms(1)] by (simp add: inv_with_def same_view_def)

lemma inv_with_fields [simp]:
  "inv_with (s\<lparr>ipi_log := is\<rparr>) Q = inv_with s Q" "inv_with (s\<lparr>fatal := b\<rparr>) Q = inv_with s Q"
  "inv_with (s\<lparr>thchain := ts\<rparr>) Q = inv_with s Q" "inv_with (s\<lparr>chain := ts\<rparr>) Q = inv_with s Q"
  "inv_with (s\<lparr>next_global_id := n\<rparr>) Q = inv_with s Q" "inv_with (s\<lparr>freed := fs\<rparr>) Q = inv_with s Q"
  "inv_with (RequireSchedulableKernelStackMetadata s p) Q = inv_with s Q"
  "inv_with (upd_proc p h s) Q = inv_with s Q"
  by (rule inv_with_cong; simp add: same_view_def tstates_def marks_def fun_eq_iff upd_proc_def
      RequireSchedulableKernelStackMetadata_def)+

section \<open>Steps of the operations\<close>

lemma inv_deq:
  assumes "inv_with s Q" "p \<noteq> nullptr"
  shows "inv_with (DequeueReadyUnlocked p s) (Q - {p})"
  by (rule inv_with_same_view [OF same_view_Dequeue assms(1)])
    (use assms ready_q.remq_law in \<open>auto simp: inv_with_def\<close>)

lemma inv_keep [simp]:
  assumes "\<And>t. state (f t) = state t" "\<And>t. just_schedule (f t) = just_schedule t"
    "\<And>t. priority (f t) = priority t"
  shows "inv_with (upd_thr p f s) Q = inv_with s Q"
  using assms by (simp add: inv_with_def)

lemma inv_stop:
  assumes "inv_with s Q" "p \<notin> Q" "x \<noteq> Running" "\<And>t. state (f t) = x"
    "\<And>t. just_schedule (f t) = just_schedule t" "\<And>t. priority (f t) = priority t"
  shows "inv_with (upd_thr p f s) Q"
  using assms smp_view_stop by (auto simp: inv_with_def tstates_upd)

lemma inv_resume:
  assumes "inv_with s Q" "p \<notin> Q" "c < PCU_CORES s" "current_thread s c = p" "\<And>t. state (f t) = Running"
    "\<And>t. just_schedule (f t) = just_schedule t" "\<And>t. priority (f t) = priority t"
  shows "inv_with (upd_thr p f s) Q"
  using assms smp_view_resume by (auto simp: inv_with_def tstates_upd)

lemma inv_enqueue_ready:
  assumes "inv_with s Q" "p \<noteq> nullptr" "p \<notin> Q" "tstates s p = Ready"
    "p \<notin> idle_thread s ` {..<PCU_CORES s}"
  shows "inv_with (EnqueueReadyUnlocked m p s) (insert p Q)"
  by (rule inv_with_same_view [OF same_view_EnqueueReady assms(1)])
    (use assms ready_q.insq_law in \<open>auto simp: inv_with_def schedulable_def tstates_def\<close>)

lemma inv_enqueue_expired:
  assumes "inv_with s Q" "p \<noteq> nullptr" "p \<notin> Q" "tstates s p = Ready"
    "p \<notin> idle_thread s ` {..<PCU_CORES s}"
  shows "inv_with (EnqueueExpiredUnlocked m p s) (insert p Q)"
  by (rule inv_with_same_view [OF same_view_EnqueueExpired assms(1)])
    (use assms expired_q.insq_law in \<open>auto simp: inv_with_def schedulable_def tstates_def\<close>)

text \<open>Making a thread that is not queued ready and queueing it.\<close>

lemma inv_wake:
  assumes "inv_with s Q" "p \<noteq> nullptr" "p \<notin> Q" "p \<notin> idle_thread s ` {..<PCU_CORES s}"
  shows "inv_with (EnqueueReadyUnlocked m p (upd_thr p (\<lambda>t. t\<lparr>state := Ready\<rparr>) s)) (insert p Q)"
    and "inv_with (EnqueueExpiredUnlocked m p (upd_thr p (\<lambda>t. t\<lparr>state := Ready\<rparr>) s)) (insert p Q)"
  using assms by (auto intro!: inv_enqueue_ready inv_enqueue_expired
    inv_stop [where x = Ready] simp: tstates_upd)

lemma upd_core_cores:
  assumes "PCU_CORES_PERCORE s c \<noteq> None"
  shows "current_thread (upd_core c f s) = (current_thread s)(c := pc_current_thread (f (the (PCU_CORES_PERCORE s c))))"
    and "idle_thread (upd_core c f s) = (idle_thread s)(c := pc_idle_thread (f (the (PCU_CORES_PERCORE s c))))"
    and "switching_out_threads (upd_core c f s) =
      (switching_out_threads s)(c := pc_switching_out_thread (f (the (PCU_CORES_PERCORE s c))))"
  using assms by (auto simp: fun_eq_iff upd_core_def current_thread_def idle_thread_def
      switching_out_threads_def)

lemma core_fields:
  assumes "PCU_CORES_PERCORE s c = Some pc"
  shows "pc_current_thread pc = current_thread s c" "pc_idle_thread pc = idle_thread s c"
    "pc_switching_out_thread pc = switching_out_threads s c"
  using assms by (simp_all add: current_thread_def idle_thread_def switching_out_threads_def)

lemma upd_core_frame [simp]:
  "PCU_CORES (upd_core c f s) = PCU_CORES s" "thr (upd_core c f s) = thr s"
  "tstates (upd_core c f s) = tstates s" "marks (upd_core c f s) = marks s"
  "scheduler_lock (upd_core c f s) = scheduler_lock s"
  "PCU_CORES_PERCORE (upd_core c f s) d = None \<longleftrightarrow> PCU_CORES_PERCORE s d = None"
  by (auto simp: upd_core_def tstates_def marks_def fun_eq_iff)

lemma inv_settle:
  assumes inv: "inv_with s Q" and c: "cpuid < PCU_CORES s"
  shows "inv_with (upd_core cpuid (\<lambda>pc. pc\<lparr>pc_switching_out_thread := nullptr\<rparr>)
    (upd_thr (switching_out_threads s cpuid) (\<lambda>t. t\<lparr>just_schedule := False\<rparr>) s)) Q"
proof -
  have "PCU_CORES_PERCORE s cpuid \<noteq> None" using inv c by (simp add: inv_with_def)
  then obtain pc where pc: "PCU_CORES_PERCORE s cpuid = Some pc" by auto
  have "smp_view (PCU_CORES s) (current_thread s) (idle_thread s)
      ((switching_out_threads s)(cpuid := nullptr)) (tstates s)
      ((marks s)(switching_out_threads s cpuid := False))"
    using inv c by (intro smp_view_settle) (simp_all add: inv_with_def)
  with inv pc show ?thesis
    by (simp add: inv_with_def upd_core_cores core_fields [OF pc] marks_upd)
qed

end
