(* ===== verification/Sched_Ops.thy ===== *)
theory Sched_Ops
  imports Sched_Inv
begin

text \<open>
  Every operation of the scheduler returns on a state that satisfies the invariant, and keeps it:
  blocking and waking, the timeslice rule, the choice of the next thread, and the context switch
  of \<open>Schedule\<close> and \<open>SleepAndRelease\<close>.
\<close>

lemma AcquireSched_free [simp]: "\<not> scheduler_lock s \<Longrightarrow> AcquireSched s = Some (s\<lparr>scheduler_lock := True\<rparr>)"
  by (simp add: AcquireSched_def)

lemma AcquireSched_held [simp]: "scheduler_lock s \<Longrightarrow> AcquireSched s = None"
  by (simp add: AcquireSched_def)

lemma ReleaseSched_free [simp]: "\<not> scheduler_lock (ReleaseSched s)"
  by (simp add: ReleaseSched_def)

lemma lock_frame [simp]:
  "thr (ReleaseSched s) = thr s" "PCU_CORES (ReleaseSched s) = PCU_CORES s"
  "current_thread (ReleaseSched s) = current_thread s" "idle_thread (ReleaseSched s) = idle_thread s"
  "switching_out_threads (ReleaseSched s) = switching_out_threads s"
  "tstates (ReleaseSched s) = tstates s" "marks (ReleaseSched s) = marks s"
  "same_cores s (ReleaseSched t) = same_cores s t" "same_cores (s\<lparr>scheduler_lock := l\<rparr>) t = same_cores s t"
  "ready_queued (ReleaseSched s) Q = ready_queued s Q"
  "ready_queued (s\<lparr>scheduler_lock := l\<rparr>) Q = ready_queued s Q"
  "live_current (ReleaseSched s) = live_current s" "live_current (s\<lparr>scheduler_lock := l\<rparr>) = live_current s"
  "idle_ok (ReleaseSched s) = idle_ok s" "idle_ok (s\<lparr>scheduler_lock := l\<rparr>) = idle_ok s"
  by (simp_all add: ReleaseSched_def same_cores_def ready_queued_def live_current_def idle_ok_def)

lemma unlocked_queue_ops [simp]:
  "DequeueReady p False s = Some (DequeueReadyUnlocked p s)"
  "EnqueueReady m p False s = Some (EnqueueReadyUnlocked m p s)"
  "EnqueueExpired m p False s = Some (EnqueueExpiredUnlocked m p s)"
  by (simp_all add: DequeueReady_def EnqueueReady_def EnqueueExpired_def)

lemma queue_ops_frame [simp]:
  "current_thread (DequeueReadyUnlocked p s) = current_thread s"
  "idle_thread (DequeueReadyUnlocked p s) = idle_thread s"
  "switching_out_threads (DequeueReadyUnlocked p s) = switching_out_threads s"
  "tstates (DequeueReadyUnlocked p s) = tstates s" "marks (DequeueReadyUnlocked p s) = marks s"
  "current_thread (EnqueueReadyUnlocked m p s) = current_thread s"
  "idle_thread (EnqueueReadyUnlocked m p s) = idle_thread s"
  "switching_out_threads (EnqueueReadyUnlocked m p s) = switching_out_threads s"
  "tstates (EnqueueReadyUnlocked m p s) = tstates s" "marks (EnqueueReadyUnlocked m p s) = marks s"
  "PCU_CORES (EnqueueReadyUnlocked m p s) = PCU_CORES s"
  "PCU_CORES_PERCORE (EnqueueReadyUnlocked m p s) = PCU_CORES_PERCORE s"
  "scheduler_lock (EnqueueReadyUnlocked m p s) = scheduler_lock s"
  "current_thread (EnqueueExpiredUnlocked m p s) = current_thread s"
  "idle_thread (EnqueueExpiredUnlocked m p s) = idle_thread s"
  "switching_out_threads (EnqueueExpiredUnlocked m p s) = switching_out_threads s"
  "tstates (EnqueueExpiredUnlocked m p s) = tstates s" "marks (EnqueueExpiredUnlocked m p s) = marks s"
  "PCU_CORES (EnqueueExpiredUnlocked m p s) = PCU_CORES s"
  "PCU_CORES_PERCORE (EnqueueExpiredUnlocked m p s) = PCU_CORES_PERCORE s"
  "scheduler_lock (EnqueueExpiredUnlocked m p s) = scheduler_lock s"
  using same_view_Dequeue [of s p] same_view_EnqueueReady [of s m p] same_view_EnqueueExpired [of s m p]
    same_view_cores [OF same_view_Dequeue [of s p]]
    same_view_cores [OF same_view_EnqueueReady [of s m p]]
    same_view_cores [OF same_view_EnqueueExpired [of s m p]]
  by (simp_all add: same_view_def)

section \<open>Blocking and waking\<close>

lemma Block_inv:
  assumes inv: "inv_with s Q" and free: "\<not> scheduler_lock s" and th: "th \<noteq> nullptr"
  shows "\<exists>s'. Block th reason s = Some s' \<and> inv_with s' (Q - {th}) \<and> \<not> scheduler_lock s' \<and>
    same_cores s s' \<and> tstates s' = (if pending_wake (thr s th) AND reason \<noteq> 0 then tstates s
                                    else (tstates s)(th := Pended))"
proof -
  define t where "t = DequeueReadyUnlocked th (s\<lparr>scheduler_lock := True\<rparr>)"
  have "inv_with t (Q - {th})" unfolding t_def by (rule inv_deq) (use inv th in simp_all)
  moreover from this have "inv_with (upd_thr th (\<lambda>t. t\<lparr>state := Pended, block_reason := block_reason t OR reason\<rparr>) t) (Q - {th})"
    by (rule inv_stop [where x = Pended]) simp_all
  ultimately show ?thesis
    using free by (simp add: Block_def t_def [symmetric] Let_def same_cores_def tstates_upd)
      (simp add: t_def ReleaseSched_def tstates_upd)
qed

lemma WakeThreadOnRecordedCpu_frame [simp]:
  "thr (snd (WakeThreadOnRecordedCpu c p s)) = thr s"
  "tstates (snd (WakeThreadOnRecordedCpu c p s)) = tstates s"
  "marks (snd (WakeThreadOnRecordedCpu c p s)) = marks s"
  "inv_with (snd (WakeThreadOnRecordedCpu c p s)) Q = inv_with s Q"
  "scheduler_lock (snd (WakeThreadOnRecordedCpu c p s)) = scheduler_lock s"
  "PCU_CORES_PERCORE (snd (WakeThreadOnRecordedCpu c p s)) = PCU_CORES_PERCORE s"
  "PCU_CORES (snd (WakeThreadOnRecordedCpu c p s)) = PCU_CORES s"
proof -
  have "\<exists>is. snd (WakeThreadOnRecordedCpu c p s) = s\<lparr>ipi_log := is\<rparr>"
    by (auto simp: WakeThreadOnRecordedCpu_def SendRescheduleIPI_def Let_def split: option.splits)
      (rule exI [of _ "ipi_log s"], simp)+
  then obtain "is" where e: "snd (WakeThreadOnRecordedCpu c p s) = s\<lparr>ipi_log := is\<rparr>" by auto
  show "thr (snd (WakeThreadOnRecordedCpu c p s)) = thr s"
    "tstates (snd (WakeThreadOnRecordedCpu c p s)) = tstates s"
    "marks (snd (WakeThreadOnRecordedCpu c p s)) = marks s"
    "inv_with (snd (WakeThreadOnRecordedCpu c p s)) Q = inv_with s Q"
    "scheduler_lock (snd (WakeThreadOnRecordedCpu c p s)) = scheduler_lock s"
    "PCU_CORES_PERCORE (snd (WakeThreadOnRecordedCpu c p s)) = PCU_CORES_PERCORE s"
    "PCU_CORES (snd (WakeThreadOnRecordedCpu c p s)) = PCU_CORES s"
    unfolding e by (simp_all add: tstates_def marks_def fun_eq_iff)
qed

text \<open>The thread is made ready when no reason to block remains and it was neither running nor ready.\<close>

definition wakes :: "sched \<Rightarrow> ptr \<Rightarrow> uint32 \<Rightarrow> bool" where
  "wakes s th reason \<longleftrightarrow> block_reason (thr s th) AND NOT reason = BR_None \<and>
     tstates s th \<noteq> Running \<and> tstates s th \<noteq> Ready"

lemma UnblockThreadLocked_inv:
  assumes inv: "inv_with s Q" and th: "th \<noteq> nullptr" "th \<notin> idle_thread s ` {..<PCU_CORES s}"
  shows "\<exists>s'. UnblockThreadLocked m cpuid th reason s = Some s' \<and>
    inv_with s' (if wakes s th reason then insert th Q else Q) \<and> scheduler_lock s' = scheduler_lock s \<and>
    same_cores s s' \<and> tstates s' = (if wakes s th reason then (tstates s)(th := Ready) else tstates s)"
proof -
  define t where "t = upd_thr th (\<lambda>t. t\<lparr>block_reason := block_reason t AND NOT reason\<rparr>) s"
  have it: "inv_with t Q" using inv by (simp add: t_def)
  have tt: "block_reason (thr t th) = block_reason (thr s th) AND NOT reason" "state (thr t th) = tstates s th"
    "scheduler_lock t = scheduler_lock s"
    by (simp_all add: t_def upd_thr_def tstates_def)
  have "inv_with (EnqueueReadyUnlocked m th (upd_thr th (\<lambda>t. t\<lparr>state := Ready\<rparr>) t)) (insert th Q)"
    "inv_with (EnqueueExpiredUnlocked m th (upd_thr th (\<lambda>t. t\<lparr>state := Ready\<rparr>) t)) (insert th Q)"
    if "tstates s th \<noteq> Ready" for m
    using inv_wake [OF it, of th] that inv th by (auto simp: inv_with_def t_def)
  with it tt show ?thesis
    unfolding UnblockThreadLocked_def t_def [symmetric] Let_def wakes_def
    by (simp add: same_cores_def tstates_upd) (simp add: t_def fun_upd_idem)
qed

lemma Unblock_inv:
  assumes "inv_with s Q" "\<not> scheduler_lock s" "th \<noteq> nullptr" "th \<notin> idle_thread s ` {..<PCU_CORES s}"
  shows "\<exists>s'. Unblock m cpuid th reason s = Some s' \<and>
    inv_with s' (if wakes s th reason then insert th Q else Q) \<and> \<not> scheduler_lock s' \<and>
    same_cores s s' \<and> tstates s' = (if wakes s th reason then (tstates s)(th := Ready) else tstates s)"
  using UnblockThreadLocked_inv [of "s\<lparr>scheduler_lock := True\<rparr>" Q th m cpuid reason] assms
  by (auto simp: Unblock_def wakes_def)

section \<open>Choosing the next thread\<close>

lemma same_view_swept: "same_view s (swept A E s)"
  by (simp add: same_view_def tstates_def marks_def fun_eq_iff)

lemma pick_in:
  assumes "queues_ok s' A E" "pick m s cpuid A E \<noteq> nullptr"
  shows "pick m s cpuid A E \<in> queued A E \<and> eligible m s cpuid (pick m s cpuid A E)"
proof -
  define xs where "xs = concat (map A [0..<32])"
  define ys where "ys = concat (map E [16..<32])"
  have sub: "set xs \<subseteq> queued A E" "set ys \<subseteq> queued A E"
    by (auto simp: queued_def xs_def ys_def)
  show ?thesis
  proof (cases "List.find (eligible m s cpuid) xs")
    case None
    moreover have "pick m s cpuid A E = the_ptr (List.find (eligible m s cpuid) ys)"
      using None assms(2) by (simp add: pick_def xs_def [symmetric] ys_def [symmetric] split: if_splits)
    ultimately show ?thesis
      using assms(2) sub find_eq_SomeD [of _ ys] by (auto simp: the_ptr_def split: option.splits)
  next
    case (Some p)
    with sub find_eq_SomeD [OF Some] show ?thesis by (auto simp: pick_def xs_def [symmetric])
  qed
qed

lemma queued_epoch [simp]: "queued (epoch_active A E) (epoch_expired A E) = queued A E"
proof (cases "epoch_due A E")
  case True
  then show ?thesis unfolding queued_def
    by (intro SUP_cong) (simp_all add: epoch_active_def epoch_expired_def epoch_due_def)
next
  case False
  then show ?thesis by (simp add: queued_def epoch_active_def epoch_expired_def)
qed

lemma PickNext_inv:
  assumes inv: "inv_with s Q"
  shows "\<exists>n s'. PickNext m cpuid s = Some (n, s') \<and> inv_with s' Q \<and> same_view s s' \<and>
    (n \<noteq> nullptr \<longrightarrow> n \<in> Q \<and> eligible m s cpuid n)"
proof -
  obtain A E where q: "queues_ok s A E" "Q = queued A E" using inv by (auto simp: inv_with_def runq_def)
  define A' where "A' = epoch_active A E"
  define E' where "E' = epoch_expired A E"
  define n where "n = pick m s cpuid A' E'"
  have ok: "queues_ok (swept A E s) A' E'" unfolding A'_def E'_def by (rule queues_ok_swept [OF q(1)])
  have Q: "queued A' E' = Q"
    by (simp add: A'_def E'_def q(2))
  have inv': "inv_with (swept A E s) Q"
    by (rule inv_with_same_view [OF same_view_swept inv]) (use ok Q in \<open>auto simp: runq_def\<close>)
  have n: "n \<in> Q \<and> eligible m s cpuid n" if "n \<noteq> nullptr"
    using pick_in [OF ok] that Q by (simp add: n_def)
  have "forget_switching_out n (swept A E s) = swept A E s" if "n \<noteq> nullptr"
  proof -
    have "\<not> marks s n" using n [OF that] by (simp add: eligible_def candidate_def marks_def)
    then have "List.find (\<lambda>i. switching_out_threads s i = n) [0..<PCU_CORES s] = None"
      using inv that by (auto simp: find_eq_None inv_with_def dest: smp_viewD(5))
    then show ?thesis by (simp add: forget_switching_out_def)
  qed
  with PickNext_spec [OF q(1) n_def [unfolded A'_def E'_def]] n inv' same_view_swept show ?thesis
    by (intro exI [of _ n] exI [of _ "swept A E s"]) auto
qed

section \<open>The outgoing thread\<close>

lemma inv_requeue:
  assumes "inv_with s Q" "p \<noteq> nullptr" "p \<notin> idle_thread s ` {..<PCU_CORES s}"
  shows "inv_with (EnqueueReadyUnlocked m p (upd_thr p (\<lambda>t. t\<lparr>state := Ready\<rparr>) (DequeueReadyUnlocked p s))) (insert p Q)"
    and "inv_with (EnqueueExpiredUnlocked m p (upd_thr p (\<lambda>t. t\<lparr>state := Ready\<rparr>) (DequeueReadyUnlocked p s))) (insert p Q)"
  using inv_wake [OF inv_deq [OF assms(1,2)] assms(2)] assms(3) by simp_all

lemma ifContinueProcess_inv:
  assumes inv: "inv_with s Q" and p: "p \<noteq> nullptr" "p \<notin> idle_thread s ` {..<PCU_CORES s}"
  shows "\<exists>keep s'. ifContinueProcess m p s = Some (keep, s') \<and> same_cores s s' \<and>
    scheduler_lock s' = scheduler_lock s \<and>
    inv_with s' (if tstates s p = Running \<and> \<not> keep then insert p Q else Q) \<and>
    tstates s' = (if tstates s p = Running \<and> \<not> keep then (tstates s)(p := Ready) else tstates s) \<and>
    (keep \<longrightarrow> tstates s p = Running)"
proof (cases "state (thr s p) = Running")
  case True
  with inv_requeue [OF inv p, of m] inv show ?thesis
    by (cases "time_slice (thr s p) > 0"; cases "priority (thr s p) \<ge> 0")
      (simp_all add: ifContinueProcess_def Let_def same_cores_def tstates_def [of s p] ex_bool_eq)
next
  case False
  with inv show ?thesis by (simp add: ifContinueProcess_def same_cores_def tstates_def [of s p] ex_bool_eq)
qed

lemma current_not_idle:
  assumes "inv_with s Q" "c < PCU_CORES s" "current_thread s c \<noteq> nullptr"
    "current_thread s c \<noteq> idle_thread s c"
  shows "current_thread s c \<notin> idle_thread s ` {..<PCU_CORES s}"
proof
  assume "current_thread s c \<in> idle_thread s ` {..<PCU_CORES s}"
  then obtain d where d: "d < PCU_CORES s" "current_thread s c = idle_thread s d" by auto
  with assms(4) have "d \<noteq> c" by auto
  with assms(1-3) d show False by (auto simp: inv_with_def dest: smp_viewD(2))
qed

text \<open>
  What the commit step needs of the outgoing thread: if it was running or ready it is ready and
  queued, unless it is the idle thread of the core.
\<close>

definition outgoing_done :: "sched \<Rightarrow> nat \<Rightarrow> ptr \<Rightarrow> ptr set \<Rightarrow> bool" where
  "outgoing_done s cpuid old Q \<longleftrightarrow> old \<noteq> idle_thread s cpuid \<longrightarrow>
     tstates s old \<noteq> Running \<and> (tstates s old = Ready \<longrightarrow> old \<in> Q)"

definition outgoing_ok :: "sched \<Rightarrow> nat \<Rightarrow> ptr \<Rightarrow> (bool \<times> sched) option \<Rightarrow> bool" where
  "outgoing_ok s c old r \<longleftrightarrow> (\<exists>keep s' Q'. r = Some (keep, s') \<and> same_cores s s' \<and>
    scheduler_lock s' = scheduler_lock s \<and> inv_with s' Q' \<and> ready_queued s' Q' \<and> live_current s' \<and>
    (tstates s' = tstates s \<or> tstates s' = (tstates s)(old := Ready)) \<and>
    (\<not> keep \<longrightarrow> outgoing_done s' c old Q'))"

lemma outgoing_same:
  assumes "same_cores s t" "tstates t = tstates s" "scheduler_lock t = scheduler_lock s" "inv_with t Q"
    "ready_queued s Q" "live_current s" "\<not> keep \<Longrightarrow> outgoing_done s c old Q"
  shows "outgoing_ok s c old (Some (keep, t))"
  unfolding outgoing_ok_def using assms same_coresD [OF assms(1)]
  by (intro exI [of _ keep] exI [of _ t] exI [of _ Q])
    (simp add: ready_queued_def live_current_def outgoing_done_def)

lemma outgoing_requeued:
  assumes "same_cores s t" "tstates t = (tstates s)(old := Ready)" "scheduler_lock t = scheduler_lock s"
    "inv_with t (insert old Q)" "ready_queued s Q" "live_current s"
  shows "outgoing_ok s c old (Some (keep, t))"
  unfolding outgoing_ok_def using assms same_coresD [OF assms(1)]
  by (intro exI [of _ keep] exI [of _ t] exI [of _ "insert old Q"])
    (simp add: ready_queued_def live_current_def outgoing_done_def)

lemma Schedule_outgoing_idle:
  assumes inv: "inv_with s Q" "ready_queued s Q" "live_current s"
    and c: "c < PCU_CORES s" "old = idle_thread s c"
  shows "outgoing_ok s c old (Schedule_outgoing m omit c old s)"
proof -
  have oQ: "old \<notin> Q" using inv(1) c by (simp add: inv_with_def)
  let ?t = "upd_thr old (\<lambda>t. t\<lparr>state := Ready\<rparr>) s"
  have "inv_with ?t Q" by (rule inv_stop [OF inv(1) oQ, where x = Ready]) simp_all
  moreover have "ready_queued ?t Q" using inv(2) c by (auto simp: ready_queued_def)
  moreover have "live_current ?t" using inv(3) by (auto simp: live_current_def)
  ultimately show ?thesis
    using c inv by (auto simp: Schedule_outgoing_def Let_def same_cores_def outgoing_done_def outgoing_ok_def
      intro!: exI [of _ Q])
qed

lemma Schedule_outgoing_forced:
  assumes inv: "inv_with s Q" "ready_queued s Q" "live_current s"
    and c: "c < PCU_CORES s" "old = current_thread s c" "old \<noteq> nullptr" "old \<noteq> idle_thread s c"
    and ni: "old \<notin> idle_thread s ` {..<PCU_CORES s}"
  shows "outgoing_ok s c old (Schedule_outgoing m True c old s)"
proof (cases "state (thr s old) = Running \<or> state (thr s old) = Ready")
  case True
  let ?t = "EnqueueExpiredUnlocked m old (upd_thr old (\<lambda>t. t\<lparr>state := Ready\<rparr>) (DequeueReadyUnlocked old s))"
  have "Schedule_outgoing m True c old s = Some (False, ?t)"
    using True c by (auto simp: Schedule_outgoing_def Let_def)
  moreover have "outgoing_ok s c old (Some (False, ?t))"
    by (rule outgoing_requeued [OF _ _ _ inv_requeue(2) [OF inv(1) c(3) ni] inv(2,3)])
      (simp_all add: same_cores_def)
  ultimately show ?thesis by simp
next
  case False
  have "state (thr s old) \<notin> {Uninit, Exited}"
    using inv(3) c by (simp add: live_current_def tstates_def)
  with False have "Schedule_outgoing m True c old s = Some (False, s)"
    by (cases "state (thr s old)") (auto simp: Schedule_outgoing_def Let_def)
  moreover have "outgoing_ok s c old (Some (False, s))"
    by (rule outgoing_same [OF _ _ _ inv])
      (use False in \<open>simp_all add: same_cores_def outgoing_done_def tstates_def\<close>)
  ultimately show ?thesis by simp
qed

lemma Schedule_outgoing_tick:
  assumes inv: "inv_with s Q" "ready_queued s Q" "live_current s"
    and c: "old \<noteq> nullptr" "old \<noteq> idle_thread s c" and ni: "old \<notin> idle_thread s ` {..<PCU_CORES s}"
  shows "outgoing_ok s c old (Schedule_outgoing m False c old s)"
proof -
  obtain keep t where t: "ifContinueProcess m old s = Some (keep, t)" "same_cores s t"
    "scheduler_lock t = scheduler_lock s"
    "inv_with t (if tstates s old = Running \<and> \<not> keep then insert old Q else Q)"
    "tstates t = (if tstates s old = Running \<and> \<not> keep then (tstates s)(old := Ready) else tstates s)"
    "keep \<longrightarrow> tstates s old = Running"
    using ifContinueProcess_inv [OF inv(1) c(1) ni, of m] by blast
  have "outgoing_ok s c old (Some (keep, t))"
  proof (cases "tstates s old = Running \<and> \<not> keep")
    case True
    show ?thesis by (rule outgoing_requeued [OF t(2) _ t(3) _ inv(2,3)]) (use True t in simp_all)
  next
    case False
    then have "outgoing_done s c old Q" if "\<not> keep"
      using that inv(2) ni c(1) by (auto simp: outgoing_done_def ready_queued_def)
    with False t show ?thesis
      by (intro outgoing_same [OF t(2) _ t(3) _ inv(2,3)]) (auto split: if_splits)
  qed
  then show ?thesis using c(2) t(1) by (simp add: Schedule_outgoing_def)
qed

lemma Schedule_outgoing_inv:
  assumes inv: "inv_with s Q" "ready_queued s Q" "live_current s"
    and c: "c < PCU_CORES s" "old = current_thread s c" "old \<noteq> nullptr"
  shows "outgoing_ok s c old (Schedule_outgoing m omit c old s)"
proof (cases "old = idle_thread s c")
  case True
  then show ?thesis by (rule Schedule_outgoing_idle [OF inv c(1)])
next
  case False
  have "old \<notin> idle_thread s ` {..<PCU_CORES s}"
    using current_not_idle [OF inv(1) c(1)] c False by simp
  then show ?thesis
    using Schedule_outgoing_forced [OF inv c False] Schedule_outgoing_tick [OF inv c(3) False] by (cases omit) auto
qed

section \<open>The context switch\<close>

lemma Dequeue_upd_thr:
  "(\<And>t. priority (f t) = priority t) \<Longrightarrow>
    DequeueReadyUnlocked q (upd_thr p f s) = upd_thr p f (DequeueReadyUnlocked q s)"
  by (simp add: DequeueReadyUnlocked_def upd_thr_def Let_def)

lemma Bind_shape:
  assumes "PCU_CORES_PERCORE s c \<noteq> None" "th \<noteq> nullptr"
  shows "\<exists>f b. BindCurrentKernelEntryStack m th c s = upd_core c f (s\<lparr>fatal := b\<rparr>) \<and>
    (\<forall>pc. pc_current_thread (f pc) = th \<and> pc_idle_thread (f pc) = pc_idle_thread pc \<and>
          pc_switching_out_thread (f pc) = pc_switching_out_thread pc)"
proof -
  obtain pc where pc: "PCU_CORES_PERCORE s c = Some pc" using assms(1) by auto
  have r: "RequireSchedulableKernelStackMetadata s th =
      s\<lparr>fatal := (if ThreadHasSchedulableKernelStackMetadata s th then fatal s else True)\<rparr>"
    by (simp add: RequireSchedulableKernelStackMetadata_def)
  have f: "(if z then (upd_core c f s)\<lparr>fatal := True\<rparr> else upd_core c f s) =
      upd_core c f (s\<lparr>fatal := (if z then True else fatal s)\<rparr>)" for f z
    by (simp add: upd_core_def)
  show ?thesis
  proof (cases m)
    case MCCA_8632
    show ?thesis
      unfolding MCCA_8632 BindCurrentKernelEntryStack_def mcca.case BindCurrentKernelEntryStack_8632_def pc r
      using assms(2) by (simp only: if_False option.case) (intro exI conjI, rule refl, simp)
  next
    case MCCA_8664
    show ?thesis
      unfolding MCCA_8664 BindCurrentKernelEntryStack_def mcca.case BindCurrentKernelEntryStack_8664_def pc Let_def f
      using assms(2) by (simp only: if_False option.case) (intro exI conjI, rule refl, simp)
  qed
qed

lemma fatal_frame [simp]:
  "current_thread (s\<lparr>fatal := b\<rparr>) = current_thread s" "idle_thread (s\<lparr>fatal := b\<rparr>) = idle_thread s"
  "switching_out_threads (s\<lparr>fatal := b\<rparr>) = switching_out_threads s"
  "tstates (s\<lparr>fatal := b\<rparr>) = tstates s" "marks (s\<lparr>fatal := b\<rparr>) = marks s"
  by (simp_all add: fun_eq_iff current_thread_def idle_thread_def switching_out_threads_def
      tstates_def marks_def)

lemma switch_frame:
  assumes "PCU_CORES_PERCORE s c \<noteq> None" "new \<noteq> nullptr"
  shows "current_thread (switch_to m c new s) = (current_thread s)(c := new)"
    "idle_thread (switch_to m c new s) = idle_thread s"
    "switching_out_threads (switch_to m c new s) = switching_out_threads s"
    "tstates (switch_to m c new s) = tstates s" "marks (switch_to m c new s) = marks s"
    "PCU_CORES (switch_to m c new s) = PCU_CORES s"
    "scheduler_lock (switch_to m c new s) = scheduler_lock s"
    "(PCU_CORES_PERCORE (switch_to m c new s) d = None) = (PCU_CORES_PERCORE s d = None)"
    "runq (switch_to m c new s) Q = runq s Q"
proof -
  let ?u = "upd_thr new (\<lambda>t. t\<lparr>processor_id := c\<rparr>) (upd_core c (\<lambda>pc. pc\<lparr>pc_current_thread := new\<rparr>) s)"
  have "PCU_CORES_PERCORE ?u c \<noteq> None" using assms(1) by (simp add: upd_core_def)
  from Bind_shape [OF this assms(2), of m] obtain f b where
    f: "switch_to m c new s = upd_core c f (?u\<lparr>fatal := b\<rparr>)"
    "\<And>pc. pc_current_thread (f pc) = new" "\<And>pc. pc_idle_thread (f pc) = pc_idle_thread pc"
    "\<And>pc. pc_switching_out_thread (f pc) = pc_switching_out_thread pc"
    unfolding switch_to_def Let_def by blast
  obtain pc where pc: "PCU_CORES_PERCORE s c = Some pc" using assms(1) by auto
  note cf = core_fields [OF pc]
  have pu: "PCU_CORES_PERCORE (?u\<lparr>fatal := b\<rparr>) c = Some (pc\<lparr>pc_current_thread := new\<rparr>)"
    using pc by (simp add: upd_core_def)
  show "current_thread (switch_to m c new s) = (current_thread s)(c := new)"
    "idle_thread (switch_to m c new s) = idle_thread s"
    "switching_out_threads (switch_to m c new s) = switching_out_threads s"
    "tstates (switch_to m c new s) = tstates s" "marks (switch_to m c new s) = marks s"
    "PCU_CORES (switch_to m c new s) = PCU_CORES s"
    "scheduler_lock (switch_to m c new s) = scheduler_lock s"
    "(PCU_CORES_PERCORE (switch_to m c new s) d = None) = (PCU_CORES_PERCORE s d = None)"
    "runq (switch_to m c new s) Q = runq s Q"
    unfolding f(1) using assms(1) pc pu f(2-4) by (simp_all add: upd_core_cores cf)
qed

lemma switch_from_frame:
  assumes "PCU_CORES_PERCORE s c \<noteq> None"
  shows "current_thread (switch_from c old s) = current_thread s"
    "idle_thread (switch_from c old s) = idle_thread s"
    "switching_out_threads (switch_from c old s) = (switching_out_threads s)(c := old)"
    "tstates (switch_from c old s) = tstates s" "marks (switch_from c old s) = (marks s)(old := True)"
    "PCU_CORES (switch_from c old s) = PCU_CORES s"
    "(PCU_CORES_PERCORE (switch_from c old s) d = None) = (PCU_CORES_PERCORE s d = None)"
    "runq (switch_from c old s) Q = runq s Q"
proof -
  obtain pc where pc: "PCU_CORES_PERCORE s c = Some pc" using assms by auto
  show "current_thread (switch_from c old s) = current_thread s"
    "idle_thread (switch_from c old s) = idle_thread s"
    "switching_out_threads (switch_from c old s) = (switching_out_threads s)(c := old)"
    "tstates (switch_from c old s) = tstates s" "marks (switch_from c old s) = (marks s)(old := True)"
    "PCU_CORES (switch_from c old s) = PCU_CORES s"
    "(PCU_CORES_PERCORE (switch_from c old s) d = None) = (PCU_CORES_PERCORE s d = None)"
    "runq (switch_from c old s) Q = runq s Q"
    using pc core_fields [OF pc] by (simp_all add: switch_from_def upd_core_cores marks_upd)
qed

text \<open>The thread that may take over a core: marked nowhere, current nowhere, idle of no other core.\<close>

definition takeable :: "sched \<Rightarrow> nat \<Rightarrow> ptr \<Rightarrow> bool" where
  "takeable s c new \<longleftrightarrow> new \<noteq> nullptr \<and> new \<noteq> current_thread s c \<and> \<not> marks s new \<and>
     (\<forall>d < PCU_CORES s. d \<noteq> c \<longrightarrow> current_thread s d \<noteq> new \<and> idle_thread s d \<noteq> new)"

text \<open>The effect of a context switch from \<open>s\<close> to \<open>t\<close>, whatever the order of its writes.\<close>

definition switched :: "sched \<Rightarrow> nat \<Rightarrow> thread_state \<Rightarrow> ptr \<Rightarrow> sched \<Rightarrow> bool" where
  "switched s c x new t \<longleftrightarrow>
     current_thread t = (current_thread s)(c := new) \<and> idle_thread t = idle_thread s \<and>
     switching_out_threads t = (switching_out_threads s)(c := current_thread s c) \<and>
     tstates t = (tstates s)(current_thread s c := x, new := Running) \<and>
     marks t = (marks s)(current_thread s c := True) \<and> PCU_CORES t = PCU_CORES s \<and>
     (\<forall>d. (PCU_CORES_PERCORE t d = None) = (PCU_CORES_PERCORE s d = None))"

lemma inv_switch:
  assumes inv: "inv_with s Q" and c: "c < PCU_CORES s" "current_thread s c \<noteq> nullptr"
      "switching_out_threads s c = nullptr" and new: "takeable s c new"
    and x: "x \<noteq> Running" "current_thread s c \<in> Q \<Longrightarrow> x = Ready"
    and t: "switched s c x new t" "runq t (Q - {new})"
  shows "inv_with t (Q - {new})"
proof -
  let ?old = "current_thread s c"
  have "smp_view (PCU_CORES s) (current_thread s) (idle_thread s) (switching_out_threads s)
      ((tstates s)(?old := x)) (marks s)"
    using inv x(1) by (intro smp_view_stop) (simp add: inv_with_def)
  from smp_view_switch [OF this c(1) refl c(3), of new]
  have "smp_view (PCU_CORES t) (current_thread t) (idle_thread t) (switching_out_threads t) (tstates t) (marks t)"
    using new c x t(1) by (simp add: takeable_def switched_def)
  moreover have "\<forall>p \<in> Q - {new}. tstates t p = Ready"
    using inv x(2) t(1) by (auto simp: inv_with_def switched_def)
  ultimately show ?thesis using inv t by (simp add: inv_with_def switched_def)
qed

lemma switch_ready_queued:
  assumes "ready_queued s Q" "x = Ready \<Longrightarrow> current_thread s c \<in> Q \<or> current_thread s c = idle_thread s c"
    "c < PCU_CORES s" "new \<noteq> current_thread s c" "switched s c x new t"
  shows "ready_queued t (Q - {new})"
  using assms by (auto simp: ready_queued_def switched_def)

lemma switch_live_current:
  assumes "inv_with s Q" "live_current s" "switched s c x new t" "takeable s c new"
    "c < PCU_CORES s" "current_thread s c \<noteq> nullptr"
  shows "live_current t"
proof -
  have "current_thread s d \<noteq> current_thread s c" if "d < PCU_CORES s" "d \<noteq> c" for d
    using assms(1,5,6) that by (metis inv_with_def smp_viewD(1))
  with assms show ?thesis by (auto simp: live_current_def switched_def takeable_def)
qed

lemma Schedule_commit_same:
  assumes inv: "full_inv s Q" and c: "c < PCU_CORES s" "old = current_thread s c" "old \<noteq> nullptr"
    and st: "tstates s old = Running \<or> tstates s old = Ready"
  shows "\<exists>t. Schedule_commit m c old old s = Some (Returned t) \<and> sched_inv t \<and> \<not> scheduler_lock t \<and>
    current_thread t c = old \<and> tstates t old = Running"
proof -
  let ?f = "\<lambda>t. t\<lparr>state := Running\<rparr>"
  let ?u = "upd_thr old (\<lambda>t. t\<lparr>processor_id := c\<rparr>) (upd_thr old ?f (DequeueReadyUnlocked old s))"
  have id: "upd_thr old ?f (DequeueReadyUnlocked old s) = DequeueReadyUnlocked old s" if "state (thr s old) = Running"
    using that by (simp add: upd_thr_def fun_upd_idem)
  have e: "Schedule_commit m c old old s = Some (Returned (ReleaseSched ?u))"
    using st id by (auto simp: Schedule_commit_def Let_def Dequeue_upd_thr tstates_def)
  have "inv_with (upd_thr old ?f (DequeueReadyUnlocked old s)) (Q - {old})"
    by (rule inv_resume [OF inv_deq, where c = c]) (use inv c in \<open>simp_all add: full_inv_def\<close>)
  moreover have "ready_queued ?u (Q - {old})" "live_current ?u" "idle_ok ?u"
    using inv c by (auto simp: full_inv_def ready_queued_def live_current_def idle_ok_def)
  ultimately have "full_inv (ReleaseSched ?u) (Q - {old})" by (simp add: full_inv_def)
  then show ?thesis using e c by (auto simp: sched_inv_def)
qed

lemma Schedule_commit_switch:
  assumes inv: "full_inv s Q" and c: "c < PCU_CORES s" "old = current_thread s c" "old \<noteq> nullptr"
      "switching_out_threads s c = nullptr"
    and new: "takeable s c new" "new \<in> Q \<or> new = idle_thread s c" "tstates s new \<in> {Ready, Uninit}"
    and out: "outgoing_done s c old Q"
  shows "\<exists>t. Schedule_commit m c old new s = Some (Switched old new t) \<and> sched_inv t \<and>
    \<not> scheduler_lock t \<and> current_thread t c = new \<and> tstates t new = Running"
proof -
  define x where "x = (if tstates s old = Running then Ready else tstates s old)"
  define u where "u = (if new \<noteq> idle_thread s c then DequeueReadyUnlocked new s else s)"
  have nq: "new \<noteq> nullptr" "new \<noteq> old" using new(1) c(2) by (auto simp: takeable_def)
  have i: "inv_with s Q" using inv by (simp add: full_inv_def)
  have nQ: "new \<notin> Q" if "new = idle_thread s c" using i c(1) that by (simp add: inv_with_def)
  have ru: "runq u (Q - {new})"
    using inv_deq [OF i nq(1)] i nQ by (auto simp: u_def inv_with_def)
  have fu: "current_thread u = current_thread s" "idle_thread u = idle_thread s"
    "switching_out_threads u = switching_out_threads s" "tstates u = tstates s" "marks u = marks s"
    "PCU_CORES u = PCU_CORES s" "PCU_CORES_PERCORE u = PCU_CORES_PERCORE s" "thr u = thr s"
    by (simp_all add: u_def)
  define w where "w = (if tstates s new = Uninit then upd_thr new (\<lambda>t. t\<lparr>state := Ready\<rparr>) u else u)"
  have u': "(if new \<noteq> idle_thread s c then DequeueReady new False s else Some s) = Some u"
    by (simp add: u_def)
  have w': "(if state (thr u new) = Uninit then upd_thr new (\<lambda>t. t\<lparr>state := Ready\<rparr>) u else u) = w"
    by (simp add: w_def fu(8) tstates_def)
  define v where "v = upd_thr new (\<lambda>t. t\<lparr>state := Running\<rparr>)
    (if tstates s old = Running then upd_thr old (\<lambda>t. t\<lparr>state := Ready\<rparr>) w else w)"
  have w: "state (thr w new) = Ready" "state (thr w old) = tstates s old"
    using new(3) nq(2) by (auto simp: w_def fu upd_thr_def tstates_def)
  have v: "Schedule_commit m c old new s =
      Some (Switched old new (ReleaseSched (switch_from c old (switch_to m c new v))))"
    unfolding Schedule_commit_def u' using nq(2) w by (simp add: Let_def w' v_def)
  have tv: "tstates v = (tstates s)(old := x, new := Running)"
    using nq(2) by (auto simp: v_def w_def fu x_def fun_eq_iff)
  have fv: "current_thread v = current_thread s" "idle_thread v = idle_thread s"
    "switching_out_threads v = switching_out_threads s" "marks v = marks s"
    "PCU_CORES v = PCU_CORES s" "PCU_CORES_PERCORE v = PCU_CORES_PERCORE s" "runq v (Q - {new})"
    using ru by (simp_all add: v_def w_def fu)
  define t where "t = switch_from c old (switch_to m c new v)"
  have pc: "PCU_CORES_PERCORE v c \<noteq> None" using i c(1) fv by (simp add: inv_with_def)
  have pc': "PCU_CORES_PERCORE (switch_to m c new v) c \<noteq> None" using switch_frame(8) [OF pc nq(1)] pc by simp
  have sw: "switched s c x new t" "runq t (Q - {new})"
    using switch_from_frame [OF pc'] switch_frame [OF pc nq(1)] tv fv c(2) by (simp_all add: t_def switched_def)
  have x: "x \<noteq> Running" "old \<in> Q \<Longrightarrow> x = Ready" "x = Ready \<Longrightarrow> old \<in> Q \<or> old = idle_thread s c"
    using i out by (auto simp: x_def inv_with_def outgoing_done_def)
  have "inv_with t (Q - {new})"
    by (rule inv_switch [OF i c(1) _ c(4) new(1) x(1) _ sw]) (use c x in auto)
  moreover have "ready_queued t (Q - {new})"
    by (rule switch_ready_queued [OF _ _ c(1) _ sw(1)]) (use inv x nq c in \<open>auto simp: full_inv_def\<close>)
  moreover have "live_current t"
    by (rule switch_live_current [OF i _ sw(1) new(1) c(1)]) (use inv c in \<open>auto simp: full_inv_def\<close>)
  moreover have "idle_ok t"
    using inv sw(1) c(2) by (auto simp: full_inv_def idle_ok_def switched_def x_def)
  ultimately have "full_inv t (Q - {new})" by (simp add: full_inv_def)
  moreover have "current_thread t c = new" "tstates t new = Running" using sw(1) by (simp_all add: switched_def)
  ultimately show ?thesis using v by (auto simp: t_def [symmetric] sched_inv_def full_inv_def)
qed

section \<open>Schedule\<close>

text \<open>The thread still being switched out on the core is not one that \<open>Settle\<close> has to destroy.\<close>

definition settles :: "sched \<Rightarrow> nat \<Rightarrow> bool" where
  "settles s c \<longleftrightarrow> (let p = switching_out_threads s c in
     p \<noteq> nullptr \<longrightarrow> \<not> (state (thr s p) = Hanging \<and> is_detached (thr s p)))"

lemma Settle_inv:
  assumes inv: "full_inv s Q" and c: "c < PCU_CORES s" and "settles s c"
  shows "\<exists>t. SettleSwitchingOutThread env pg c s = Some t \<and> full_inv t Q \<and>
    switching_out_threads t c = nullptr \<and> current_thread t = current_thread s \<and>
    idle_thread t = idle_thread s \<and> tstates t = tstates s \<and> PCU_CORES t = PCU_CORES s \<and>
    scheduler_lock t = scheduler_lock s"
proof (cases "switching_out_threads s c = nullptr")
  case True
  with inv show ?thesis by (simp add: SettleSwitchingOutThread_def)
next
  case False
  let ?p = "switching_out_threads s c"
  let ?t = "upd_core c (\<lambda>pc. pc\<lparr>pc_switching_out_thread := nullptr\<rparr>) (upd_thr ?p (\<lambda>t. t\<lparr>just_schedule := False\<rparr>) s)"
  have "inv_with ?t Q" using inv c by (intro inv_settle) (simp_all add: full_inv_def)
  moreover obtain pc where pc: "PCU_CORES_PERCORE s c = Some pc"
    using inv c by (auto simp: full_inv_def inv_with_def)
  have f: "current_thread ?t = current_thread s" "idle_thread ?t = idle_thread s"
    "switching_out_threads ?t = (switching_out_threads s)(c := nullptr)" "tstates ?t = tstates s"
    using pc core_fields [OF pc] by (simp_all add: upd_core_cores)
  ultimately have "full_inv ?t Q"
    using inv by (simp add: full_inv_def ready_queued_def live_current_def idle_ok_def)
  with False f assms(3) show ?thesis
    by (auto simp: SettleSwitchingOutThread_def settles_def Let_def)
qed

lemma full_inv_same_view:
  assumes "full_inv s Q" "same_view s t" "inv_with t Q"
  shows "full_inv t Q"
  using assms same_view_cores [OF assms(2)]
  by (simp add: full_inv_def ready_queued_def live_current_def idle_ok_def same_view_def)

lemma candidate_view:
  "candidate s c n \<longleftrightarrow> \<not> marks s n \<and> tstates s n \<noteq> Running \<and>
     (\<forall>d < PCU_CORES s. d \<noteq> c \<longrightarrow> current_thread s d \<noteq> n)"
  by (auto simp: candidate_def active_on_other_cpu_def marks_def tstates_def)

lemma takeable_queued:
  assumes "inv_with s Q" "n \<in> Q" "candidate s c n" "n \<noteq> current_thread s c"
  shows "takeable s c n"
  using assms runq_not_null [of s Q]
  by (auto simp: takeable_def inv_with_def candidate_def marks_def active_on_other_cpu_def
      intro: gr0I)

lemma takeable_idle:
  assumes "inv_with s Q" "c < PCU_CORES s" "idle_thread s c \<noteq> nullptr" "idle_thread s c \<noteq> current_thread s c"
    "switching_out_threads s c = nullptr"
  shows "takeable s c (idle_thread s c)"
proof -
  have v: "smp_view (PCU_CORES s) (current_thread s) (idle_thread s) (switching_out_threads s) (tstates s) (marks s)"
    using assms(1) by (simp add: inv_with_def)
  have "\<not> marks s (idle_thread s c)"
    using smp_viewD(7) [OF v assms(3)] smp_viewD(3) [OF v assms(2) _ _ assms(3)] assms(3,5) by metis
  with assms(2-4) smp_viewD(2,9) [OF v assms(2)] show ?thesis unfolding takeable_def by metis
qed

definition schedule_ok :: "sched \<Rightarrow> nat \<Rightarrow> sched_result \<Rightarrow> bool" where
  "schedule_ok s c r =
     (case r of
        Returned t \<Rightarrow> sched_inv t \<and> \<not> scheduler_lock t \<and> current_thread t c = current_thread s c
      | Switched old new t \<Rightarrow> old = current_thread s c \<and> new \<noteq> old \<and> sched_inv t \<and> \<not> scheduler_lock t \<and>
          current_thread t c = new \<and> tstates t new = Running
      | Spinning old t \<Rightarrow> old = current_thread s c \<and> idle_thread s c = nullptr \<and> sched_inv t \<and>
          \<not> scheduler_lock t
      | NoCurrent t \<Rightarrow> current_thread s c = nullptr)"

definition Schedule_pick :: "mcca \<Rightarrow> nat \<Rightarrow> ptr \<Rightarrow> sched \<Rightarrow> sched_result option" where
  "Schedule_pick m c old s =
     do { (new, s) \<leftarrow> PickNext m c s;
          if new \<noteq> nullptr then Schedule_commit m c old new s
          else if state (thr s old) = Running \<or> state (thr s old) = Ready
          then Schedule_commit m c old old s
          else if idle_thread s c \<noteq> nullptr
          then Schedule_commit m c old (idle_thread s c) s
          else Some (Spinning old (ReleaseSched s)) }"

lemma schedule_ok_same:
  assumes "full_inv s Q" "c < PCU_CORES s" "old = current_thread s c" "old \<noteq> nullptr"
    "tstates s old = Running \<or> tstates s old = Ready"
  shows "\<exists>r. Schedule_commit m c old old s = Some r \<and> schedule_ok s c r"
  using Schedule_commit_same [OF assms, of m] assms(3) by (auto simp: schedule_ok_def)

lemma schedule_ok_switch:
  assumes "full_inv s Q" "c < PCU_CORES s" "old = current_thread s c" "old \<noteq> nullptr"
    "switching_out_threads s c = nullptr" "takeable s c new" "new \<in> Q \<or> new = idle_thread s c"
    "tstates s new \<in> {Ready, Uninit}" "outgoing_done s c old Q"
  shows "\<exists>r. Schedule_commit m c old new s = Some r \<and> schedule_ok s c r"
  using Schedule_commit_switch [OF assms, of m] assms(3,6) by (auto simp: schedule_ok_def takeable_def)

lemma schedule_ok_picked:
  assumes inv: "full_inv s Q" and c: "c < PCU_CORES s" "old = current_thread s c" "old \<noteq> nullptr"
      "switching_out_threads s c = nullptr" and out: "outgoing_done s c old Q"
    and n: "n \<in> Q" "candidate s c n"
  shows "\<exists>r. Schedule_commit m c old n s = Some r \<and> schedule_ok s c r"
proof -
  have i: "inv_with s Q" using inv by (simp add: full_inv_def)
  have r: "tstates s n = Ready" using i n(1) by (simp add: inv_with_def)
  show ?thesis
  proof (cases "n = old")
    case True
    with r show ?thesis using schedule_ok_same [OF inv c(1-3)] by simp
  next
    case False
    with r n takeable_queued [OF i n] c(2) show ?thesis
      by (intro schedule_ok_switch [OF inv c _ _ _ out]) auto
  qed
qed

lemma schedule_ok_none:
  assumes inv: "full_inv s Q" and c: "c < PCU_CORES s" "old = current_thread s c" "old \<noteq> nullptr"
      "switching_out_threads s c = nullptr" and out: "outgoing_done s c old Q"
    and st: "tstates s old \<noteq> Running" "tstates s old \<noteq> Ready" and idle: "idle_thread s c \<noteq> nullptr"
  shows "\<exists>r. Schedule_commit m c old (idle_thread s c) s = Some r \<and> schedule_ok s c r"
proof -
  have i: "inv_with s Q" using inv by (simp add: full_inv_def)
  have "tstates s (idle_thread s c) \<in> {Ready, Running, Uninit}"
    using inv c(1) idle by (simp add: full_inv_def idle_ok_def)
  moreover have ne: "idle_thread s c \<noteq> old"
    using inv st c calculation by (auto simp: full_inv_def live_current_def)
  moreover have "tstates s (idle_thread s c) \<noteq> Running"
    using i idle ne c(1,2) unfolding inv_with_def by (metis smp_viewD(2,8))
  ultimately show ?thesis
    using takeable_idle [OF i c(1) idle _ c(4)] c(2)
    by (intro schedule_ok_switch [OF inv c _ _ _ out]) auto
qed

lemma schedule_ok_cong:
  assumes "current_thread t = current_thread s" "idle_thread t = idle_thread s"
  shows "schedule_ok t c r = schedule_ok s c r"
  using assms by (cases r) (simp_all add: schedule_ok_def)

lemma Schedule_pick_ok:
  assumes inv: "full_inv s Q" and c: "c < PCU_CORES s" "old = current_thread s c" "old \<noteq> nullptr"
      "switching_out_threads s c = nullptr" and out: "outgoing_done s c old Q"
  shows "\<exists>r. Schedule_pick m c old s = Some r \<and> schedule_ok s c r"
proof -
  obtain n t where p: "PickNext m c s = Some (n, t)" "inv_with t Q" "same_view s t"
    "n \<noteq> nullptr \<Longrightarrow> n \<in> Q \<and> eligible m s c n"
    using PickNext_inv [of s Q m c] inv by (auto simp: full_inv_def)
  note sv = same_view_cores [OF p(3)]
  have ts: "tstates t = tstates s" "marks t = marks s" "PCU_CORES t = PCU_CORES s"
    using p(3) by (simp_all add: same_view_def)
  have it: "full_inv t Q" by (rule full_inv_same_view [OF inv p(3,2)])
  have ct: "c < PCU_CORES t" "old = current_thread t c" "switching_out_threads t c = nullptr"
    using c sv ts by simp_all
  have ot: "outgoing_done t c old Q" using out sv ts by (simp add: outgoing_done_def)
  have nt: "n \<in> Q" "candidate t c n" if "n \<noteq> nullptr"
    using p(4) [OF that] by (simp_all add: eligible_def candidate_view sv ts)
  have ok: "schedule_ok t c r = schedule_ok s c r" for r
    by (rule schedule_ok_cong) (simp_all add: sv)
  have spin: "schedule_ok t c (Spinning old (ReleaseSched t))" if "idle_thread t c = nullptr"
    using that it ct by (auto simp: schedule_ok_def sched_inv_def full_inv_def)
  show ?thesis
  proof (cases "n = nullptr")
    case False
    with schedule_ok_picked [OF it ct(1,2) c(3) ct(3) ot nt, of m] p(1) show ?thesis
      by (simp add: Schedule_pick_def ok)
  next
    case True
    with schedule_ok_same [OF it ct(1,2) c(3), of m] schedule_ok_none [OF it ct(1,2) c(3) ct(3) ot, of m]
      spin p(1) show ?thesis
      by (simp add: Schedule_pick_def ok tstates_def)
  qed
qed

lemma Schedule_pick_eq:
  "Schedule env pg m omit c s =
     do { s \<leftarrow> AcquireSched s;
          s \<leftarrow> SettleSwitchingOutThread env pg c s;
          let old = current_thread s c;
          if old = nullptr then Some (NoCurrent s)
          else do { (keep, s) \<leftarrow> Schedule_outgoing m omit c old s;
                    if keep then Some (Returned (ReleaseSched s)) else Schedule_pick m c old s } }"
  unfolding Schedule_def Schedule_pick_def by (rule refl)

lemma Schedule_ok:
  assumes inv: "sched_inv s" and free: "\<not> scheduler_lock s" and c: "c < PCU_CORES s"
    and set: "settles s c"
  shows "\<exists>r. Schedule env pg m omit c s = Some r \<and> schedule_ok s c r"
proof -
  let ?l = "s\<lparr>scheduler_lock := True\<rparr>"
  obtain Q where Q: "full_inv ?l Q" using inv by (auto simp: sched_inv_def full_inv_def)
  have "settles ?l c" using set by (simp add: settles_def)
  then obtain t where t: "SettleSwitchingOutThread env pg c ?l = Some t" "full_inv t Q"
    "switching_out_threads t c = nullptr" "current_thread t = current_thread s"
    "idle_thread t = idle_thread s" "PCU_CORES t = PCU_CORES s"
    using Settle_inv [OF Q, of c env pg] c by auto
  show ?thesis
  proof (cases "current_thread s c = nullptr")
    case True
    then show ?thesis using free t by (simp add: Schedule_pick_eq schedule_ok_def)
  next
    case False
    define old where "old = current_thread t c"
    have o: "c < PCU_CORES t" "old = current_thread t c" "old \<noteq> nullptr"
      using c t False by (simp_all add: old_def)
    have "outgoing_ok t c old (Schedule_outgoing m omit c old t)"
      by (rule Schedule_outgoing_inv [where Q = Q, OF _ _ _ o]) (use t(2) in \<open>simp_all add: full_inv_def\<close>)
    then obtain keep u R where u: "Schedule_outgoing m omit c old t = Some (keep, u)" "same_cores t u"
      "inv_with u R" "ready_queued u R" "live_current u"
      "tstates u = tstates t \<or> tstates u = (tstates t)(old := Ready)" "\<not> keep \<Longrightarrow> outgoing_done u c old R"
      unfolding outgoing_ok_def by blast
    note sc = same_coresD [OF u(2)]
    have "idle_ok u" using u(6) t(2) sc by (elim disjE) (simp_all add: full_inv_def idle_ok_def)
    with u have fu: "full_inv u R" by (simp add: full_inv_def)
    have e: "Schedule env pg m omit c s =
        (if keep then Some (Returned (ReleaseSched u)) else Schedule_pick m c old u)"
      using free t(1) o(3) u(1) by (simp add: Schedule_pick_eq old_def [symmetric])
    have so: "schedule_ok u c r = schedule_ok s c r" for r
      using sc t by (intro schedule_ok_cong) simp_all
    have "schedule_ok s c (Returned (ReleaseSched u))"
      using fu sc t by (auto simp: schedule_ok_def sched_inv_def full_inv_def)
    moreover have "\<exists>r. Schedule_pick m c old u = Some r \<and> schedule_ok s c r" if "\<not> keep"
      using Schedule_pick_ok [OF fu, of c old m] o sc t(3) u(7) that by (simp add: so)
    ultimately show ?thesis using e by auto
  qed
qed

end
