(* ===== verification/Sched_System.thy ===== *)
theory Sched_System
  imports Sched_Ops
begin

text \<open>
  The scheduler as a transition system: any core may run any of the lock-protected operations, in
  any order. The invariant of theory \<open>Sched_Inv\<close> holds in every reachable state.
\<close>

section \<open>Blocking, waking and registering keep the invariant\<close>

lemma full_inv_states:
  assumes "full_inv s Q" "same_cores s t" "inv_with t R"
    and "\<And>p. p \<noteq> nullptr \<Longrightarrow> tstates t p = Ready \<Longrightarrow> p \<in> R \<or> p \<in> idle_thread s ` {..<PCU_CORES s}"
    and "\<And>p. tstates t p \<in> {Uninit, Exited} \<Longrightarrow> tstates s p \<in> {Uninit, Exited}"
    and "\<And>p. p \<in> idle_thread s ` {..<PCU_CORES s} \<Longrightarrow> tstates t p = tstates s p"
  shows "full_inv t R"
  using assms same_coresD [OF assms(2)]
  unfolding full_inv_def ready_queued_def live_current_def idle_ok_def
  by (metis imageI lessThan_iff)

lemma full_inv_lock [simp]:
  "full_inv (s\<lparr>scheduler_lock := l\<rparr>) Q = full_inv s Q" "full_inv (ReleaseSched s) Q = full_inv s Q"
  by (simp_all add: full_inv_def)

lemma full_invD:
  assumes "full_inv s Q"
  shows "inv_with s Q" "ready_queued s Q" "live_current s" "idle_ok s"
  using assms by (simp_all add: full_inv_def)

lemma Block_full:
  assumes inv: "full_inv s Q" and free: "\<not> scheduler_lock s"
    and th: "th \<noteq> nullptr" "th \<notin> idle_thread s ` {..<PCU_CORES s}" "tstates s th \<noteq> Ready"
  shows "\<exists>s'. Block th reason s = Some s' \<and> full_inv s' (Q - {th}) \<and> \<not> scheduler_lock s'"
proof -
  obtain s' where s': "Block th reason s = Some s'" "inv_with s' (Q - {th})" "\<not> scheduler_lock s'"
    "same_cores s s'" "tstates s' = (if pending_wake (thr s th) AND reason \<noteq> 0 then tstates s
                                     else (tstates s)(th := Pended))"
    using Block_inv [OF full_invD(1) [OF inv] free th(1), of reason] by blast
  have "full_inv s' (Q - {th})"
    by (rule full_inv_states [OF inv s'(4,2)])
      (use full_invD(2) [OF inv] th in \<open>auto simp: s'(5) ready_queued_def split: if_splits\<close>)
  with s' show ?thesis by blast
qed

lemma Unblock_full:
  assumes inv: "full_inv s Q" and free: "\<not> scheduler_lock s"
    and th: "th \<noteq> nullptr" "th \<notin> idle_thread s ` {..<PCU_CORES s}"
  shows "\<exists>s'. Unblock m cpuid th reason s = Some s' \<and> \<not> scheduler_lock s' \<and>
    full_inv s' (if wakes s th reason then insert th Q else Q)"
proof -
  obtain s' where s': "Unblock m cpuid th reason s = Some s'" "\<not> scheduler_lock s'"
    "inv_with s' (if wakes s th reason then insert th Q else Q)" "same_cores s s'"
    "tstates s' = (if wakes s th reason then (tstates s)(th := Ready) else tstates s)"
    using Unblock_inv [OF full_invD(1) [OF inv] free th] by blast
  have "full_inv s' (if wakes s th reason then insert th Q else Q)"
    by (rule full_inv_states [OF inv s'(4,3)])
      (use full_invD(2) [OF inv] th in \<open>auto simp: s'(5) ready_queued_def split: if_splits\<close>)
  with s' show ?thesis by blast
qed

lemma UnblockThread_full:
  assumes inv: "full_inv s Q" and free: "\<not> scheduler_lock s"
    and ch: "nullptr \<notin> set (thchain s)" "set (thchain s) \<inter> idle_thread s ` {..<PCU_CORES s} = {}"
  shows "\<exists>r s'. UnblockThread m cpuid i reason s = Some (r, s') \<and> sched_inv s' \<and> \<not> scheduler_lock s'"
proof (cases "List.find (\<lambda>th. tid (thr s th) = i) (thchain s)")
  case None
  with inv free show ?thesis by (auto simp: UnblockThread_def sched_inv_def)
next
  case (Some th)
  then have "th \<in> set (thchain s)" by (auto dest: find_eq_SomeD)
  then have th: "th \<noteq> nullptr" "th \<notin> idle_thread s ` {..<PCU_CORES s}" using ch by (metis, blast)
  obtain s' where "Unblock m cpuid th reason s = Some s'" "sched_inv s'" "\<not> scheduler_lock s'"
    using Unblock_full [OF inv free th, of m cpuid reason] by (auto simp: sched_inv_def)
  then obtain u where "UnblockThreadLocked m cpuid th reason (s\<lparr>scheduler_lock := True\<rparr>) = Some u"
    "s' = ReleaseSched u" "sched_inv (ReleaseSched u)"
    using free by (auto simp: Unblock_def)
  with Some inv free show ?thesis
    by (auto simp: UnblockThread_def sched_inv_def)
qed

definition append_prepare :: "mcca \<Rightarrow> ptr \<Rightarrow> sched \<Rightarrow> sched" where
  "append_prepare m task s =
     (let pb = parent_process (thr s task);
          s = (if pb \<noteq> nullptr \<and> main_thread (procs s pb) = task
               then upd_thr task (\<lambda>t. t\<lparr>tid := pid (procs s pb)\<rparr>) s
               else let (i, s) = fetch_add_id s in upd_thr task (\<lambda>t. t\<lparr>tid := i\<rparr>) s);
          s = (if m = MCCA_8632 then RequireSchedulableKernelStackMetadata s task else s)
      in s\<lparr>thchain := thchain s @ [task]\<rparr>)"

lemma AppendThread_eq:
  "AppendThread m task s = do { s \<leftarrow> AcquireSched s;
     Some (ReleaseSched (EnqueueReadyUnlocked m task
       (upd_thr task (\<lambda>t. t\<lparr>state := Ready\<rparr>) (append_prepare m task s)))) }"
  unfolding AppendThread_def append_prepare_def by (simp only: Let_def unlocked_queue_ops Option.bind.bind_lunit)

lemma append_prepare_view: "same_view s (append_prepare m task s)"
  by (auto simp: append_prepare_def same_view_def Let_def fetch_add_id_def upd_thr_def tstates_def marks_def
      RequireSchedulableKernelStackMetadata_def fun_eq_iff)

lemma append_prepare_inv [simp]: "inv_with (append_prepare m task s) Q = inv_with s Q"
  by (simp add: append_prepare_def Let_def fetch_add_id_def)

lemma AppendThread_full:
  assumes inv: "full_inv s Q" and free: "\<not> scheduler_lock s"
    and th: "th \<noteq> nullptr" "th \<notin> idle_thread s ` {..<PCU_CORES s}" "th \<notin> Q"
  shows "\<exists>s'. AppendThread m th s = Some s' \<and> full_inv s' (insert th Q) \<and> \<not> scheduler_lock s' \<and>
    tstates s' th = Ready"
proof -
  let ?l = "s\<lparr>scheduler_lock := True\<rparr>"
  let ?u = "append_prepare m th ?l"
  let ?t = "EnqueueReadyUnlocked m th (upd_thr th (\<lambda>t. t\<lparr>state := Ready\<rparr>) ?u)"
  have v: "same_view ?l ?u" by (rule append_prepare_view)
  have f: "current_thread ?u = current_thread s" "idle_thread ?u = idle_thread s" "tstates ?u = tstates s"
    "PCU_CORES ?u = PCU_CORES s" "PCU_CORES_PERCORE ?u = PCU_CORES_PERCORE s" "marks ?u = marks s"
    using v same_view_cores [OF v] by (simp_all add: same_view_def)
  have "inv_with ?u Q" using full_invD(1) [OF inv] by simp
  from inv_wake(1) [OF this th(1,3), of m] have i: "inv_with ?t (insert th Q)" using th f by simp
  have "full_inv ?t (insert th Q)"
    by (rule full_inv_states [OF inv _ i])
      (use full_invD(2) [OF inv] th in \<open>auto simp: f same_cores_def ready_queued_def split: if_splits\<close>)
  then show ?thesis using free by (simp add: AppendThread_eq f)
qed

section \<open>Going to sleep\<close>

lemma SleepAndRelease_commit_ok:
  assumes inv: "full_inv s Q" and c: "c < PCU_CORES s" "old = current_thread s c" "old \<noteq> nullptr"
      "switching_out_threads s c = nullptr" "old \<notin> Q" "tstates s old \<noteq> Running" "tstates s old \<noteq> Ready"
    and new: "takeable s c new" "new \<in> Q \<or> new = idle_thread s c"
  shows "\<exists>t. SleepAndRelease_commit m c old new s = Some (Switched old new t) \<and> sched_inv t \<and>
    \<not> scheduler_lock t \<and> current_thread t c = new \<and> tstates t new = Running"
proof -
  have nq: "new \<noteq> nullptr" using new(1) by (simp add: takeable_def)
  note i = full_invD(1) [OF inv]
  define v where "v = switch_to m c new s"
  define u where "u = (if new \<noteq> idle_thread v c then DequeueReadyUnlocked new v else v)"
  define w where "w = upd_thr new (\<lambda>t. t\<lparr>state := Running\<rparr>) u"
  define t where "t = switch_from c old w"
  have pc: "PCU_CORES_PERCORE s c \<noteq> None" using i c(1) by (simp add: inv_with_def)
  note fv = switch_frame [OF pc nq, of m, folded v_def]
  have "runq v Q" using i by (simp add: fv inv_with_def)
  then have ru: "runq u (Q - {new})"
    using ready_q.remq_law [of v Q new] nq i c(1) by (auto simp: u_def fv inv_with_def)
  have fw: "current_thread w = (current_thread s)(c := new)" "idle_thread w = idle_thread s"
    "switching_out_threads w = switching_out_threads s" "marks w = marks s"
    "tstates w = (tstates s)(new := Running)" "PCU_CORES w = PCU_CORES s"
    "(PCU_CORES_PERCORE w d = None) = (PCU_CORES_PERCORE s d = None)" "runq w (Q - {new})" for d
    using ru by (simp_all add: w_def u_def fv)
  have pw: "PCU_CORES_PERCORE w c \<noteq> None" using pc fw(7) [of c] by simp
  have sw: "switched s c (tstates s old) new t" "runq t (Q - {new})"
    using switch_from_frame [OF pw, of old] fw c(2) by (simp_all add: t_def switched_def)
  have "inv_with t (Q - {new})"
    by (rule inv_switch [OF i c(1) _ c(4) new(1) _ _ sw]) (use c in auto)
  moreover have "ready_queued t (Q - {new})"
    by (rule switch_ready_queued [OF full_invD(2) [OF inv] _ c(1) _ sw(1)])
      (use c new in \<open>auto simp: takeable_def\<close>)
  moreover have "live_current t"
    by (rule switch_live_current [OF i full_invD(3) [OF inv] sw(1) new(1) c(1)]) (use c in auto)
  moreover have "idle_ok t"
    using full_invD(4) [OF inv] sw(1) c(2) by (auto simp: idle_ok_def switched_def)
  ultimately have "sched_inv (ReleaseSched t)" by (auto simp: sched_inv_def full_inv_def)
  moreover have "SleepAndRelease_commit m c old new s = Some (Switched old new (ReleaseSched t))"
    by (simp add: SleepAndRelease_commit_def Let_def v_def [symmetric] t_def w_def u_def)
  ultimately show ?thesis using sw(1) by (simp add: switched_def)
qed

lemma SleepAndRelease_ok:
  assumes inv: "sched_inv s" and free: "\<not> scheduler_lock s" and c: "c < PCU_CORES s"
      "old = current_thread s c" "old \<noteq> nullptr" "old \<noteq> idle_thread s c"
    and st: "tstates s old \<noteq> Running" "tstates s old \<noteq> Ready" and set: "settles s c"
  shows "\<exists>r. SleepAndRelease env pg m c s = Some r \<and> schedule_ok s c r"
proof -
  let ?l = "s\<lparr>scheduler_lock := True\<rparr>"
  obtain Q where Q: "full_inv ?l Q" using inv by (auto simp: sched_inv_def)
  have "settles ?l c" using set by (simp add: settles_def)
  then obtain t where t: "SettleSwitchingOutThread env pg c ?l = Some t" "full_inv t Q"
    "switching_out_threads t c = nullptr" "current_thread t = current_thread s"
    "idle_thread t = idle_thread s" "tstates t = tstates s" "PCU_CORES t = PCU_CORES s"
    using Settle_inv [OF Q, of c env pg] c by auto
  define u where "u = DequeueReadyUnlocked old t"
  have oQ: "old \<notin> Q" using full_invD(1) [OF t(2)] st t(6) by (auto simp: inv_with_def)
  have iu: "inv_with u Q" using inv_deq [OF full_invD(1) [OF t(2)] c(3)] oQ by (simp add: u_def)
  have fu: "current_thread u = current_thread s" "idle_thread u = idle_thread s"
    "switching_out_threads u c = nullptr" "tstates u = tstates s" "PCU_CORES u = PCU_CORES s"
    using t by (simp_all add: u_def)
  obtain n v where p: "PickNext m c u = Some (n, v)" "inv_with v Q" "same_view u v"
    "n \<noteq> nullptr \<Longrightarrow> n \<in> Q \<and> eligible m u c n"
    using PickNext_inv [OF iu, of m c] by auto
  note sv = same_view_cores [OF p(3)]
  have ts: "tstates v = tstates s" "marks v = marks u" "PCU_CORES v = PCU_CORES s"
    using p(3) fu by (simp_all add: same_view_def)
  have "full_inv u Q"
    using t(2) iu fu t by (simp add: full_inv_def ready_queued_def live_current_def idle_ok_def)
  from full_inv_same_view [OF this p(3,2)] have fv: "full_inv v Q" .
  have cv: "c < PCU_CORES v" "old = current_thread v c" "switching_out_threads v c = nullptr"
    "idle_thread v = idle_thread s"
    using c sv fu ts by simp_all
  have go: "\<exists>r. SleepAndRelease_commit m c old new v = Some r \<and> schedule_ok s c r"
    if "takeable v c new" "new \<in> Q \<or> new = idle_thread v c" for new
    using SleepAndRelease_commit_ok [OF fv cv(1,2) c(3) cv(3) oQ _ _ that, of m] st ts c(2) that(1) cv(2)
    by (auto simp: schedule_ok_def takeable_def)
  have nt: "takeable v c n" "n \<in> Q" if "n \<noteq> nullptr"
    using p(4) [OF that] takeable_queued [OF p(2), of n c] oQ cv(2)
    by (auto simp: eligible_def candidate_view sv ts fu)
  have spin: "schedule_ok s c (Spinning old (ReleaseSched v))" if "idle_thread s c = nullptr"
    using that fv c by (auto simp: schedule_ok_def sched_inv_def)
  have e: "SleepAndRelease env pg m c s =
     (if n \<noteq> nullptr then SleepAndRelease_commit m c old n v
      else if idle_thread v c \<noteq> nullptr then SleepAndRelease_commit m c old (idle_thread v c) v
      else Some (Spinning old (ReleaseSched v)))"
    using free t(1) p(1) by (simp add: SleepAndRelease_def c(2) [symmetric] u_def [symmetric])
  show ?thesis
    using go [OF nt(1)] nt(2) go [OF takeable_idle [OF p(2) cv(1)]] spin c cv
    unfolding e by auto
qed

section \<open>The transition system\<close>

text \<open>
  One operation on one core. Each takes \<open>scheduler_lock\<close>, so each is one atomic step. A thread
  blocks itself while it runs; a thread sleeps after it has marked itself \<open>Pended\<close>; a new thread is
  registered once.
\<close>

inductive kstep :: "sched \<Rightarrow> sched \<Rightarrow> bool" where
  step_block: "Block (current_thread s c) reason s = Some s' \<Longrightarrow> c < PCU_CORES s \<Longrightarrow>
    current_thread s c \<noteq> nullptr \<Longrightarrow> current_thread s c \<noteq> idle_thread s c \<Longrightarrow>
    tstates s (current_thread s c) = Running \<Longrightarrow> kstep s s'"
| step_unblock: "Unblock m c th reason s = Some s' \<Longrightarrow> th \<noteq> nullptr \<Longrightarrow>
    th \<notin> idle_thread s ` {..<PCU_CORES s} \<Longrightarrow> kstep s s'"
| step_append: "AppendThread m th s = Some s' \<Longrightarrow> th \<noteq> nullptr \<Longrightarrow>
    th \<notin> idle_thread s ` {..<PCU_CORES s} \<Longrightarrow> tstates s th = Uninit \<Longrightarrow> kstep s s'"
| step_return: "Schedule env pg m omit c s = Some (Returned s') \<Longrightarrow> c < PCU_CORES s \<Longrightarrow>
    settles s c \<Longrightarrow> kstep s s'"
| step_switch: "Schedule env pg m omit c s = Some (Switched old new s') \<Longrightarrow> c < PCU_CORES s \<Longrightarrow>
    settles s c \<Longrightarrow> kstep s s'"
| step_sleep: "SleepAndRelease env pg m c s = Some (Switched old new s') \<Longrightarrow> c < PCU_CORES s \<Longrightarrow>
    settles s c \<Longrightarrow> current_thread s c \<noteq> nullptr \<Longrightarrow> current_thread s c \<noteq> idle_thread s c \<Longrightarrow>
    tstates s (current_thread s c) = Pended \<Longrightarrow> kstep s s'"

inductive_cases kstepE: "kstep s s'"

lemma kstep_inv:
  assumes "kstep s s'" "sched_inv s" "\<not> scheduler_lock s"
  shows "sched_inv s' \<and> \<not> scheduler_lock s'"
proof -
  obtain Q where Q: "full_inv s Q" using assms(2) by (auto simp: sched_inv_def)
  note i = full_invD [OF Q]
  from assms(1) show ?thesis
  proof cases
    case (step_block c reason)
    with Block_full [OF Q assms(3), of "current_thread s c" reason] current_not_idle [OF i(1), of c]
    show ?thesis by (auto simp: sched_inv_def)
  next
    case (step_unblock m c th reason)
    with Unblock_full [OF Q assms(3), of th m c reason] show ?thesis by (auto simp: sched_inv_def)
  next
    case (step_append m th)
    then have "th \<notin> Q" using i(1) by (auto simp: inv_with_def)
    with step_append AppendThread_full [OF Q assms(3), of th m] show ?thesis by (auto simp: sched_inv_def)
  next
    case (step_return env pg m omit c)
    with Schedule_ok [OF assms(2,3), of c env pg m omit] show ?thesis by (simp add: schedule_ok_def)
  next
    case (step_switch env pg m omit c old new)
    with Schedule_ok [OF assms(2,3), of c env pg m omit] show ?thesis by (simp add: schedule_ok_def)
  next
    case (step_sleep env pg m c old new)
    with SleepAndRelease_ok [OF assms(2,3), of c "current_thread s c" env pg m]
    show ?thesis by (simp add: schedule_ok_def)
  qed
qed

lemma reachable_inv:
  "kstep\<^sup>*\<^sup>* s s' \<Longrightarrow> sched_inv s \<Longrightarrow> \<not> scheduler_lock s \<Longrightarrow> sched_inv s' \<and> \<not> scheduler_lock s'"
  by (induction rule: rtranclp_induct) (auto dest: kstep_inv)

end
