(* ===== verification/Sched_Claims.thy ===== *)
theory Sched_Claims
  imports Sched_System
begin

text \<open>
  The correctness properties of the scheduler, each with a witness on a two-core sample state.
\<close>

section \<open>Sample states\<close>

definition sample_core :: "ptr \<Rightarrow> ptr \<Rightarrow> PERCORE" where
  "sample_core cur idl = \<lparr>pc_current_thread = cur, pc_idle_thread = idl,
     pc_switching_out_thread = nullptr, core_state = CoreOnline, kernel_rsp = 0, tss_sp0 = 0,
     tss_ss0 = 0, kernel_stack = 0\<rparr>"

text \<open>
  Core 0 runs thread 1 and has the idle thread 2; core 1 runs its idle thread 3. The queues are
  empty.
\<close>

definition sample :: sched where
  "sample = \<lparr>thr = (\<lambda>_. null_thread)(1 := null_thread\<lparr>state := Running\<rparr>,
       2 := null_thread\<lparr>state := Ready\<rparr>, 3 := null_thread\<lparr>state := Running\<rparr>),
     queue_state_prev = (\<lambda>_. nullptr), queue_state_next = (\<lambda>_. nullptr), procs = (\<lambda>_. null_process),
     priority_queues = (\<lambda>_. empty_queue), expired_queues = (\<lambda>_. empty_queue), ready_bitmap = 0,
     expired_bitmap = 0, PCU_CORES = 2,
     PCU_CORES_PERCORE = [0 \<mapsto> sample_core 1 2, 1 \<mapsto> sample_core 3 3], chain = [], thchain = [1, 2, 3],
     next_global_id = 4, scheduler_lock = False, ipi_log = [], freed = [], fatal = False\<rparr>"

lemma sample_fields:
  "scheduler_lock sample = False" "PCU_CORES sample = 2"
  "tstates sample = (\<lambda>_. Uninit)(1 := Running, 2 := Ready, 3 := Running)" "marks sample = (\<lambda>_. False)"
  "current_thread sample 0 = 1" "current_thread sample (Suc 0) = 3"
  "idle_thread sample 0 = 2" "idle_thread sample (Suc 0) = 3" "switching_out_threads sample d = nullptr"
  by (auto simp: sample_def tstates_def marks_def current_thread_def idle_thread_def
      switching_out_threads_def sample_core_def null_thread_def fun_eq_iff)

lemma less_2_cases: "(c :: nat) < 2 \<longleftrightarrow> c = 0 \<or> c = Suc 0"
  by auto

lemma sample_idles: "idle_thread sample ` {..<PCU_CORES sample} = {2, 3}"
  "idle_thread sample ` {..<2} = {2, 3}"
  by (simp_all add: sample_fields numeral_2_eq_2 lessThan_Suc insert_commute)

lemma sample_queues: "queues_ok sample (\<lambda>_. []) (\<lambda>_. [])"
  by (simp add: queues_ok_def queue_ok_def queued_def sample_def)

lemma sample_view:
  "smp_view 2 (current_thread sample) (idle_thread sample) (switching_out_threads sample)
     (tstates sample) (marks sample)"
  by (rule smp_viewI) (auto simp: sample_fields less_2_cases split: if_splits)

lemma sample_full: "full_inv sample {}"
proof -
  have "runq sample {}" unfolding runq_def
    by (rule exI [of _ "\<lambda>_. []"], rule exI [of _ "\<lambda>_. []"]) (simp add: sample_queues queued_def)
  moreover have "PCU_CORES_PERCORE sample c \<noteq> None" if "c < 2" for c
    using that by (auto simp: less_2_cases sample_def)
  ultimately have "inv_with sample {}" using sample_view by (simp add: inv_with_def sample_fields)
  moreover have "ready_queued sample {}" "live_current sample" "idle_ok sample"
    by (auto simp: ready_queued_def live_current_def idle_ok_def sample_fields less_2_cases image_iff
        intro: bexI [of _ 0])
  ultimately show ?thesis by (simp add: full_inv_def)
qed

lemma sample_inv: "sched_inv sample"
  using sample_full by (auto simp: sched_inv_def)

lemma sample_settles: "settles sample c"
  by (simp add: settles_def sample_fields)

text \<open>The sample with thread 4 ready in the queue of priority 0.\<close>

definition sample_queued :: sched where
  "sample_queued = EnqueueReadyUnlocked MCCA_8664 4 (upd_thr 4 (\<lambda>t. t\<lparr>state := Ready\<rparr>) sample)"

definition one_queue :: "nat \<Rightarrow> ptr list" where
  "one_queue = (\<lambda>_. [])(16 := [4])"

lemma sample_queued_ok: "queues_ok sample_queued one_queue (\<lambda>_. [])"
proof -
  let ?s = "upd_thr 4 (\<lambda>t. t\<lparr>state := Ready\<rparr>) sample"
  have "thr ?s 4 = null_thread\<lparr>state := Ready\<rparr>" by (simp add: upd_thr_def sample_def)
  moreover have "prio_idx 0 = 16" by (simp add: prio_idx_def)
  ultimately show ?thesis
    using EnqueueReadyUnlocked_ok [of ?s "\<lambda>_. []" "\<lambda>_. []" 4 MCCA_8664] sample_queues
    by (simp add: sample_queued_def one_queue_def enq_def schedulable_def null_thread_def)
qed

lemma one_queue_all: "concat (map one_queue [0..<32]) = [4]"
  by code_simp

lemma sample_queued_eligible: "eligible MCCA_8664 sample_queued 0 4"
proof -
  have "tstates sample_queued = (tstates sample)(4 := Ready)" "marks sample_queued = marks sample"
    "current_thread sample_queued = current_thread sample" "PCU_CORES sample_queued = 2"
    by (simp_all add: sample_queued_def sample_fields)
  then show ?thesis
    by (auto simp: eligible_def candidate_view runnable_here_def sample_fields less_2_cases)
qed

lemma one_queue_epoch [simp]:
  "epoch_active one_queue (\<lambda>_. []) = one_queue" "epoch_expired one_queue (\<lambda>_. []) = (\<lambda>_. [])"
  by (simp_all add: fun_eq_iff epoch_active_def epoch_expired_def epoch_due_def)

section \<open>Properties\<close>

text \<open>C1: On well-formed queues \<open>PickNext\<close> always returns, and its result is the first eligible
  thread of the queues read as lists in priority order, after the epoch swap; on the 32-bit build,
  if only core affinity stood in the way, it is the first eligible expired timeshared thread.\<close>

theorem PickNext_refines_pick:
  assumes "queues_ok s A E"
  defines "p \<equiv> \<lambda>m cpuid. pick m s cpuid (epoch_active A E) (epoch_expired A E)"
  shows "\<exists>s'. PickNext m cpuid s = Some (p m cpuid, s') \<and>
    queues_ok s' (epoch_active A E) (epoch_expired A E)"
proof -
  have "queues_ok (forget_switching_out n (swept A E s)) (epoch_active A E) (epoch_expired A E)" for n
    using queues_ok_swept [OF assms(1)] by (simp add: forget_switching_out_def split: option.split)
  then show ?thesis
    using PickNext_spec [OF assms(1) refl, of m cpuid] queues_ok_swept [OF assms(1)] by (simp add: p_def)
qed

theorem PickNext_refines_pick_witness:
  "\<exists>s'. PickNext MCCA_8664 0 sample_queued = Some (4, s')"
  using PickNext_refines_pick [OF sample_queued_ok, of MCCA_8664 0]
  by (auto simp: pick_def one_queue_all sample_queued_eligible)









text \<open>C18: \<open>DequeueReady\<close> removes the thread from whichever queue holds it, and nothing else: on the
  list view it is \<open>removeAll\<close> on every queue, and it changes nothing when the thread is not queued.\<close>

theorem DequeueReady_refines_remove:
  assumes "queues_ok s A E" "\<not> scheduler_lock s" "pb \<noteq> nullptr"
  shows "\<exists>s'. DequeueReady pb True s = Some s' \<and> \<not> scheduler_lock s' \<and>
    queues_ok s' (\<lambda>i. removeAll pb (A i)) (\<lambda>i. removeAll pb (E i)) \<and>
    (pb \<notin> queued A E \<longrightarrow> s' = s)"
proof -
  have l: "queues_ok (s\<lparr>scheduler_lock := True\<rparr>) A E" using assms(1) by simp
  have "DequeueReadyUnlocked pb (s\<lparr>scheduler_lock := True\<rparr>) = s\<lparr>scheduler_lock := True\<rparr>" if "pb \<notin> queued A E"
    by (rule DequeueReadyUnlocked_idle [OF l assms(3) that])
  moreover have "s\<lparr>scheduler_lock := False\<rparr> = s" using assms(2) by simp
  ultimately show ?thesis
    using DequeueReadyUnlocked_ok [OF l assms(3)] assms(2)
    by (simp add: DequeueReady_def deq_def [abs_def]) (simp add: ReleaseSched_def)
qed

theorem DequeueReady_refines_remove_witness:
  "\<exists>s'. DequeueReady 4 True sample_queued = Some s' \<and> queues_ok s' (\<lambda>_. []) (\<lambda>_. [])"
proof -
  have "(\<lambda>i. removeAll 4 (one_queue i)) = (\<lambda>_. [])" by (simp add: one_queue_def fun_eq_iff)
  then show ?thesis
    using DequeueReady_refines_remove [OF sample_queued_ok, of 4]
    by (auto simp: sample_queued_def sample_fields)
qed



section \<open>Timeslices\<close>

text \<open>Timer ticks on a core that nobody else schedules, until the thread has to give way.\<close>

primrec run_ticks :: "mcca \<Rightarrow> ptr \<Rightarrow> nat \<Rightarrow> sched \<Rightarrow> (bool \<times> sched) option" where
  "run_ticks m p 0 s = Some (True, s)"
| "run_ticks m p (Suc n) s =
     do { (keep, s) \<leftarrow> ifContinueProcess m p s;
          if keep then run_ticks m p n s else Some (False, s) }"

lemma run_ticks_keep:
  "state (thr s p) = Running \<Longrightarrow> n \<le> unat (time_slice (thr s p)) \<Longrightarrow>
   \<exists>s'. run_ticks m p n s = Some (True, s') \<and> state (thr s' p) = Running \<and>
     unat (time_slice (thr s' p)) = unat (time_slice (thr s p)) - n \<and>
     (\<forall>j. run_ticks m p (n + j) s = run_ticks m p j s')"
proof (induction n arbitrary: s)
  case 0
  then show ?case by simp
next
  case (Suc n)
  define t where "t = upd_thr p (\<lambda>t. t\<lparr>time_slice := time_slice t - 1\<rparr>) s"
  have pos: "time_slice (thr s p) > 0" using Suc.prems(2) by (simp add: word_gt_0 unat_gt_0 [symmetric])
  then have u: "unat (time_slice (thr s p) - 1) = unat (time_slice (thr s p)) - 1"
    by (simp add: unat_minus_one word_gt_0)
  have t: "ifContinueProcess m p s = Some (True, t)"
    using Suc.prems(1) pos by (simp add: ifContinueProcess_def t_def)
  have "state (thr t p) = Running" "unat (time_slice (thr t p)) = unat (time_slice (thr s p)) - 1"
    using Suc.prems(1) u by (simp_all add: t_def upd_thr_def)
  with Suc.IH [of t] Suc.prems(2) t show ?case by auto
qed

text \<open>C20: A running thread keeps its core for exactly as many ticks as its timeslice counts: it survives
  each of them, and the next tick makes it ready and gives way. No thread monopolises a core.\<close>

theorem timeslice_expires:
  assumes "state (thr s p) = Running" "n = unat (time_slice (thr s p))"
  shows "(\<forall>k \<le> n. \<exists>s'. run_ticks m p k s = Some (True, s')) \<and>
    (\<exists>s'. run_ticks m p (Suc n) s = Some (False, s') \<and> tstates s' p = Ready)"
proof -
  obtain s' where s': "state (thr s' p) = Running" "unat (time_slice (thr s' p)) = 0"
    "run_ticks m p (n + Suc 0) s = run_ticks m p (Suc 0) s'"
    using run_ticks_keep [OF assms(1), of n m] assms(2) by (metis diff_self_eq_0 order_refl)
  have "time_slice (thr s' p) = 0" using s'(2) by (simp add: unat_eq_0)
  then have "\<exists>t. run_ticks m p (Suc 0) s' = Some (False, t) \<and> tstates t p = Ready"
    using s'(1) by (simp add: ifContinueProcess_def Let_def ex_bool_eq)
  then show ?thesis using s'(3) run_ticks_keep [OF assms(1), of _ m] assms(2) by auto
qed

theorem timeslice_expires_witness:
  "\<exists>s'. run_ticks MCCA_8664 1 (Suc 0) sample = Some (False, s') \<and> tstates s' 1 = Ready"
proof -
  have "thr sample 1 = null_thread\<lparr>state := Running\<rparr>" by (simp add: sample_def)
  then show ?thesis using timeslice_expires [of sample 1 0 MCCA_8664] by (simp add: null_thread_def)
qed



section \<open>Two defects\<close>

lemma await_inactive_held:
  "scheduler_lock s \<Longrightarrow> thread_active th s \<Longrightarrow> await_inactive env th s = None"
  by (subst await_inactive.simps) (simp add: call_Schedule_def)

text \<open>C22: Error behaviour: when the thread a core has just switched away from is a detached thread that
  has exited, the next \<open>Schedule\<close> on that core never returns, because \<open>DestroyThread\<close> waits for a nested
  \<open>Schedule\<close> that needs the lock its caller already holds.\<close>

theorem Schedule_hangs_on_detached_exit:
  assumes "c < PCU_CORES s" "th = switching_out_threads s c" "th \<noteq> nullptr"
    "state (thr s th) = Hanging" "is_detached (thr s th)"
  shows "Schedule env pg m omit_slice c s = None"
proof -
  let ?l = "s\<lparr>scheduler_lock := True\<rparr>"
  have "thread_active th ?l" using assms(1,2) by (auto simp: thread_active_def)
  then have "DestroyThread env pg th ?l = None"
    using assms(3) await_inactive_held [of ?l th env] by (simp add: DestroyThread_def)
  then have "SettleSwitchingOutThread env pg c ?l = None"
    using assms by (simp add: SettleSwitchingOutThread_def Let_def)
  then show ?thesis by (simp add: Schedule_def AcquireSched_def)
qed

definition sample_exited :: sched where
  "sample_exited = sample\<lparr>thr := (thr sample)(5 := null_thread\<lparr>state := Hanging, is_detached := True\<rparr>),
     PCU_CORES_PERCORE := (PCU_CORES_PERCORE sample)
       (0 \<mapsto> (sample_core 1 2)\<lparr>pc_switching_out_thread := 5\<rparr>)\<rparr>"

theorem Schedule_hangs_on_detached_exit_witness:
  "Schedule Some (\<lambda>_ _. 0) MCCA_8664 False 0 sample_exited = None"
  by (rule Schedule_hangs_on_detached_exit [where th = 5])
    (simp_all add: sample_exited_def switching_out_threads_def sample_def)

text \<open>C23: A real-time thread (queue index below 16) that \<open>Schedule\<close> puts into an expired queue is never
  chosen again on the 64-bit build while it stays there: the scan ignores those queues and the epoch swap
  leaves them where they are.\<close>

theorem realtime_expired_starves:
  assumes ok: "queues_ok s A E" and i: "i < 16" "p \<in> set (E i)"
  shows "\<exists>n s'. PickNext MCCA_8664 cpuid s = Some (n, s') \<and> n \<noteq> p \<and>
    queues_ok s' (epoch_active A E) (epoch_expired A E) \<and> p \<in> set (epoch_expired A E i)"
proof -
  let ?n = "pick MCCA_8664 s cpuid (epoch_active A E) (epoch_expired A E)"
  note oks = queues_ok_swept [OF ok]
  have pe: "p \<in> set (epoch_expired A E i)" using i by (simp add: epoch_expired_def)
  have "p \<notin> set (epoch_active A E j)" if "j < 32" for j
    using queued_idx [OF oks that] queued_idx [OF oks, of i p] pe i
      queue_ok_dll(3) [OF queues_okD [OF oks that]] by (cases "j = i") auto
  then have "p \<notin> set (concat (map (epoch_active A E) [0..<32]))" by auto
  moreover have "p \<in> queued A E" using i by (auto simp: queued_def intro!: bexI [of _ i])
  then have "p \<noteq> nullptr" using queued_not_null [OF ok] by metis
  ultimately have "?n \<noteq> p"
    by (auto simp: pick_def split: option.split dest!: find_eq_SomeD)
  moreover have "queues_ok (forget_switching_out n (swept A E s)) (epoch_active A E) (epoch_expired A E)" for n
    using oks by (simp add: forget_switching_out_def split: option.split)
  ultimately show ?thesis using PickNext_spec [OF ok refl, of MCCA_8664 cpuid] oks pe by auto
qed

definition sample_expired :: sched where
  "sample_expired = EnqueueExpiredUnlocked MCCA_8664 4
     (upd_thr 4 (\<lambda>t. t\<lparr>state := Ready, priority := - 1\<rparr>) sample)"

theorem realtime_expired_starves_witness:
  "\<exists>n s'. PickNext MCCA_8664 0 sample_expired = Some (n, s') \<and> n \<noteq> 4"
proof -
  let ?s = "upd_thr 4 (\<lambda>t. t\<lparr>state := Ready, priority := - 1\<rparr>) sample"
  have "thr ?s 4 = null_thread\<lparr>state := Ready, priority := - 1\<rparr>" by (simp add: upd_thr_def sample_def)
  moreover have "queues_ok ?s (\<lambda>_. []) (\<lambda>_. [])"
    by (simp add: upd_thr_def queues_ok_def queue_ok_def queued_def sample_def)
  moreover have "prio_idx (- 1) = 15" by (simp add: prio_idx_def)
  ultimately have "queues_ok sample_expired (\<lambda>_. []) ((\<lambda>_. [])(15 := [4]))"
    using EnqueueExpiredUnlocked_ok [of ?s "\<lambda>_. []" "\<lambda>_. []" 4 MCCA_8664]
    by (simp add: sample_expired_def enq_def schedulable_def)
  from realtime_expired_starves [OF this, of 15 4 0] show ?thesis by auto
qed

end
