(* ===== verification/Vtd.thy ===== *)
theory Vtd
  imports Prelude
begin

text \<open>
  The VT-d part of \<^verbatim>\<open>src/mecocoa/memoman-iova.cpp\<close>: register access, the invalidation queue,
  interrupt remapping, the scan of the DMAR table and the pass-through tables. The hardware unit is a
  parameter: a state of any type \<open>'h\<close> with the functions of the record \<open>vtd_hw\<close> (register reads and
  writes, the completion word the unit writes, the mapping of its register window). The page
  allocator is a parameter too: the field \<open>pool\<close> holds the addresses its next calls return, 0 for
  failure. Every loop that waits for the hardware is bounded, as in the source.
\<close>

section \<open>Constants\<close>

definition kDmarHardwareUnit :: uint16 where "kDmarHardwareUnit = 0"
definition kDmarReservedMemory :: uint16 where "kDmarReservedMemory = 1"
definition kDmarIncludeAll :: uint8 where "kDmarIncludeAll = 1"
definition kVtdVersionRegister :: nat where "kVtdVersionRegister = 0x00"
definition kVtdCapabilityRegister :: nat where "kVtdCapabilityRegister = 0x08"
definition kVtdExtendedCapabilityRegister :: nat where "kVtdExtendedCapabilityRegister = 0x10"
definition VtdGlobalCommandRegister :: nat where "VtdGlobalCommandRegister = 0x18"
definition kVtdGlobalStatusRegister :: nat where "kVtdGlobalStatusRegister = 0x1C"
definition kVtdRootTableAddressRegister :: nat where "kVtdRootTableAddressRegister = 0x20"
definition VtdContextCommandRegister :: nat where "VtdContextCommandRegister = 0x28"
definition kVtdFaultStatusRegister :: nat where "kVtdFaultStatusRegister = 0x34"
definition VtdInvalidationQueueHeadRegister :: nat where "VtdInvalidationQueueHeadRegister = 0x80"
definition VtdInvalidationQueueTailRegister :: nat where "VtdInvalidationQueueTailRegister = 0x88"
definition VtdInvalidationQueueAddressRegister :: nat where "VtdInvalidationQueueAddressRegister = 0x90"
definition VtdInterruptRemappingTableAddressRegister :: nat where
  "VtdInterruptRemappingTableAddressRegister = 0xB8"
definition kVtdRegisterWindowLength :: uint64 where "kVtdRegisterWindowLength = 0xC0"
definition VtdPageAddressMask :: uint64 where "VtdPageAddressMask = NOT (PAGE_SIZE - 1)"
definition VtdContextCommandInvalidate :: uint64 where "VtdContextCommandInvalidate = push_bit 63 1"
definition VtdContextCommandGlobal :: uint64 where "VtdContextCommandGlobal = push_bit 61 1"
definition VtdIotlbCommandInvalidate :: uint64 where "VtdIotlbCommandInvalidate = push_bit 63 1"
definition VtdIotlbCommandGlobal :: uint64 where "VtdIotlbCommandGlobal = push_bit 60 1"
definition VtdIotlbReadDrain :: uint64 where "VtdIotlbReadDrain = push_bit 49 1"
definition VtdIotlbWriteDrain :: uint64 where "VtdIotlbWriteDrain = push_bit 48 1"
definition VtdGlobalCommandEnableTranslation :: uint32 where
  "VtdGlobalCommandEnableTranslation = push_bit 31 1"
definition VtdGlobalCommandSetRoot :: uint32 where "VtdGlobalCommandSetRoot = push_bit 30 1"
definition VtdGlobalCommandEnableQueuedInvalidation :: uint32 where
  "VtdGlobalCommandEnableQueuedInvalidation = push_bit 26 1"
definition VtdGlobalCommandEnableInterruptRemapping :: uint32 where
  "VtdGlobalCommandEnableInterruptRemapping = push_bit 25 1"
definition VtdGlobalCommandSetInterruptRemappingTable :: uint32 where
  "VtdGlobalCommandSetInterruptRemappingTable = push_bit 24 1"
definition VtdGlobalCommandCompatibilityInterrupts :: uint32 where
  "VtdGlobalCommandCompatibilityInterrupts = push_bit 23 1"
definition VtdGlobalStatusTranslationEnabled :: uint32 where
  "VtdGlobalStatusTranslationEnabled = push_bit 31 1"
definition VtdGlobalStatusRootSet :: uint32 where "VtdGlobalStatusRootSet = push_bit 30 1"
definition VtdGlobalStatusQueuedInvalidation :: uint32 where
  "VtdGlobalStatusQueuedInvalidation = push_bit 26 1"
definition VtdGlobalStatusInterruptRemapping :: uint32 where
  "VtdGlobalStatusInterruptRemapping = push_bit 25 1"
definition VtdGlobalStatusInterruptRemappingTableSet :: uint32 where
  "VtdGlobalStatusInterruptRemappingTableSet = push_bit 24 1"
definition VtdGlobalStatusCompatibilityInterrupts :: uint32 where
  "VtdGlobalStatusCompatibilityInterrupts = push_bit 23 1"
definition VtdInvalidationQueueFaults :: uint32 where
  "VtdInvalidationQueueFaults = push_bit 4 1 OR push_bit 5 1 OR push_bit 6 1"
definition VtdInterruptRemappingExtendedMode :: uint64 where
  "VtdInterruptRemappingExtendedMode = push_bit 11 1"
definition VtdInterruptCacheInvalidationType :: uint64 where "VtdInterruptCacheInvalidationType = 4"
definition VtdInterruptCacheInvalidationSelective :: uint64 where
  "VtdInterruptCacheInvalidationSelective = push_bit 4 1"
definition VtdInvalidationWaitType :: uint64 where "VtdInvalidationWaitType = 5"
definition VtdInvalidationWaitStatusWrite :: uint64 where
  "VtdInvalidationWaitStatusWrite = push_bit 5 1"
definition VtdInvalidationStatusPending :: uint32 where "VtdInvalidationStatusPending = 1"
definition VtdInvalidationStatusComplete :: uint32 where "VtdInvalidationStatusComplete = 2"
definition VtdRootPresent :: uint64 where "VtdRootPresent = 1"
definition VtdContextPresent :: uint64 where "VtdContextPresent = 1"
definition VtdContextPassthrough :: uint64 where "VtdContextPassthrough = push_bit 2 2"
definition VtdPageRead :: uint64 where "VtdPageRead = 1"
definition VtdPageWrite :: uint64 where "VtdPageWrite = push_bit 1 1"
definition VtdAddressWidth48 :: nat where "VtdAddressWidth48 = 2"
definition VtdPassthroughDomain :: uint16 where "VtdPassthroughDomain = 1"
definition VtdFirstTranslatedDomain :: uint16 where "VtdFirstTranslatedDomain = 2"
definition VtdCommandTimeoutSpins :: nat where "VtdCommandTimeoutSpins = 1000000"
definition IovaStartAddress :: uint64 where "IovaStartAddress = 0x00100000"
definition IovaDomainCapacity :: nat where "IovaDomainCapacity = 8"
definition IovaMappingCapacity :: nat where "IovaMappingCapacity = 48"
definition IovaTableCapacity :: nat where "IovaTableCapacity = 64"
definition VtdInterruptRemappingTableCapacity :: nat where "VtdInterruptRemappingTableCapacity = 256"
definition VtdInterruptRemappingTableSize :: uint64 where "VtdInterruptRemappingTableSize = 7"
definition VtdInvalidationQueueLength :: uint64 where "VtdInvalidationQueueLength = 256"

section \<open>Data\<close>

text \<open>The fields of a device node that this component reads, and the tree of nodes.\<close>

record DevFields =
  node_type :: uint16
  pci_segment :: uint16
  pci_bus :: uint8
  pci_device :: uint8
  pci_function :: uint8

datatype DeviceNode = DeviceNode (fields: DevFields) (children: "DeviceNode list")

definition PciDevice :: uint16 where "PciDevice = 5"

record IovaRange =
  r_active :: bool
  r_device_address :: uint64
  r_physical :: uint64
  r_length :: uint64

definition null_range :: IovaRange where
  "null_range = \<lparr>r_active = False, r_device_address = 0, r_physical = 0, r_length = 0\<rparr>"

text \<open>\<open>d_tables\<close> is the array \<open>tables\<close> up to \<open>table_count\<close>; addresses are physical.\<close>

record IovaDomain =
  d_active :: bool
  d_attached :: bool
  d_device :: ptr
  d_domain_id :: uint16
  d_root :: uint64
  d_tables :: "uint64 list"
  d_mappings :: "IovaRange list"

definition null_domain :: IovaDomain where
  "null_domain = \<lparr>d_active = False, d_attached = False, d_device = nullptr, d_domain_id = 0, d_root = 0,
     d_tables = [], d_mappings = replicate IovaMappingCapacity null_range\<rparr>"

record VtdState =
  probe_complete :: bool
  passthrough_enabled :: bool
  interrupt_remapping_enabled :: bool
  extended_interrupt_mode :: bool
  include_all :: bool
  dmar_flags :: uint8
  host_address_width :: uint8
  segment :: uint16
  hardware_unit_count :: nat
  registers :: uint64
  capability :: uint64
  extended_capability :: uint64
  root_table :: uint64
  interrupt_remapping_table :: uint64
  invalidation_queue :: uint64
  invalidation_completion :: uint64
  invalidation_queue_length :: uint64
  invalidation_queue_shift :: nat
  interrupt_remapping_allocated :: "bool list"
  context_table_count :: nat
  device_count :: nat

definition null_vtd :: VtdState where
  "null_vtd = \<lparr>probe_complete = False, passthrough_enabled = False, interrupt_remapping_enabled = False,
     extended_interrupt_mode = False, include_all = False, dmar_flags = 0, host_address_width = 0,
     segment = 0, hardware_unit_count = 0, registers = 0, capability = 0, extended_capability = 0,
     root_table = 0, interrupt_remapping_table = 0, invalidation_queue = 0, invalidation_completion = 0,
     invalidation_queue_length = 0, invalidation_queue_shift = 0,
     interrupt_remapping_allocated = replicate VtdInterruptRemappingTableCapacity False,
     context_table_count = 0, device_count = 0\<rparr>"

text \<open>The hardware unit: reads of a register may change its state, as reads of volatile memory do.
  \<open>hw_completion\<close> gives the completion word as a read finds it, from the value it last had.\<close>

record 'h vtd_hw =
  hw_read :: "uint64 \<Rightarrow> nat \<Rightarrow> 'h \<Rightarrow> uint32 \<times> 'h"
  hw_write :: "uint64 \<Rightarrow> nat \<Rightarrow> uint32 \<Rightarrow> 'h \<Rightarrow> 'h"
  hw_completion :: "uint32 \<Rightarrow> 'h \<Rightarrow> uint32 \<times> 'h"
  hw_map_window :: "uint64 \<Rightarrow> bool"

text \<open>
  The state of the file: its globals, the hardware, the memory of its tables (page address and
  index of the 64-bit word in the page), the words of the invalidation queue by byte offset, the
  allocator and the pages given back to it.
\<close>

record 'h iommu =
  vtd_state :: VtdState
  iova_domains :: "IovaDomain list"
  hw :: 'h
  pages :: "uint64 \<Rightarrow> nat \<Rightarrow> uint64"
  iqueue :: "nat \<Rightarrow> uint64"
  completion :: uint32
  pool :: "uint64 list"
  released :: "(uint64 \<times> uint64) list"

definition upd_vtd :: "(VtdState \<Rightarrow> VtdState) \<Rightarrow> 'h iommu \<Rightarrow> 'h iommu" where
  "upd_vtd f s = s\<lparr>vtd_state := f (vtd_state s)\<rparr>"

definition set_word :: "uint64 \<Rightarrow> nat \<Rightarrow> uint64 \<Rightarrow> 'h iommu \<Rightarrow> 'h iommu" where
  "set_word t i v s = s\<lparr>pages := (pages s)(t := (pages s t)(i := v))\<rparr>"

definition clear_page :: "uint64 \<Rightarrow> 'h iommu \<Rightarrow> 'h iommu" where
  "clear_page t s = s\<lparr>pages := (pages s)(t := (\<lambda>_. 0))\<rparr>"

definition allocate :: "'h iommu \<Rightarrow> uint64 \<times> 'h iommu" where
  "allocate s = (case pool s of [] \<Rightarrow> (0, s) | a # as \<Rightarrow> (a, s\<lparr>pool := as\<rparr>))"

definition deallocate :: "uint64 \<Rightarrow> uint64 \<Rightarrow> 'h iommu \<Rightarrow> 'h iommu" where
  "deallocate a n s = s\<lparr>released := released s @ [(a, n)]\<rparr>"

section \<open>Registers\<close>

definition ReadRegister32 :: "'h vtd_hw \<Rightarrow> uint64 \<Rightarrow> nat \<Rightarrow> 'h iommu \<Rightarrow> uint32 \<times> 'h iommu" where
  "ReadRegister32 D base off s = (let (v, h) = hw_read D base off (hw s) in (v, s\<lparr>hw := h\<rparr>))"

definition ReadRegister64 :: "'h vtd_hw \<Rightarrow> uint64 \<Rightarrow> nat \<Rightarrow> 'h iommu \<Rightarrow> uint64 \<times> 'h iommu" where
  "ReadRegister64 D base off s =
     (let (low, s) = ReadRegister32 D base off s;
          (high, s) = ReadRegister32 D base (off + 4) s
      in (ucast low OR push_bit 32 (ucast high), s))"

definition WriteRegister32 :: "'h vtd_hw \<Rightarrow> uint64 \<Rightarrow> nat \<Rightarrow> uint32 \<Rightarrow> 'h iommu \<Rightarrow> 'h iommu" where
  "WriteRegister32 D base off v s = s\<lparr>hw := hw_write D base off v (hw s)\<rparr>"

definition WriteRegister64 :: "'h vtd_hw \<Rightarrow> uint64 \<Rightarrow> nat \<Rightarrow> uint64 \<Rightarrow> 'h iommu \<Rightarrow> 'h iommu" where
  "WriteRegister64 D base off v s =
     WriteRegister32 D base (off + 4) (ucast (drop_bit 32 v)) (WriteRegister32 D base off (ucast v) s)"

fun wait_loop32 :: "'h vtd_hw \<Rightarrow> nat \<Rightarrow> uint64 \<Rightarrow> nat \<Rightarrow> uint32 \<Rightarrow> uint32 \<Rightarrow> 'h iommu \<Rightarrow> bool \<times> 'h iommu" where
  "wait_loop32 D 0 base off msk expected s = (False, s)"
| "wait_loop32 D (Suc n) base off msk expected s =
     (let (v, s) = ReadRegister32 D base off s
      in if v AND msk = expected then (True, s) else wait_loop32 D n base off msk expected s)"

definition WaitRegister32 :: "'h vtd_hw \<Rightarrow> uint64 \<Rightarrow> nat \<Rightarrow> uint32 \<Rightarrow> uint32 \<Rightarrow> 'h iommu \<Rightarrow> bool \<times> 'h iommu" where
  "WaitRegister32 D = wait_loop32 D VtdCommandTimeoutSpins"

fun wait_loop64 :: "'h vtd_hw \<Rightarrow> nat \<Rightarrow> uint64 \<Rightarrow> nat \<Rightarrow> uint64 \<Rightarrow> 'h iommu \<Rightarrow> bool \<times> 'h iommu" where
  "wait_loop64 D 0 base off msk s = (False, s)"
| "wait_loop64 D (Suc n) base off msk s =
     (let (v, s) = ReadRegister64 D base off s
      in if v AND msk = 0 then (True, s) else wait_loop64 D n base off msk s)"

definition WaitRegister64Clear :: "'h vtd_hw \<Rightarrow> uint64 \<Rightarrow> nat \<Rightarrow> uint64 \<Rightarrow> 'h iommu \<Rightarrow> bool \<times> 'h iommu" where
  "WaitRegister64Clear D = wait_loop64 D VtdCommandTimeoutSpins"

definition VtdPersistentCommand :: "uint32 \<Rightarrow> uint32" where
  "VtdPersistentCommand status =
     (if status AND VtdGlobalStatusTranslationEnabled \<noteq> 0 then VtdGlobalCommandEnableTranslation else 0) OR
     (if status AND VtdGlobalStatusQueuedInvalidation \<noteq> 0
      then VtdGlobalCommandEnableQueuedInvalidation else 0) OR
     (if status AND VtdGlobalStatusInterruptRemapping \<noteq> 0
      then VtdGlobalCommandEnableInterruptRemapping else 0) OR
     (if status AND VtdGlobalStatusCompatibilityInterrupts \<noteq> 0
      then VtdGlobalCommandCompatibilityInterrupts else 0)"

definition SetVtdFeature :: "'h vtd_hw \<Rightarrow> uint32 \<Rightarrow> uint32 \<Rightarrow> bool \<Rightarrow> 'h iommu \<Rightarrow> bool \<times> 'h iommu" where
  "SetVtdFeature D command_bit status_bit enabled s =
     (let regs = registers (vtd_state s);
          (status, s) = ReadRegister32 D regs kVtdGlobalStatusRegister s;
          command = VtdPersistentCommand status;
          command = (if enabled then command OR command_bit else command AND NOT command_bit);
          s = WriteRegister32 D regs VtdGlobalCommandRegister command s
      in WaitRegister32 D regs kVtdGlobalStatusRegister status_bit (if enabled then status_bit else 0) s)"

definition PhysicalRangeFits :: "uint64 \<Rightarrow> uint64 \<Rightarrow> uint8 \<Rightarrow> bool" where
  "PhysicalRangeFits address len address_width =
     (if address_width = 0 \<or> address_width > 64 \<or> len = 0 then False
      else if address + len < address then False
      else if address_width = 64 then True
      else let limit = push_bit (unat address_width) 1
           in address < limit \<and> len \<le> limit - address)"

section \<open>Queued invalidation\<close>

definition put_descriptor :: "nat \<Rightarrow> nat \<Rightarrow> uint64 \<Rightarrow> uint64 \<Rightarrow> (nat \<Rightarrow> uint64) \<Rightarrow> nat \<Rightarrow> uint64" where
  "put_descriptor off len lo hi q =
     (\<lambda>o'. if o' = off then lo else if o' = off + 8 then hi
           else if off \<le> o' \<and> o' < off + len then 0 else q o')"

fun poll_loop :: "'h vtd_hw \<Rightarrow> nat \<Rightarrow> uint64 \<Rightarrow> 'h iommu \<Rightarrow> bool \<times> 'h iommu" where
  "poll_loop D 0 regs s = (False, s)"
| "poll_loop D (Suc n) regs s =
     (let (faults, s) = ReadRegister32 D regs kVtdFaultStatusRegister s
      in if faults AND VtdInvalidationQueueFaults \<noteq> 0 then (False, s)
         else let (c, h) = hw_completion D (completion s) (hw s); s = s\<lparr>hw := h, completion := c\<rparr>
              in if c = VtdInvalidationStatusComplete then (True, s) else poll_loop D n regs s)"

definition SubmitQueuedInvalidation :: "'h vtd_hw \<Rightarrow> uint64 \<Rightarrow> uint64 \<Rightarrow> 'h iommu \<Rightarrow> bool \<times> 'h iommu" where
  "SubmitQueuedInvalidation D descriptor_low descriptor_high s =
     (let v = vtd_state s; regs = registers v in
      if invalidation_queue v = 0 \<or> invalidation_completion v = 0 then (False, s)
      else let (status, s) = ReadRegister32 D regs kVtdGlobalStatusRegister s in
      if status AND VtdGlobalStatusQueuedInvalidation = 0 then (False, s)
      else let descriptor_length = push_bit (invalidation_queue_shift v) (1 :: uint64);
               queue_mask = ucast (invalidation_queue_length v - 1) :: uint32;
               (t, s) = ReadRegister32 D regs VtdInvalidationQueueTailRegister s;
               tail = t AND queue_mask in
      if ucast tail AND (descriptor_length - 1) \<noteq> 0 \<or>
         ucast tail + descriptor_length > invalidation_queue_length v then (False, s)
      else let wait_tail = (tail + ucast descriptor_length) AND queue_mask;
               next = (wait_tail + ucast descriptor_length) AND queue_mask;
               (h, s) = ReadRegister32 D regs VtdInvalidationQueueHeadRegister s;
               head = h AND queue_mask in
      if wait_tail = head \<or> next = head then (False, s)
      else let q = put_descriptor (unat tail) (unat descriptor_length) descriptor_low descriptor_high (iqueue s);
               q = put_descriptor (unat wait_tail) (unat descriptor_length)
                     (VtdInvalidationWaitType OR VtdInvalidationWaitStatusWrite OR
                      push_bit 32 (ucast VtdInvalidationStatusComplete))
                     (invalidation_completion v) q;
               s = s\<lparr>iqueue := q, completion := VtdInvalidationStatusPending\<rparr>;
               s = WriteRegister32 D regs VtdInvalidationQueueTailRegister next s
           in poll_loop D VtdCommandTimeoutSpins regs s)"

definition SubmitInterruptCacheInvalidation ::
    "'h vtd_hw \<Rightarrow> uint16 \<Rightarrow> uint8 \<Rightarrow> bool \<Rightarrow> 'h iommu \<Rightarrow> bool \<times> 'h iommu" where
  "SubmitInterruptCacheInvalidation D index msk selective s =
     (let descriptor = VtdInterruptCacheInvalidationType;
          descriptor = (if selective
            then descriptor OR VtdInterruptCacheInvalidationSelective OR
                 push_bit 27 (ucast (msk AND 0x1F)) OR push_bit 32 (ucast index)
            else descriptor)
      in SubmitQueuedInvalidation D descriptor 0 s)"

definition ReleaseInterruptRemappingStorage :: "'h iommu \<Rightarrow> 'h iommu" where
  "ReleaseInterruptRemappingStorage s =
     (let s = (if invalidation_queue (vtd_state s) \<noteq> 0
               then upd_vtd (\<lambda>v. v\<lparr>invalidation_queue := 0, invalidation_queue_length := 0\<rparr>)
                      (deallocate (invalidation_queue (vtd_state s))
                         (invalidation_queue_length (vtd_state s)) s) else s);
          s = (if invalidation_completion (vtd_state s) \<noteq> 0
               then upd_vtd (\<lambda>v. v\<lparr>invalidation_completion := 0\<rparr>)
                      (deallocate (invalidation_completion (vtd_state s)) PAGE_SIZE s) else s);
          s = (if interrupt_remapping_table (vtd_state s) \<noteq> 0
               then upd_vtd (\<lambda>v. v\<lparr>interrupt_remapping_table := 0\<rparr>)
                      (deallocate (interrupt_remapping_table (vtd_state s)) PAGE_SIZE s) else s)
      in upd_vtd (\<lambda>v. v\<lparr>interrupt_remapping_allocated :=
                          replicate VtdInterruptRemappingTableCapacity False,
                        interrupt_remapping_enabled := False, extended_interrupt_mode := False\<rparr>) s)"

definition DisableInterruptRemappingForRollback :: "'h vtd_hw \<Rightarrow> bool \<Rightarrow> 'h iommu \<Rightarrow> bool \<times> 'h iommu" where
  "DisableInterruptRemappingForRollback D compatibility_enabled_before s =
     (let regs = registers (vtd_state s);
          (status, s) = ReadRegister32 D regs kVtdGlobalStatusRegister s;
          (ok, s) = (if status AND VtdGlobalStatusInterruptRemapping \<noteq> 0
                     then SetVtdFeature D VtdGlobalCommandEnableInterruptRemapping
                            VtdGlobalStatusInterruptRemapping False s
                     else (True, s)) in
      if \<not> ok then (False, s)
      else let (status, s) = ReadRegister32 D regs kVtdGlobalStatusRegister s;
               (ok, s) = (if status AND VtdGlobalStatusQueuedInvalidation \<noteq> 0
                          then SetVtdFeature D VtdGlobalCommandEnableQueuedInvalidation
                                 VtdGlobalStatusQueuedInvalidation False s
                          else (True, s)) in
      if \<not> ok then (False, s)
      else let (status, s) = ReadRegister32 D regs kVtdGlobalStatusRegister s;
               compatibility_enabled = (status AND VtdGlobalStatusCompatibilityInterrupts \<noteq> 0) in
      if compatibility_enabled \<noteq> compatibility_enabled_before
      then SetVtdFeature D VtdGlobalCommandCompatibilityInterrupts
             VtdGlobalStatusCompatibilityInterrupts compatibility_enabled_before s
      else (True, s))"

definition rollback_remapping :: "'h vtd_hw \<Rightarrow> bool \<Rightarrow> 'h iommu \<Rightarrow> bool \<times> 'h iommu" where
  "rollback_remapping D before s =
     (let (ok, s) = DisableInterruptRemappingForRollback D before s
      in (False, if ok then ReleaseInterruptRemappingStorage s else s))"

definition release_if :: "uint64 \<Rightarrow> uint64 \<Rightarrow> 'h iommu \<Rightarrow> 'h iommu" where
  "release_if a n s = (if a \<noteq> 0 then deallocate a n s else s)"

definition EnableVtdInterruptRemapping :: "'h vtd_hw \<Rightarrow> 'h iommu \<Rightarrow> bool \<times> 'h iommu" where
  "EnableVtdInterruptRemapping D s =
     (let v = vtd_state s; regs = registers v in
      if \<not> probe_complete v \<or> \<not> passthrough_enabled v then (False, s)
      else if interrupt_remapping_enabled v then (True, s)
      else if invalidation_queue v \<noteq> 0 \<or> interrupt_remapping_table v \<noteq> 0 then (False, s)
      else if dmar_flags v AND 1 = 0 \<or> \<not> bit (extended_capability v) 3 \<or>
              \<not> bit (extended_capability v) 1 \<or> extended_capability v AND 1 = 0 then (False, s)
      else let scalable_queue = bit (extended_capability v) 43;
               (status, s) = ReadRegister32 D regs kVtdGlobalStatusRegister s;
               before = (status AND VtdGlobalStatusCompatibilityInterrupts \<noteq> 0);
               queue_shift = (if scalable_queue then 5 else 4);
               queue_length = push_bit queue_shift VtdInvalidationQueueLength;
               (queue, s) = allocate s;
               (cmpl, s) = allocate s;
               (table, s) = allocate s in
      if queue = 0 \<or> cmpl = 0 \<or> table = 0 \<or>
         \<not> PhysicalRangeFits queue queue_length (host_address_width v) \<or>
         \<not> PhysicalRangeFits cmpl PAGE_SIZE (host_address_width v) \<or>
         \<not> PhysicalRangeFits table PAGE_SIZE (host_address_width v)
      then (False, release_if table PAGE_SIZE (release_if cmpl PAGE_SIZE (release_if queue queue_length s)))
      else let s = clear_page table (s\<lparr>iqueue := (\<lambda>_. 0), completion := 0\<rparr>);
               s = upd_vtd (\<lambda>v. v\<lparr>invalidation_queue := queue, invalidation_completion := cmpl,
                     invalidation_queue_length := queue_length, invalidation_queue_shift := queue_shift,
                     interrupt_remapping_table := table\<rparr>) s;
               s = WriteRegister32 D regs VtdInvalidationQueueTailRegister 0 s;
               queue_address = (if scalable_queue then queue OR push_bit 11 1 else queue);
               s = WriteRegister64 D regs VtdInvalidationQueueAddressRegister queue_address s;
               (ok, s) = SetVtdFeature D VtdGlobalCommandEnableQueuedInvalidation
                           VtdGlobalStatusQueuedInvalidation True s in
      if \<not> ok then rollback_remapping D before s
      else let s = WriteRegister64 D regs VtdInterruptRemappingTableAddressRegister
                     (table OR VtdInterruptRemappingTableSize) s;
               (status, s) = ReadRegister32 D regs kVtdGlobalStatusRegister s;
               command = VtdPersistentCommand status OR VtdGlobalCommandSetInterruptRemappingTable OR
                         VtdGlobalCommandCompatibilityInterrupts;
               s = WriteRegister32 D regs VtdGlobalCommandRegister command s;
               both = VtdGlobalStatusInterruptRemappingTableSet OR VtdGlobalStatusCompatibilityInterrupts;
               (ok, s) = WaitRegister32 D regs kVtdGlobalStatusRegister both both s;
               (ok, s) = (if ok then SubmitInterruptCacheInvalidation D 0 0 False s else (False, s)) in
      if \<not> ok then rollback_remapping D before s
      else let (ok, s) = SetVtdFeature D VtdGlobalCommandEnableInterruptRemapping
                           VtdGlobalStatusInterruptRemapping True s in
      if \<not> ok then rollback_remapping D before s
      else (True, upd_vtd (\<lambda>v. v\<lparr>extended_interrupt_mode := False,
                                 interrupt_remapping_enabled := True\<rparr>) s))"

section \<open>The DMAR table\<close>

definition MapRegisterWindow :: "'h vtd_hw \<Rightarrow> uint64 \<Rightarrow> bool" where
  "MapRegisterWindow D register_base \<longleftrightarrow>
     \<not> (register_base + kVtdRegisterWindowLength < register_base \<or>
        register_base AND (PAGE_SIZE - 1) \<noteq> 0) \<and> hw_map_window D register_base"

text \<open>
  Byte \<open>i\<close> of a table, and little-endian fields. The scan reads through these; that it never reads
  past the table is a theorem, so a read outside yields \<open>None\<close> here.
\<close>

definition byte_at :: "uint8 list \<Rightarrow> nat \<Rightarrow> uint8 option" where
  "byte_at bs i = (if i < length bs then Some (bs ! i) else None)"

definition u16_at :: "uint8 list \<Rightarrow> nat \<Rightarrow> uint16 option" where
  "u16_at bs i = do { a \<leftarrow> byte_at bs i; b \<leftarrow> byte_at bs (i + 1);
                      Some (ucast a OR push_bit 8 (ucast b)) }"

fun le64 :: "uint8 list \<Rightarrow> uint64" where
  "le64 [] = 0"
| "le64 (b # bs) = ucast b OR push_bit 8 (le64 bs)"

definition u64_at :: "uint8 list \<Rightarrow> nat \<Rightarrow> uint64 option" where
  "u64_at bs i = (if i + 8 \<le> length bs then Some (le64 (take 8 (drop i bs))) else None)"

text \<open>The list of device scopes: \<open>None\<close> would be a read outside the entry.\<close>

function LogDeviceScopes :: "uint8 list \<Rightarrow> bool option" where
  "LogDeviceScopes bs =
     (if bs = [] then Some True
      else if length bs < 6 then Some False
      else do { l \<leftarrow> byte_at bs 1;
                if unat l < 6 \<or> unat l > length bs \<or> (unat l - 6) mod 2 \<noteq> 0 then Some False
                else LogDeviceScopes (drop (unat l) bs) })"
  by auto
termination by (relation "measure length") (auto split: if_splits)

declare LogDeviceScopes.simps [simp del]

definition ProbeHardwareUnit ::
    "'h vtd_hw \<Rightarrow> uint8 list \<Rightarrow> nat \<Rightarrow> 'h iommu \<Rightarrow> (bool \<times> 'h iommu) option" where
  "ProbeHardwareUnit D unit index s =
     do { flags \<leftarrow> byte_at unit 4;
          seg \<leftarrow> u16_at unit 6;
          register_base \<leftarrow> u64_at unit 8;
          scopes \<leftarrow> LogDeviceScopes (drop 16 unit);
          if \<not> scopes \<or> \<not> MapRegisterWindow D register_base then Some (False, s)
          else let (version, s) = ReadRegister32 D register_base kVtdVersionRegister s;
                   (cap, s) = ReadRegister64 D register_base kVtdCapabilityRegister s;
                   (ext, s) = ReadRegister64 D register_base kVtdExtendedCapabilityRegister s;
                   (gsts, s) = ReadRegister32 D register_base kVtdGlobalStatusRegister s;
                   (rt, s) = ReadRegister64 D register_base kVtdRootTableAddressRegister s;
                   (fs, s) = ReadRegister32 D register_base kVtdFaultStatusRegister s
               in Some (True, if index = 0
                              then upd_vtd (\<lambda>v. v\<lparr>include_all := (flags AND kDmarIncludeAll \<noteq> 0),
                                     segment := seg, registers := register_base, capability := cap,
                                     extended_capability := ext\<rparr>) s
                              else s) }"

definition ProbeReservedMemory :: "uint8 list \<Rightarrow> bool option" where
  "ProbeReservedMemory entry = LogDeviceScopes (drop 24 entry)"

text \<open>
  The loop over the DMAR entries. \<open>Inl\<close> is an early return of false; \<open>Inr\<close> carries the two counters,
  the accumulated success flag and the state.
\<close>

function scan_dmar :: "'h vtd_hw \<Rightarrow> uint8 list \<Rightarrow> nat \<Rightarrow> nat \<Rightarrow> bool \<Rightarrow> 'h iommu \<Rightarrow>
    ('h iommu + nat \<times> nat \<times> bool \<times> 'h iommu) option" where
  "scan_dmar D bs units ranges ok s =
     (if bs = [] then Some (Inr (units, ranges, ok, s))
      else if length bs < 4 then Some (Inl s)
      else do {
        ty \<leftarrow> u16_at bs 0;
        len \<leftarrow> u16_at bs 2;
        let n = unat len;
        if n < 4 \<or> n > length bs then Some (Inl s)
        else if ty = kDmarHardwareUnit then
          if n < 16 then Some (Inl s)
          else do { (r, s) \<leftarrow> ProbeHardwareUnit D (take n bs) units s;
                    scan_dmar D (drop n bs) (units + 1) ranges (ok \<and> r) s }
        else if ty = kDmarReservedMemory then
          if n < 24 then Some (Inl s)
          else do { r \<leftarrow> ProbeReservedMemory (take n bs);
                    scan_dmar D (drop n bs) units (ranges + 1) (ok \<and> r) s }
        else scan_dmar D (drop n bs) units ranges ok s })"
  by auto
termination by (relation "measure (\<lambda>(D, bs, _). length bs)") (auto split: if_splits)

declare scan_dmar.simps [simp del]

text \<open>The length and validity of the ACPI header are those of the ACPI library, hence parameters.\<close>

definition ProbeVtd :: "'h vtd_hw \<Rightarrow> (uint8 list \<Rightarrow> nat) \<Rightarrow> (uint8 list \<Rightarrow> bool) \<Rightarrow> uint8 list option \<Rightarrow>
    'h iommu \<Rightarrow> (bool \<times> 'h iommu) option" where
  "ProbeVtd D header_length header_valid dmar s =
     (let s = s\<lparr>vtd_state := null_vtd, iova_domains := replicate IovaDomainCapacity null_domain\<rparr> in
      case dmar of
        None \<Rightarrow> Some (False, s)
      | Some table \<Rightarrow>
          if header_length table < 48 \<or> \<not> header_valid table then Some (False, s)
          else do {
            width \<leftarrow> byte_at table 36;
            flags \<leftarrow> byte_at table 37;
            let s = upd_vtd (\<lambda>v. v\<lparr>dmar_flags := flags, host_address_width := width + 1\<rparr>) s;
            r \<leftarrow> scan_dmar D (drop 48 (take (header_length table) table)) 0 0 True s;
            case r of
              Inl s \<Rightarrow> Some (False, s)
            | Inr (units, ranges, ok, s) \<Rightarrow>
                if units = 0 \<or> \<not> ok then Some (False, s)
                else Some (True, upd_vtd (\<lambda>v. v\<lparr>hardware_unit_count := units,
                                                probe_complete := True\<rparr>) s) })"

section \<open>Pass-through contexts\<close>

text \<open>A root or context entry is a pair of words: entry \<open>e\<close> of a table is words \<open>2 e\<close> and \<open>2 e + 1\<close>.\<close>

definition GetContextTable :: "uint64 \<Rightarrow> uint8 \<Rightarrow> 'h iommu \<Rightarrow> uint64" where
  "GetContextTable root bus s = pages s root (2 * unat bus) AND VtdPageAddressMask"

definition EnsureContextTable :: "uint64 \<Rightarrow> uint8 \<Rightarrow> nat \<Rightarrow> 'h iommu \<Rightarrow> uint64 \<times> nat \<times> 'h iommu" where
  "EnsureContextTable root bus table_count s =
     (if pages s root (2 * unat bus) AND VtdRootPresent \<noteq> 0
      then (GetContextTable root bus s, table_count, s)
      else let (table, s) = allocate s in
        if table = 0 then (0, table_count, s)
        else if \<not> PhysicalRangeFits table PAGE_SIZE (host_address_width (vtd_state s))
        then (0, table_count, deallocate table PAGE_SIZE s)
        else let s = clear_page table s;
                 s = set_word root (2 * unat bus + 1) 0 s;
                 s = set_word root (2 * unat bus) (table OR VtdRootPresent) s
             in (table, table_count + 1, s))"

definition requester_of :: "DevFields \<Rightarrow> nat" where
  "requester_of f = unat (pci_device f) * 8 + unat (pci_function f)"

definition passthrough_high :: uint64 where
  "passthrough_high = push_bit 8 (ucast VtdPassthroughDomain) OR of_nat VtdAddressWidth48"

definition populate_context :: "DevFields \<Rightarrow> uint64 \<Rightarrow> nat \<Rightarrow> nat \<Rightarrow> 'h iommu \<Rightarrow> bool \<times> nat \<times> nat \<times> 'h iommu" where
  "populate_context f root tables devices s =
     (if node_type f = PciDevice then
        if pci_segment f \<noteq> segment (vtd_state s) then (False, tables, devices, s)
        else if pci_device f \<ge> 32 \<or> pci_function f \<ge> 8 then (False, tables, devices, s)
        else let (table, tables, s) = EnsureContextTable root (pci_bus f) tables s in
          if table = 0 then (False, tables, devices, s)
          else let r = requester_of f in
            if pages s table (2 * r) AND VtdContextPresent \<noteq> 0 then (False, tables, devices, s)
            else let s = set_word table (2 * r + 1) passthrough_high s;
                     s = set_word table (2 * r) (VtdContextPassthrough OR VtdContextPresent) s
                 in (True, tables, devices + 1, s)
      else (True, tables, devices, s))"

fun PopulatePassthroughContexts :: "DeviceNode \<Rightarrow> uint64 \<Rightarrow> nat \<Rightarrow> nat \<Rightarrow> 'h iommu \<Rightarrow> bool \<times> nat \<times> nat \<times> 'h iommu"
  and populate_children :: "DeviceNode list \<Rightarrow> uint64 \<Rightarrow> nat \<Rightarrow> nat \<Rightarrow> 'h iommu \<Rightarrow> bool \<times> nat \<times> nat \<times> 'h iommu" where
  "PopulatePassthroughContexts (DeviceNode f cs) root tables devices s =
     (let (ok, tables, devices, s) = populate_context f root tables devices s
      in if ok then populate_children cs root tables devices s else (False, tables, devices, s))"
| "populate_children [] root tables devices s = (True, tables, devices, s)"
| "populate_children (c # cs) root tables devices s =
     (let (ok, tables, devices, s) = PopulatePassthroughContexts c root tables devices s
      in if ok then populate_children cs root tables devices s else (False, tables, devices, s))"

definition release_bus :: "uint64 \<Rightarrow> nat \<Rightarrow> 'h iommu \<Rightarrow> 'h iommu" where
  "release_bus root bus s =
     (if pages s root (2 * bus) AND VtdRootPresent = 0 then s
      else let table = pages s root (2 * bus) AND VtdPageAddressMask;
               s = set_word root (2 * bus) 0 s;
               s = set_word root (2 * bus + 1) 0 s
           in deallocate table PAGE_SIZE s)"

definition ReleasePassthroughTables :: "uint64 \<Rightarrow> 'h iommu \<Rightarrow> 'h iommu" where
  "ReleasePassthroughTables root s =
     (if root = 0 then s
      else deallocate root PAGE_SIZE (fold (release_bus root) [0..<256] s))"

definition iotlb_offset_of :: "VtdState \<Rightarrow> nat" where
  "iotlb_offset_of v = unat (drop_bit 8 (extended_capability v) AND 0x3FF) * 16"

definition InvalidateVtdCaches :: "'h vtd_hw \<Rightarrow> 'h iommu \<Rightarrow> bool \<times> 'h iommu" where
  "InvalidateVtdCaches D s =
     (let v = vtd_state s; regs = registers v;
          (status, s) = ReadRegister32 D regs kVtdGlobalStatusRegister s in
      if status AND VtdGlobalStatusQueuedInvalidation \<noteq> 0 then
        let context_descriptor = 1 OR push_bit 4 1;
            iotlb_descriptor = 2 OR push_bit 4 1 OR
              (if bit (capability v) 55 then push_bit 7 1 else 0) OR
              (if bit (capability v) 54 then push_bit 6 1 else 0);
            (ok, s) = SubmitQueuedInvalidation D context_descriptor 0 s
        in if \<not> ok then (False, s) else SubmitQueuedInvalidation D iotlb_descriptor 0 s
      else
        let s = WriteRegister64 D regs VtdContextCommandRegister
                  (VtdContextCommandInvalidate OR VtdContextCommandGlobal) s;
            (ok, s) = WaitRegister64Clear D regs VtdContextCommandRegister VtdContextCommandInvalidate s in
        if \<not> ok then (False, s)
        else let iotlb_offset = iotlb_offset_of v in
        if iotlb_offset + 16 > unat PAGE_SIZE then (False, s)
        else let command = VtdIotlbCommandInvalidate OR VtdIotlbCommandGlobal OR
                   (if bit (capability v) 55 then VtdIotlbReadDrain else 0) OR
                   (if bit (capability v) 54 then VtdIotlbWriteDrain else 0);
                 s = WriteRegister64 D regs (iotlb_offset + 8) command s
             in WaitRegister64Clear D regs (iotlb_offset + 8) VtdIotlbCommandInvalidate s)"

text \<open>The hand-over of the root table to the unit: any failure keeps the table referenced and disabled.\<close>

definition activate_root :: "'h vtd_hw \<Rightarrow> uint64 \<Rightarrow> 'h iommu \<Rightarrow> bool \<times> 'h iommu" where
  "activate_root D root s =
     (let regs = registers (vtd_state s);
          s = WriteRegister64 D regs kVtdRootTableAddressRegister root s;
          s = WriteRegister32 D regs VtdGlobalCommandRegister VtdGlobalCommandSetRoot s;
          (ok, s) = WaitRegister32 D regs kVtdGlobalStatusRegister VtdGlobalStatusRootSet
                      VtdGlobalStatusRootSet s in
      if \<not> ok then (False, snd (ReadRegister32 D regs kVtdGlobalStatusRegister s))
      else let (loaded, s) = ReadRegister64 D regs kVtdRootTableAddressRegister s in
      if loaded AND VtdPageAddressMask \<noteq> root then (False, s)
      else let (ok, s) = InvalidateVtdCaches D s in
      if \<not> ok then (False, s)
      else let (faults, s) = ReadRegister32 D regs kVtdFaultStatusRegister s in
      if faults \<noteq> 0 then (False, s)
      else let s = WriteRegister32 D regs VtdGlobalCommandRegister VtdGlobalCommandEnableTranslation s;
               (ok, s) = WaitRegister32 D regs kVtdGlobalStatusRegister
                           VtdGlobalStatusTranslationEnabled VtdGlobalStatusTranslationEnabled s in
      if \<not> ok then (False, snd (ReadRegister32 D regs kVtdGlobalStatusRegister s))
      else let (faults, s) = ReadRegister32 D regs kVtdFaultStatusRegister s in
      if faults \<noteq> 0
      then let s = WriteRegister32 D regs VtdGlobalCommandRegister 0 s;
               (_, s) = WaitRegister32 D regs kVtdGlobalStatusRegister
                          VtdGlobalStatusTranslationEnabled 0 s
           in (False, snd (ReadRegister32 D regs kVtdGlobalStatusRegister s))
      else (True, s))"

definition EnableVtdPassthrough :: "'h vtd_hw \<Rightarrow> DeviceNode option \<Rightarrow> 'h iommu \<Rightarrow> bool \<times> 'h iommu" where
  "EnableVtdPassthrough D pci_root s =
     (let v = vtd_state s; regs = registers v in
      if \<not> probe_complete v then (True, s)
      else if passthrough_enabled v then (True, s)
      else if root_table v \<noteq> 0 then (False, s)
      else case pci_root of None \<Rightarrow> (False, s) | Some tree \<Rightarrow>
      if hardware_unit_count v \<noteq> 1 \<or> \<not> include_all v then (False, s)
      else if \<not> bit (extended_capability v) 6 then (False, s)
      else if extended_capability v AND 1 = 0 then (False, s)
      else if \<not> bit (capability v) (8 + VtdAddressWidth48) then (False, s)
      else if iotlb_offset_of v + 16 > unat PAGE_SIZE then (False, s)
      else let (status, s) = ReadRegister32 D regs kVtdGlobalStatusRegister s in
      if status AND (VtdGlobalStatusTranslationEnabled OR VtdGlobalStatusQueuedInvalidation OR
                     VtdGlobalStatusInterruptRemapping) \<noteq> 0 then (False, s)
      else let (faults, s) = ReadRegister32 D regs kVtdFaultStatusRegister s in
      if faults \<noteq> 0 then (False, s)
      else let (root, s) = allocate s in
      if root = 0 then (False, s)
      else if \<not> PhysicalRangeFits root PAGE_SIZE (host_address_width v)
      then (False, deallocate root PAGE_SIZE s)
      else let s = clear_page root s;
               (ok, tables, devices, s) = PopulatePassthroughContexts tree root 0 0 s in
      if \<not> ok \<or> devices = 0 then (False, ReleasePassthroughTables root s)
      else let (ok, s) = activate_root D root s;
               s = upd_vtd (\<lambda>v. v\<lparr>root_table := root\<rparr>) s in
      if \<not> ok then (False, s)
      else let s = upd_vtd (\<lambda>v. v\<lparr>context_table_count := tables, device_count := devices,
                                  passthrough_enabled := True\<rparr>) s;
               (_, s) = ReadRegister32 D regs kVtdGlobalStatusRegister s;
               (_, s) = ReadRegister32 D regs kVtdFaultStatusRegister s
           in (True, snd (EnableVtdInterruptRemapping D s)))"

section \<open>Interrupt messages\<close>

record InterruptMessage =
  im_address :: uint64
  im_data :: uint32
  im_handle :: uint16

definition null_message :: InterruptMessage where
  "null_message = \<lparr>im_address = 0, im_data = 0, im_handle = 0\<rparr>"

definition source_id_of :: "DevFields \<Rightarrow> uint16" where
  "source_id_of f = push_bit 8 (ucast (pci_bus f)) OR push_bit 3 (ucast (pci_device f)) OR
     ucast (pci_function f)"

definition free_irte :: "bool list \<Rightarrow> nat" where
  "free_irte allocated = (case List.find (\<lambda>i. \<not> allocated ! i) [0..<VtdInterruptRemappingTableCapacity] of
     None \<Rightarrow> VtdInterruptRemappingTableCapacity | Some i \<Rightarrow> i)"

definition remappable_address :: "nat \<Rightarrow> uint64" where
  "remappable_address index = 0xFEE00000 OR push_bit 5 (of_nat index AND 0x7FFF) OR
     drop_bit 13 (of_nat index AND 0x8000) OR 0x18"

definition AllocatePciInterrupt :: "'h vtd_hw \<Rightarrow> DevFields option \<Rightarrow> uint32 \<Rightarrow> uint8 \<Rightarrow> 'h iommu \<Rightarrow>
    bool \<times> InterruptMessage \<times> 'h iommu" where
  "AllocatePciInterrupt D device target_lapic_id vector s =
     (let v = vtd_state s in
      case device of None \<Rightarrow> (False, null_message, s) | Some f \<Rightarrow>
      if \<not> interrupt_remapping_enabled v \<or> vector = 0 \<or> node_type f \<noteq> PciDevice \<or>
         pci_segment f \<noteq> segment v \<or> (\<not> extended_interrupt_mode v \<and> target_lapic_id > 0xFF)
      then (False, null_message, s)
      else let index = free_irte (interrupt_remapping_allocated v) in
      if index = VtdInterruptRemappingTableCapacity then (False, null_message, s)
      else let table = interrupt_remapping_table v;
               s = set_word table (2 * index + 1) (ucast (source_id_of f) OR push_bit 18 1) s;
               destination = (ucast target_lapic_id :: uint64);
               destination = (if extended_interrupt_mode v then destination else push_bit 8 destination);
               s = set_word table (2 * index) (1 OR push_bit 3 1 OR push_bit 16 (ucast vector) OR
                     push_bit 32 destination) s;
               (ok, s) = SubmitInterruptCacheInvalidation D (of_nat index) 0 True s in
      if \<not> ok
      then let s = set_word table (2 * index) 0 s;
               s = set_word table (2 * index + 1) 0 s
           in (False, null_message, snd (SubmitInterruptCacheInvalidation D (of_nat index) 0 True s))
      else (True, \<lparr>im_address = remappable_address index, im_data = 0, im_handle = of_nat (index + 1)\<rparr>,
            upd_vtd (\<lambda>v. v\<lparr>interrupt_remapping_allocated :=
              (interrupt_remapping_allocated v)[index := True]\<rparr>) s))"

definition ReleaseInterrupt :: "'h vtd_hw \<Rightarrow> uint16 \<Rightarrow> 'h iommu \<Rightarrow> 'h iommu" where
  "ReleaseInterrupt D handle s =
     (if handle = 0 \<or> \<not> interrupt_remapping_enabled (vtd_state s) then s
      else let index = unat handle - 1 in
      if index \<ge> VtdInterruptRemappingTableCapacity then s
      else if \<not> interrupt_remapping_allocated (vtd_state s) ! index then s
      else let table = interrupt_remapping_table (vtd_state s);
               s = set_word table (2 * index) 0 s;
               s = set_word table (2 * index + 1) 0 s;
               (ok, s) = SubmitInterruptCacheInvalidation D (of_nat index) 0 True s in
      if \<not> ok then s
      else upd_vtd (\<lambda>v. v\<lparr>interrupt_remapping_allocated :=
             (interrupt_remapping_allocated v)[index := False]\<rparr>) s)"

end
