(* ===== verification/Iova.thy ===== *)
theory Iova
  imports Vtd
begin

text \<open>
  DMA address spaces of \<^verbatim>\<open>src/mecocoa/memoman-iova.cpp\<close>: the per-device translation domain with
  its four-level page table, the allocation of device address ranges, and the operations
  \<open>MapDeviceDma\<close> and \<open>UnmapDeviceDma\<close>. A reference to a domain is passed as its value and written
  back by the caller; a reference to a table entry is the pair of the table address and the index.
\<close>

section \<open>Fault reporting\<close>

text \<open>The fault registers read by \<open>LogVtdFaultState\<close>.\<close>

definition LogVtdFaultState :: "'h vtd_hw \<Rightarrow> 'h iommu \<Rightarrow> 'h iommu" where
  "LogVtdFaultState D s =
     (let v = vtd_state s; (status, s) = ReadRegister32 D (registers v) kVtdFaultStatusRegister s in
      if status = 0 then s
      else let record_offset = unat (drop_bit 24 (capability v) AND 0x3FF) * 16 +
                 unat (drop_bit 8 status AND 0xFF) * 16 in
      if record_offset + 16 > unat PAGE_SIZE then s
      else let (_, s) = ReadRegister64 D (registers v) record_offset s;
               (_, s) = ReadRegister64 D (registers v) (record_offset + 8) s
           in s)"

section \<open>Tables of a domain\<close>

definition AllocateDomainTable :: "IovaDomain \<Rightarrow> 'h iommu \<Rightarrow> uint64 \<times> IovaDomain \<times> 'h iommu" where
  "AllocateDomainTable d s =
     (if length (d_tables d) \<ge> IovaTableCapacity then (0, d, s)
      else let (table, s) = allocate s in
        if table = 0 then (0, d, s)
        else if \<not> PhysicalRangeFits table PAGE_SIZE (host_address_width (vtd_state s))
        then (0, d, deallocate table PAGE_SIZE s)
        else (table, d\<lparr>d_tables := d_tables d @ [table]\<rparr>, clear_page table s))"

definition ReleaseDomainTables :: "IovaDomain \<Rightarrow> 'h iommu \<Rightarrow> IovaDomain \<times> 'h iommu" where
  "ReleaseDomainTables d s = (null_domain, fold (\<lambda>t. deallocate t PAGE_SIZE) (d_tables d) s)"

definition FindDomain :: "ptr \<Rightarrow> IovaDomain list \<Rightarrow> nat option" where
  "FindDomain device ds = List.find (\<lambda>i. d_active (ds ! i) \<and> d_device (ds ! i) = device)
     [0..<IovaDomainCapacity]"

definition CreateDomain :: "ptr \<Rightarrow> 'h iommu \<Rightarrow> nat option \<times> 'h iommu" where
  "CreateDomain device s =
     (case List.find (\<lambda>i. \<not> d_active (iova_domains s ! i)) [0..<IovaDomainCapacity] of
        None \<Rightarrow> (None, s)
      | Some i \<Rightarrow>
          let d = null_domain\<lparr>d_active := True, d_device := device,
                    d_domain_id := VtdFirstTranslatedDomain + of_nat i\<rparr>;
              (root, d, s) = AllocateDomainTable d s
          in if root = 0 then (None, s\<lparr>iova_domains := (iova_domains s)[i := null_domain]\<rparr>)
             else (Some i, s\<lparr>iova_domains := (iova_domains s)[i := d\<lparr>d_root := root\<rparr>]\<rparr>))"

definition present :: "uint64 \<Rightarrow> bool" where
  "present e \<longleftrightarrow> e AND (VtdPageRead OR VtdPageWrite) \<noteq> 0"

definition GetOrCreateNextTable :: "IovaDomain \<Rightarrow> uint64 \<Rightarrow> nat \<Rightarrow> 'h iommu \<Rightarrow> uint64 \<times> IovaDomain \<times> 'h iommu" where
  "GetOrCreateNextTable d table index s =
     (if present (pages s table index) then (pages s table index AND VtdPageAddressMask, d, s)
      else let (next, d, s) = AllocateDomainTable d s in
        if next = 0 then (0, d, s)
        else (next, d, set_word table index (next OR VtdPageRead OR VtdPageWrite) s))"

fun walk_levels :: "nat list \<Rightarrow> uint64 \<Rightarrow> bool \<Rightarrow> IovaDomain \<Rightarrow> 'h iommu \<Rightarrow> uint64 \<times> IovaDomain \<times> 'h iommu" where
  "walk_levels [] table create d s = (table, d, s)"
| "walk_levels (i # is) table create d s =
     (if \<not> present (pages s table i) then
        if \<not> create then (0, d, s)
        else let (next, d, s) = GetOrCreateNextTable d table i s
             in if next = 0 then (0, d, s) else walk_levels is next create d s
      else let next = pages s table i AND VtdPageAddressMask
           in if next = 0 then (0, d, s) else walk_levels is next create d s)"

definition level_index :: "nat \<Rightarrow> uint64 \<Rightarrow> nat" where
  "level_index shift a = unat (drop_bit shift a AND 0x1FF)"

definition GetLeafEntry :: "IovaDomain \<Rightarrow> uint64 \<Rightarrow> bool \<Rightarrow> 'h iommu \<Rightarrow>
    (uint64 \<times> nat) option \<times> IovaDomain \<times> 'h iommu" where
  "GetLeafEntry d device_address create s =
     (let (table, d, s) = walk_levels [level_index 39 device_address, level_index 30 device_address,
                                       level_index 21 device_address] (d_root d) create d s
      in if table = 0 then (None, d, s) else (Some (table, level_index 12 device_address), d, s))"

section \<open>Device address ranges\<close>

definition RangesOverlap :: "uint64 \<Rightarrow> uint64 \<Rightarrow> uint64 \<Rightarrow> uint64 \<Rightarrow> bool" where
  "RangesOverlap left left_length right right_length \<longleftrightarrow>
     left < right + right_length \<and> right < left + left_length"

definition range_collides :: "uint64 \<Rightarrow> uint64 \<Rightarrow> IovaRange \<Rightarrow> bool" where
  "range_collides candidate len r \<longleftrightarrow>
     r_active r \<and> RangesOverlap candidate len (r_device_address r) (r_length r)"

definition page_round_up :: "uint64 \<Rightarrow> uint64" where
  "page_round_up a = (a + PAGE_SIZE - 1) AND NOT (PAGE_SIZE - 1)"

text \<open>At most \<open>n\<close> passes over the mappings, each moving the candidate past the first collision.\<close>

fun iova_passes :: "nat \<Rightarrow> IovaRange list \<Rightarrow> uint64 \<Rightarrow> uint64 \<Rightarrow> uint64 option" where
  "iova_passes 0 ms len candidate = None"
| "iova_passes (Suc n) ms len candidate =
     (case List.find (range_collides candidate len) ms of
        Some r \<Rightarrow> iova_passes n ms len (page_round_up (r_device_address r + r_length r))
      | None \<Rightarrow> if candidate + len < candidate \<or> candidate + len > push_bit 48 1 then None
                else Some candidate)"

text \<open>The first free slot of the mapping table, and the address.\<close>

definition AllocateIovaRange :: "IovaDomain \<Rightarrow> uint64 \<Rightarrow> uint64 \<Rightarrow> (uint64 \<times> nat) option" where
  "AllocateIovaRange d len preferred =
     do { slot \<leftarrow> List.find (\<lambda>i. \<not> r_active (d_mappings d ! i)) [0..<IovaMappingCapacity];
          if preferred \<noteq> 0 then
            if preferred AND (PAGE_SIZE - 1) \<noteq> 0 \<or> preferred + len < preferred \<or>
               preferred + len > push_bit 48 1 then None
            else if List.find (range_collides preferred len) (d_mappings d) \<noteq> None then None
            else Some (preferred, slot)
          else map_option (\<lambda>a. (a, slot))
                 (iova_passes (IovaMappingCapacity + 1) (d_mappings d) len IovaStartAddress) }"

section \<open>Populating and clearing pages\<close>

text \<open>
  The offsets of the loop \<open>for (offset = 0; offset < length; offset += PAGE_SIZE)\<close>, for lengths at
  most \<open>2 ^ 64 - PAGE_SIZE\<close>, where the counter does not wrap.
\<close>

definition page_offsets :: "uint64 \<Rightarrow> uint64 list" where
  "page_offsets len = map (\<lambda>i. of_nat (i * 4096)) [0..<(unat len + 4095) div 4096]"

fun clear_pages :: "uint64 list \<Rightarrow> uint64 \<Rightarrow> IovaDomain \<Rightarrow> 'h iommu \<Rightarrow> IovaDomain \<times> 'h iommu" where
  "clear_pages [] device_address d s = (d, s)"
| "clear_pages (off # offs) device_address d s =
     (let (e, d, s) = GetLeafEntry d (device_address + off) False s;
          s = (case e of None \<Rightarrow> s | Some (t, i) \<Rightarrow> set_word t i 0 s)
      in clear_pages offs device_address d s)"

definition ClearIovaPages :: "IovaDomain \<Rightarrow> uint64 \<Rightarrow> uint64 \<Rightarrow> 'h iommu \<Rightarrow> IovaDomain \<times> 'h iommu" where
  "ClearIovaPages d device_address len s = clear_pages (page_offsets len) device_address d s"

definition leaf_entry :: "uint64 \<Rightarrow> uint64" where
  "leaf_entry a = (a AND VtdPageAddressMask) OR VtdPageRead OR VtdPageWrite"

text \<open>The first list holds the offsets already populated, which a failure undoes.\<close>

fun populate_pages :: "uint64 list \<Rightarrow> uint64 list \<Rightarrow> uint64 \<Rightarrow> uint64 \<Rightarrow> IovaDomain \<Rightarrow> 'h iommu \<Rightarrow>
    bool \<times> IovaDomain \<times> 'h iommu" where
  "populate_pages done [] device_address physical d s = (True, d, s)"
| "populate_pages done (off # offs) device_address physical d s =
     (let (e, d, s) = GetLeafEntry d (device_address + off) True s in
      case e of
        None \<Rightarrow> let (d, s) = clear_pages done device_address d s in (False, d, s)
      | Some (t, i) \<Rightarrow>
          if present (pages s t i)
          then let (d, s) = clear_pages done device_address d s in (False, d, s)
          else populate_pages (done @ [off]) offs device_address physical d
                 (set_word t i (leaf_entry (physical + off)) s))"

definition PopulateIovaPages :: "IovaDomain \<Rightarrow> uint64 \<Rightarrow> uint64 \<Rightarrow> uint64 \<Rightarrow> 'h iommu \<Rightarrow>
    bool \<times> IovaDomain \<times> 'h iommu" where
  "PopulateIovaPages d device_address physical len s =
     populate_pages [] (page_offsets len) device_address physical d s"

section \<open>Attaching a domain\<close>

text \<open>A context is given by its table and requester number; \<open>dev\<close> maps a device pointer to its fields.\<close>

definition RestorePassthroughContext :: "'h vtd_hw \<Rightarrow> uint64 \<Rightarrow> nat \<Rightarrow> 'h iommu \<Rightarrow> bool \<times> 'h iommu" where
  "RestorePassthroughContext D table r s =
     (let s = set_word table (2 * r) 0 s;
          (_, s) = InvalidateVtdCaches D s;
          s = set_word table (2 * r + 1) passthrough_high s;
          s = set_word table (2 * r) (VtdContextPassthrough OR VtdContextPresent) s
      in InvalidateVtdCaches D s)"

definition AttachDomain :: "'h vtd_hw \<Rightarrow> (ptr \<Rightarrow> DevFields) \<Rightarrow> IovaDomain \<Rightarrow> 'h iommu \<Rightarrow>
    bool \<times> IovaDomain \<times> 'h iommu" where
  "AttachDomain D dev d s =
     (let f = dev (d_device d) in
      if d_device d = nullptr \<or> node_type f \<noteq> PciDevice \<or> pci_segment f \<noteq> segment (vtd_state s) \<or>
         pci_device f \<ge> 32 \<or> pci_function f \<ge> 8 then (False, d, s)
      else let table = GetContextTable (root_table (vtd_state s)) (pci_bus f) s in
      if table = 0 then (False, d, s)
      else let r = requester_of f in
      if pages s table (2 * r) AND VtdContextPresent = 0 then (False, d, s)
      else let s = set_word table (2 * r) 0 s;
               (ok, s) = InvalidateVtdCaches D s in
      if \<not> ok then (False, d, snd (RestorePassthroughContext D table r s))
      else let s = set_word table (2 * r + 1)
                     (push_bit 8 (ucast (d_domain_id d)) OR of_nat VtdAddressWidth48) s;
               s = set_word table (2 * r) (d_root d OR VtdContextPresent) s;
               (ok, s) = InvalidateVtdCaches D s in
      if \<not> ok then (False, d, snd (RestorePassthroughContext D table r s))
      else (True, d\<lparr>d_attached := True\<rparr>, s))"

section \<open>Mapping and unmapping DMA memory\<close>

record DmaMapping =
  m_device_address :: uint64
  m_translated :: bool

definition DmaMappingFlag_Identity :: uint32 where "DmaMappingFlag_Identity = 1"

definition put_domain :: "nat \<Rightarrow> IovaDomain \<Rightarrow> 'h iommu \<Rightarrow> 'h iommu" where
  "put_domain i d s = s\<lparr>iova_domains := (iova_domains s)[i := d]\<rparr>"

definition abandon_domain :: "bool \<Rightarrow> nat \<Rightarrow> IovaDomain \<Rightarrow> 'h iommu \<Rightarrow> 'h iommu" where
  "abandon_domain new_domain i d s =
     (if new_domain then let (d, s) = ReleaseDomainTables d s in put_domain i d s else put_domain i d s)"

text \<open>The part of \<open>MapDeviceDma\<close> after the range is chosen and its pages are populated.\<close>

definition commit_dma :: "'h vtd_hw \<Rightarrow> (ptr \<Rightarrow> DevFields) \<Rightarrow> bool \<Rightarrow> nat \<Rightarrow> nat \<Rightarrow> uint64 \<Rightarrow> uint64 \<Rightarrow> uint64 \<Rightarrow>
    IovaDomain \<Rightarrow> 'h iommu \<Rightarrow> bool \<times> 'h iommu" where
  "commit_dma D dev new_domain i slot device_address physical len d s =
     (let (ok, d, s) = (if d_attached d then (True, d, s) else AttachDomain D dev d s) in
      if \<not> ok then let (d, s) = ClearIovaPages d device_address len s in
        (False, abandon_domain new_domain i d s)
      else let (ok, s) = (if new_domain then (True, s) else InvalidateVtdCaches D s) in
      if \<not> ok then let (d, s) = ClearIovaPages d device_address len s in (False, put_domain i d s)
      else let (faults, s) = ReadRegister32 D (registers (vtd_state s)) kVtdFaultStatusRegister s in
      if faults \<noteq> 0
      then let s = LogVtdFaultState D s;
               (d, s) = ClearIovaPages d device_address len s
           in (False, snd (InvalidateVtdCaches D (put_domain i d s)))
      else (True, put_domain i (d\<lparr>d_mappings := (d_mappings d)[slot := \<lparr>r_active = True,
              r_device_address = device_address, r_physical = physical, r_length = len\<rparr>]\<rparr>) s))"

definition map_in_domain :: "'h vtd_hw \<Rightarrow> (ptr \<Rightarrow> DevFields) \<Rightarrow> bool \<Rightarrow> nat \<Rightarrow> uint64 \<Rightarrow> uint64 \<Rightarrow> uint32 \<Rightarrow>
    'h iommu \<Rightarrow> bool \<times> DmaMapping \<times> 'h iommu" where
  "map_in_domain D dev new_domain i physical len flags s =
     (let direct = \<lparr>m_device_address = physical, m_translated = False\<rparr>;
          d = iova_domains s ! i;
          preferred = (if flags AND DmaMappingFlag_Identity \<noteq> 0 then physical else 0) in
      case AllocateIovaRange d len preferred of
        None \<Rightarrow> (False, direct, abandon_domain new_domain i d s)
      | Some (device_address, slot) \<Rightarrow>
          let (ok, d, s) = PopulateIovaPages d device_address physical len s in
          if \<not> ok then (False, direct, abandon_domain new_domain i d s)
          else let (ok, s) = commit_dma D dev new_domain i slot device_address physical len d s
               in if ok then (True, \<lparr>m_device_address = device_address, m_translated = True\<rparr>, s)
                  else (False, direct, s))"

definition MapDeviceDma :: "'h vtd_hw \<Rightarrow> (ptr \<Rightarrow> DevFields) \<Rightarrow> ptr \<Rightarrow> uint64 \<Rightarrow> uint64 \<Rightarrow> uint32 \<Rightarrow> 'h iommu \<Rightarrow>
    bool \<times> DmaMapping \<times> 'h iommu" where
  "MapDeviceDma D dev device physical len flags s =
     (let direct = \<lparr>m_device_address = physical, m_translated = False\<rparr> in
      if flags AND NOT DmaMappingFlag_Identity \<noteq> 0 then (False, direct, s)
      else if device = nullptr \<or> physical = 0 \<or> len = 0 \<or> physical AND (PAGE_SIZE - 1) \<noteq> 0 \<or>
              len AND (PAGE_SIZE - 1) \<noteq> 0 then (False, direct, s)
      else if \<not> passthrough_enabled (vtd_state s) then (True, direct, s)
      else if node_type (dev device) \<noteq> PciDevice then (True, direct, s)
      else if \<not> PhysicalRangeFits physical len (host_address_width (vtd_state s)) then (False, direct, s)
      else case FindDomain device (iova_domains s) of
        Some i \<Rightarrow> map_in_domain D dev False i physical len flags s
      | None \<Rightarrow>
          (case CreateDomain device s of
             (None, s) \<Rightarrow> (False, direct, s)
           | (Some i, s) \<Rightarrow> map_in_domain D dev True i physical len flags s))"

definition find_mapping :: "uint64 \<Rightarrow> uint64 \<Rightarrow> IovaRange list \<Rightarrow> nat option" where
  "find_mapping device_address len ms =
     List.find (\<lambda>j. r_active (ms ! j) \<and> r_device_address (ms ! j) = device_address \<and> r_length (ms ! j) = len)
       [0..<IovaMappingCapacity]"

definition UnmapDeviceDma :: "'h vtd_hw \<Rightarrow> ptr \<Rightarrow> uint64 \<Rightarrow> uint64 \<Rightarrow> 'h iommu \<Rightarrow> bool \<times> 'h iommu" where
  "UnmapDeviceDma D device device_address len s =
     (if device = nullptr \<or> device_address = 0 \<or> len = 0 \<or> device_address AND (PAGE_SIZE - 1) \<noteq> 0 \<or>
         len AND (PAGE_SIZE - 1) \<noteq> 0 then (False, s)
      else if \<not> passthrough_enabled (vtd_state s) then (True, s)
      else case FindDomain device (iova_domains s) of None \<Rightarrow> (False, s) | Some i \<Rightarrow>
      let d = iova_domains s ! i in
      if \<not> d_attached d then (False, s)
      else case find_mapping device_address len (d_mappings d) of None \<Rightarrow> (False, s) | Some j \<Rightarrow>
      let s = LogVtdFaultState D s;
          (d, s) = ClearIovaPages d device_address len s;
          (ok, s) = InvalidateVtdCaches D s in
      if \<not> ok
      then let (_, d, s) = PopulateIovaPages d device_address (r_physical (d_mappings d ! j)) len s
           in (False, snd (InvalidateVtdCaches D (put_domain i d s)))
      else (True, put_domain i (d\<lparr>d_mappings := (d_mappings d)[j := null_range]\<rparr>) s))"

end
