(* ===== verification/Iova_Tables.thy ===== *)
theory Iova_Tables
  imports Iova
begin

text \<open>
  The translation tables of a domain as a tree in memory. The abstraction is the map from index
  paths to pages that the unit's walk computes; the tree invariant says that every table has one
  parent entry, so that a store to a leaf changes the map at one path and a fresh table changes it
  nowhere.
\<close>

section \<open>Entries\<close>

abbreviation target :: "uint64 \<Rightarrow> uint64" where
  "target e \<equiv> e AND VtdPageAddressMask"

lemma bit_page_mask: "bit VtdPageAddressMask i \<longleftrightarrow> 12 \<le> i \<and> i < 64"
proof -
  have "VtdPageAddressMask = NOT (mask 12)"
    by (simp add: VtdPageAddressMask_def PAGE_SIZE_def mask_eq_exp_minus_1)
  then have "bit VtdPageAddressMask i = bit (NOT (mask 12) :: uint64) i" by (simp only:)
  also have "\<dots> = (i < 64 \<and> \<not> i < 12)" by (simp only: bit_not_iff bit_mask_iff) auto
  finally show ?thesis by auto
qed

lemma bit_rw: "bit (VtdPageRead OR VtdPageWrite) i \<longleftrightarrow> i \<le> 1"
proof -
  have "VtdPageRead OR VtdPageWrite = mask 2"
    by (simp add: VtdPageRead_def VtdPageWrite_def mask_eq_exp_minus_1)
  then have "bit (VtdPageRead OR VtdPageWrite) i = bit (mask 2 :: uint64) i" by (simp only:)
  also have "\<dots> = (i \<le> 1)" by (simp only: bit_mask_iff) auto
  finally show ?thesis .
qed

lemma target_bits: "bit (target e) i \<longleftrightarrow> bit e i \<and> 12 \<le> i"
  by (auto simp: bit_and_iff bit_page_mask dest: bit_imp_le_length)

lemma target_target [simp]: "target (target e) = target e"
  by (rule bit_word_eqI) (simp add: target_bits bit_and_iff bit_page_mask)

lemma present_bits: "present e \<longleftrightarrow> bit e 0 \<or> bit e 1"
proof -
  have "(e AND (VtdPageRead OR VtdPageWrite) = 0) = (\<forall>i < 64. \<not> (bit e i \<and> i \<le> 1))"
    by (simp add: word_eq_0_iff_bits bit_and_iff bit_rw)
  also have "\<dots> = (\<not> bit e 0 \<and> \<not> bit e 1)"
  proof -
    have "i < 64 \<and> i \<le> 1 \<longleftrightarrow> i = 0 \<or> i = 1" for i :: nat by linarith
    then show ?thesis by metis
  qed
  finally show ?thesis by (simp add: present_def)
qed

lemma not_present_0 [simp]: "\<not> present 0"
  by (simp add: present_def)

lemma present_rw [simp]: "present (n OR VtdPageRead OR VtdPageWrite)"
  by (simp add: present_bits or.assoc bit_or_iff [of n] bit_rw)

lemma target_rw: "target (n OR VtdPageRead OR VtdPageWrite) = target n"
  by (rule bit_word_eqI) (simp add: target_bits or.assoc bit_or_iff [of n] bit_rw, linarith)

lemma leaf_entry_simps [simp]: "present (leaf_entry a)" "target (leaf_entry a) = target a"
  by (simp_all add: leaf_entry_def target_rw)

section \<open>Walks\<close>

fun walk :: "(uint64 \<Rightarrow> nat \<Rightarrow> uint64) \<Rightarrow> nat list \<Rightarrow> uint64 \<Rightarrow> uint64 option" where
  "walk P [] t = Some t"
| "walk P (i # is) t = (if present (P t i) then walk P is (target (P t i)) else None)"

definition xlat :: "(uint64 \<Rightarrow> nat \<Rightarrow> uint64) \<Rightarrow> nat list \<Rightarrow> uint64 \<Rightarrow> uint64 option" where
  "xlat P q t = (if q = [] then None else walk P q t)"

lemma walk_append: "walk P (p @ q) t = Option.bind (walk P p t) (walk P q)"
  by (induction p arbitrary: t) auto

definition tree :: "(uint64 \<Rightarrow> nat \<Rightarrow> uint64) \<Rightarrow> (uint64 \<Rightarrow> nat) \<Rightarrow> uint64 set \<Rightarrow> bool" where
  "tree P lev T \<longleftrightarrow>
     (\<forall>t \<in> T. t \<noteq> 0 \<and> target t = t) \<and>
     (\<forall>t \<in> T. \<forall>i. 0 < lev t \<longrightarrow> present (P t i) \<longrightarrow>
        target (P t i) \<in> T \<and> Suc (lev (target (P t i))) = lev t) \<and>
     (\<forall>t \<in> T. \<forall>u \<in> T. \<forall>i j. 0 < lev t \<longrightarrow> 0 < lev u \<longrightarrow> present (P t i) \<longrightarrow> present (P u j) \<longrightarrow>
        target (P t i) = target (P u j) \<longrightarrow> t = u \<and> i = j)"

lemma treeI:
  assumes "\<And>t. t \<in> T \<Longrightarrow> t \<noteq> 0 \<and> target t = t"
    and "\<And>t i. t \<in> T \<Longrightarrow> 0 < lev t \<Longrightarrow> present (P t i) \<Longrightarrow>
      target (P t i) \<in> T \<and> Suc (lev (target (P t i))) = lev t"
    and "\<And>t i u j. t \<in> T \<Longrightarrow> 0 < lev t \<Longrightarrow> present (P t i) \<Longrightarrow> u \<in> T \<Longrightarrow> 0 < lev u \<Longrightarrow> present (P u j) \<Longrightarrow>
      target (P t i) = target (P u j) \<Longrightarrow> t = u \<and> i = j"
  shows "tree P lev T"
  unfolding tree_def using assms by auto

lemma tree_node: "tree P lev T \<Longrightarrow> t \<in> T \<Longrightarrow> t \<noteq> 0 \<and> target t = t"
  by (simp add: tree_def)

lemma tree_child:
  "tree P lev T \<Longrightarrow> t \<in> T \<Longrightarrow> 0 < lev t \<Longrightarrow> present (P t i) \<Longrightarrow>
    target (P t i) \<in> T \<and> Suc (lev (target (P t i))) = lev t"
  by (simp add: tree_def)

lemma tree_inj:
  "tree P lev T \<Longrightarrow> t \<in> T \<Longrightarrow> u \<in> T \<Longrightarrow> 0 < lev t \<Longrightarrow> 0 < lev u \<Longrightarrow> present (P t i) \<Longrightarrow> present (P u j) \<Longrightarrow>
    target (P t i) = target (P u j) \<Longrightarrow> t = u \<and> i = j"
  by (simp add: tree_def)

lemma walk_in_tree:
  "tree P lev T \<Longrightarrow> t \<in> T \<Longrightarrow> length p \<le> lev t \<Longrightarrow> walk P p t = Some u \<Longrightarrow>
    u \<in> T \<and> lev u + length p = lev t"
proof (induction p arbitrary: t)
  case (Cons i p)
  then show ?case using tree_child[OF Cons.prems(1,2), of i] by (fastforce split: if_splits)
qed simp

lemma walk_inj:
  "tree P lev T \<Longrightarrow> t \<in> T \<Longrightarrow> t' \<in> T \<Longrightarrow> lev t = lev t' \<Longrightarrow> length p \<le> lev t \<Longrightarrow> length p = length q \<Longrightarrow>
    walk P p t = Some u \<Longrightarrow> walk P q t' = Some u \<Longrightarrow> t = t' \<and> p = q"
proof (induction p arbitrary: t t' q)
  case (Cons i p)
  then obtain j q' where q: "q = j # q'" by (cases q) auto
  with Cons.prems have pr: "present (P t i)" "present (P t' j)" "0 < lev t" "0 < lev t'"
    by (auto split: if_splits)
  note ch = tree_child[OF Cons.prems(1,2) pr(3,1)] tree_child[OF Cons.prems(1,3) pr(4,2)]
  have "target (P t i) = target (P t' j) \<and> p = q'"
    using Cons.prems pr ch q by (intro Cons.IH) auto
  with tree_inj[OF Cons.prems(1-3) pr(3,4,1,2)] q show ?case by simp
qed simp

section \<open>Storing a leaf\<close>

definition store :: "uint64 \<Rightarrow> nat \<Rightarrow> uint64 \<Rightarrow> (uint64 \<Rightarrow> nat \<Rightarrow> uint64) \<Rightarrow> uint64 \<Rightarrow> nat \<Rightarrow> uint64" where
  "store t i v P = P(t := (P t)(i := v))"

lemma pages_set_word [simp]: "pages (set_word t i v s) = store t i v (pages s)"
  by (simp add: set_word_def store_def)

lemma store_leaf_tree: "tree P lev T \<Longrightarrow> lev u = 0 \<Longrightarrow> tree (store u i v P) lev T"
  by (auto simp: tree_def store_def)

lemma store_leaf_walk:
  "tree P lev T \<Longrightarrow> lev u = 0 \<Longrightarrow> t \<in> T \<Longrightarrow> length p \<le> lev t \<Longrightarrow> walk (store u i v P) p t = walk P p t"
proof (induction p arbitrary: t)
  case (Cons j p)
  then have "t \<noteq> u" by auto
  with Cons tree_child[OF Cons.prems(1,3), of j] show ?case by (auto simp: store_def)
qed simp

lemma store_leaf_xlat:
  assumes "tree P lev T" "t \<in> T" "walk P p t = Some u" "length p = lev t" "length q = Suc (lev t)"
  shows "xlat (store u i v P) q t =
    (if q = p @ [i] then if present v then Some (target v) else None else xlat P q t)"
proof -
  from assms(5) obtain q' j where q: "q = q' @ [j]" "length q' = lev t"
    by (metis append_butlast_last_id length_butlast diff_Suc_1 list.size(3) nat.distinct(1))
  have u: "u \<in> T" "lev u = 0" using walk_in_tree[OF assms(1,2) _ assms(3)] assms(4) by auto
  have w: "walk (store u i v P) q' t = walk P q' t"
    using store_leaf_walk[OF assms(1) u(2) assms(2)] q(2) by simp
  have inj: "walk P q' t = Some u \<Longrightarrow> q' = p"
    using walk_inj[OF assms(1,2,2), of q' p u] assms(3,4) q(2) by simp
  show ?thesis
  proof (cases "walk P q' t")
    case None
    with assms(3) have "q' \<noteq> p" by auto
    with None w q show ?thesis by (simp add: xlat_def walk_append)
  next
    case (Some w')
    with w q inj assms(3) show ?thesis
      by (auto simp: xlat_def walk_append store_def)
  qed
qed

section \<open>Adding a table\<close>

definition graft :: "uint64 \<Rightarrow> nat \<Rightarrow> uint64 \<Rightarrow> (uint64 \<Rightarrow> nat \<Rightarrow> uint64) \<Rightarrow> uint64 \<Rightarrow> nat \<Rightarrow> uint64" where
  "graft t i n P = store t i (n OR VtdPageRead OR VtdPageWrite) (P(n := (\<lambda>_. 0)))"

lemma graft_simps:
  "t \<noteq> n \<Longrightarrow> graft t i n P n j = 0"
  "t \<noteq> n \<Longrightarrow> graft t i n P t i = n OR VtdPageRead OR VtdPageWrite"
  "u \<noteq> n \<Longrightarrow> u \<noteq> t \<or> j \<noteq> i \<Longrightarrow> graft t i n P u j = P u j"
  by (auto simp: graft_def store_def)

lemma graft_walk_mono:
  "tree P lev T \<Longrightarrow> u \<in> T \<Longrightarrow> length p \<le> lev u \<Longrightarrow> n \<notin> T \<Longrightarrow> \<not> present (P t i) \<Longrightarrow>
    walk P p u = Some w \<Longrightarrow> walk (graft t i n P) p u = Some w"
proof (induction p arbitrary: u)
  case (Cons j p)
  then have pr: "present (P u j)" "u \<noteq> n" "u \<noteq> t \<or> j \<noteq> i" by (auto split: if_splits)
  with Cons tree_child[OF Cons.prems(1,2) _ pr(1)] show ?case by (auto simp: graft_simps)
qed simp

lemma graft_xlat:
  assumes "tree P lev T" "n \<notin> T" "n \<noteq> 0" "target n = n" "t \<in> T" "0 < lev t" "\<not> present (P t i)"
  shows "u \<in> T \<Longrightarrow> length q = Suc (lev u) \<Longrightarrow> xlat (graft t i n P) q u = xlat P q u"
proof (induction q arbitrary: u)
  case (Cons j q)
  have un: "u \<noteq> n" "t \<noteq> n" using Cons.prems assms by auto
  show ?case
  proof (cases "u = t \<and> j = i")
    case True
    then have "q \<noteq> []" using Cons.prems assms by auto
    then obtain k q' where "q = k # q'" by (cases q) auto
    with True un assms show ?thesis by (simp add: xlat_def graft_simps target_rw)
  next
    case False
    show ?thesis
    proof (cases "present (P u j) \<and> q \<noteq> []")
      case True
      then have "0 < lev u" using Cons.prems by (cases q) auto
      with tree_child[OF assms(1) Cons.prems(1)] True
      have "target (P u j) \<in> T" "lev u = Suc (lev (target (P u j)))" by auto
      with Cons True False un show ?thesis by (simp add: xlat_def graft_simps)
    next
      case nonrec: False
      with False un show ?thesis by (auto simp: xlat_def graft_simps)
    qed
  qed
qed simp

lemma graft_tree:
  assumes "tree P lev T" "n \<notin> T" "n \<noteq> 0" "target n = n" "t \<in> T" "0 < lev t" "\<not> present (P t i)"
  shows "tree (graft t i n P) (lev(n := lev t - 1)) (insert n T)"
proof -
  let ?P = "graft t i n P" and ?lev = "lev(n := lev t - 1)"
  have tn: "t \<noteq> n" using assms by auto
  have old: "?P u j = P u j \<or> u = t \<and> j = i" if "u \<in> T" for u j
    using that assms(2) by (metis graft_simps(3))
  have new: "target (?P t i) = n" using tn assms(4) by (simp add: graft_simps target_rw)
  have child: "target (?P u j) = n \<and> u = t \<and> j = i \<or>
      target (?P u j) \<in> T \<and> ?P u j = P u j \<and> present (P u j) \<and> Suc (lev (target (P u j))) = lev u"
    if "u \<in> insert n T" "0 < ?lev u" "present (?P u j)" for u j
  proof -
    have u: "u \<noteq> n" using that(3) tn by (auto simp: graft_simps)
    with that have "u \<in> T" "0 < lev u" by auto
    then show ?thesis
      using old[of u j] new that(3) tree_child[OF assms(1), of u j] by auto
  qed
  have lev: "target (?P u j) \<in> insert n T \<and> Suc (?lev (target (?P u j))) = ?lev u"
    if "u \<in> insert n T" "0 < ?lev u" "present (?P u j)" for u j
    using child[OF that] assms(2,6) tn that by (auto simp: graft_simps)
  have inj: "u = u' \<and> j = j'"
    if "u \<in> insert n T" "0 < ?lev u" "present (?P u j)" "u' \<in> insert n T" "0 < ?lev u'" "present (?P u' j')"
      "target (?P u j) = target (?P u' j')" for u j u' j'
  proof -
    have "u \<noteq> n" "u' \<noteq> n" using that tn by (auto simp: graft_simps)
    then show ?thesis
      using child[OF that(1-3)] child[OF that(4-6)] that assms(2) tree_inj[OF assms(1), of u u' j j'] by auto
  qed
  have node: "u \<noteq> 0 \<and> target u = u" if "u \<in> insert n T" for u
    using that tree_node[OF assms(1), of u] assms(3,4) by blast
  show ?thesis by (rule treeI) (fact node, fact lev, fact inj)
qed

end
