(* ===== verification/Iova_Domains.thy ===== *)
theory Iova_Domains
  imports Iova_Tables
begin

text \<open>
  One translation domain in memory: its tables form a tree apart from all memory \<open>E\<close> that others
  own, and the page allocator hands out pages that nobody owns. The operations on pages are then
  updates of the map \<open>xmap\<close> from index paths to pages.
\<close>

section \<open>The invariant of a domain\<close>

text \<open>
  What the code relies on of the page allocator: addresses are page aligned, no page is handed out
  twice, none is a page of \<open>U\<close> that is in use.
\<close>

definition pool_ok :: "uint64 set \<Rightarrow> 'h iommu \<Rightarrow> bool" where
  "pool_ok U s \<longleftrightarrow> distinct (filter (\<lambda>a. a \<noteq> 0) (pool s)) \<and>
     (\<forall>a \<in> set (pool s). target a = a \<and> (a \<noteq> 0 \<longrightarrow> a \<notin> U))"

definition dom_ok :: "uint64 set \<Rightarrow> (uint64 \<Rightarrow> nat) \<Rightarrow> IovaDomain \<Rightarrow> 'h iommu \<Rightarrow> bool" where
  "dom_ok E lev d s \<longleftrightarrow> tree (pages s) lev (set (d_tables d)) \<and> d_root d \<in> set (d_tables d) \<and>
     lev (d_root d) = 3 \<and> set (d_tables d) \<inter> E = {} \<and> pool_ok (set (d_tables d) \<union> E) s"

text \<open>What the table operations leave alone.\<close>

definition kept :: "uint64 set \<Rightarrow> IovaDomain \<Rightarrow> 'h iommu \<Rightarrow> IovaDomain \<Rightarrow> 'h iommu \<Rightarrow> bool" where
  "kept E d s d' s' \<longleftrightarrow> d' = d\<lparr>d_tables := d_tables d'\<rparr> \<and> set (d_tables d) \<subseteq> set (d_tables d') \<and>
     (\<forall>u \<in> E. pages s' u = pages s u) \<and> vtd_state s' = vtd_state s \<and>
     iova_domains s' = iova_domains s"

definition xmap :: "IovaDomain \<Rightarrow> 'h iommu \<Rightarrow> nat list \<Rightarrow> uint64 option" where
  "xmap d s q = (if length q = 4 then xlat (pages s) q (d_root d) else None)"

lemma kept_refl [simp]: "kept E d s d s"
  by (simp add: kept_def)

lemma kept_trans: "kept E d s d' s' \<Longrightarrow> kept E d' s' d'' s'' \<Longrightarrow> kept E d s d'' s''"
  unfolding kept_def by (metis IovaDomain.surjective IovaDomain.update_convs(6) subset_trans)

lemma kept_fields:
  "kept E d s d' s' \<Longrightarrow> d_root d' = d_root d \<and> d_mappings d' = d_mappings d \<and> d_active d' = d_active d \<and>
    d_device d' = d_device d \<and> d_attached d' = d_attached d \<and> d_domain_id d' = d_domain_id d"
  unfolding kept_def by (metis IovaDomain.select_convs(1-5,7) IovaDomain.surjective IovaDomain.update_convs(6))

section \<open>Allocation\<close>

lemma AllocateDomainTable_spec:
  assumes "pool_ok U s" and "AllocateDomainTable d s = (n, d', s')"
  shows "vtd_state s' = vtd_state s \<and> iova_domains s' = iova_domains s \<and>
    (if n = 0 then d' = d \<and> pages s' = pages s \<and> pool_ok U s'
     else d' = d\<lparr>d_tables := d_tables d @ [n]\<rparr> \<and> n \<notin> U \<and> target n = n \<and>
       pages s' = (pages s)(n := (\<lambda>_. 0)) \<and> pool_ok (insert n U) s')"
proof (cases "pool s")
  case Nil
  with assms show ?thesis
    by (auto simp: AllocateDomainTable_def allocate_def split: if_splits)
next
  case (Cons a as)
  have rest: "pool_ok U (s\<lparr>pool := as\<rparr>)" "a \<noteq> 0 \<Longrightarrow> pool_ok (insert a U) (s\<lparr>pool := as\<rparr>)"
    "target a = a" "a \<noteq> 0 \<Longrightarrow> a \<notin> U"
    using assms(1) Cons by (auto simp: pool_ok_def split: if_splits)
  with assms(2) Cons show ?thesis
    by (auto simp: AllocateDomainTable_def allocate_def deallocate_def clear_page_def pool_ok_def
        split: if_splits)
qed

section \<open>Growing the tree\<close>

definition ext :: "uint64 set \<Rightarrow> (uint64 \<Rightarrow> nat) \<Rightarrow> IovaDomain \<Rightarrow> 'h iommu \<Rightarrow>
    (uint64 \<Rightarrow> nat) \<Rightarrow> IovaDomain \<Rightarrow> 'h iommu \<Rightarrow> bool" where
  "ext E lev d s lev' d' s' \<longleftrightarrow> dom_ok E lev' d' s' \<and> kept E d s d' s' \<and>
     (\<forall>u \<in> set (d_tables d). lev' u = lev u \<and>
        (\<forall>q. length q = Suc (lev u) \<longrightarrow> xlat (pages s') q u = xlat (pages s) q u) \<and>
        (\<forall>q w. length q \<le> lev u \<longrightarrow> walk (pages s) q u = Some w \<longrightarrow> walk (pages s') q u = Some w))"

lemma ext_refl: "dom_ok E lev d s \<Longrightarrow> ext E lev d s lev d s"
  by (simp add: ext_def)

lemma ext_trans:
  assumes "ext E lev d s lev' d' s'" and "ext E lev' d' s' lev'' d'' s''"
  shows "ext E lev d s lev'' d'' s''"
proof -
  have sub: "u \<in> set (d_tables d')" if "u \<in> set (d_tables d)" for u
    using that assms(1) by (auto simp: ext_def kept_def)
  have "kept E d s d'' s''"
    using assms kept_trans[of E d s d' s' d'' s''] by (simp add: ext_def)
  then show ?thesis
    using assms sub by (simp add: ext_def)
qed

lemma ext_walk:
  "ext E lev d s lev' d' s' \<Longrightarrow> u \<in> set (d_tables d) \<Longrightarrow> length q \<le> lev u \<Longrightarrow>
    walk (pages s) q u = Some w \<Longrightarrow> walk (pages s') q u = Some w"
  by (simp add: ext_def)

lemma ext_xmap: "ext E lev d s lev' d' s' \<Longrightarrow> dom_ok E lev d s \<Longrightarrow> xmap d' s' = xmap d s"
  using kept_fields[of E d s d' s'] by (auto simp: ext_def dom_ok_def xmap_def fun_eq_iff)

lemma GetOrCreateNextTable_ext:
  assumes ok: "dom_ok E lev d s" and t: "t \<in> set (d_tables d)" "0 < lev t"
    and np: "\<not> present (pages s t i)" and r: "GetOrCreateNextTable d t i s = (n, d', s')"
  shows "\<exists>lev'. ext E lev d s lev' d' s' \<and>
    (n \<noteq> 0 \<longrightarrow> walk (pages s') [i] t = Some n \<and> n \<in> set (d_tables d') \<and> Suc (lev' n) = lev t)"
proof -
  obtain m d1 s1 where a: "AllocateDomainTable d s = (m, d1, s1)" by (metis prod_cases3)
  have po: "pool_ok (set (d_tables d) \<union> E) s" using ok by (simp add: dom_ok_def)
  note sp = AllocateDomainTable_spec[OF po a]
  show ?thesis
  proof (cases "m = 0")
    case True
    with r np a have "n = 0" "d' = d1" "s' = s1" by (auto simp: GetOrCreateNextTable_def)
    with sp True ok have "ext E lev d s lev d' s'" by (simp add: ext_def dom_ok_def kept_def)
    with \<open>n = 0\<close> show ?thesis by blast
  next
    case False
    with r np a have n: "n = m" "d' = d1" "s' = set_word t i (m OR VtdPageRead OR VtdPageWrite) s1"
      by (auto simp: GetOrCreateNextTable_def)
    let ?T = "set (d_tables d)" and ?lev = "lev(m := lev t - 1)"
    from sp False have d1: "d1 = d\<lparr>d_tables := d_tables d @ [m]\<rparr>" and mT: "m \<notin> ?T" and mE: "m \<notin> E"
      and mt: "target m = m" and pg: "pages s1 = (pages s)(m := (\<lambda>_. 0))"
      and po1: "pool_ok (insert m (?T \<union> E)) s1" by auto
    have tr: "tree (pages s) lev ?T" using ok by (simp add: dom_ok_def)
    have P: "pages s' = graft t i m (pages s)" using n pg by (simp add: graft_def)
    have fr: "vtd_state s' = vtd_state s" "iova_domains s' = iova_domains s" "pool s' = pool s1"
      using sp n by (simp_all add: set_word_def)
    have tm: "t \<noteq> m" "t \<notin> E" using t mT ok by (auto simp: dom_ok_def)
    have "dom_ok E ?lev d' s'"
      using ok d1 n mT mE fr po1 graft_tree[OF tr mT False mt t np] P
      by (auto simp: dom_ok_def pool_ok_def)
    moreover have "kept E d s d' s'"
      using n d1 fr P mE tm by (auto simp: kept_def graft_def store_def)
    moreover have "?lev u = lev u \<and>
        (\<forall>q. length q = Suc (lev u) \<longrightarrow> xlat (pages s') q u = xlat (pages s) q u) \<and>
        (\<forall>q w. length q \<le> lev u \<longrightarrow> walk (pages s) q u = Some w \<longrightarrow> walk (pages s') q u = Some w)"
      if "u \<in> ?T" for u
      using that mT graft_xlat[OF tr mT False mt t np that] graft_walk_mono[OF tr that _ mT np] P by auto
    ultimately have "ext E lev d s ?lev d' s'" by (simp add: ext_def)
    moreover have "walk (pages s') [i] t = Some m"
      using P tm mt by (simp add: graft_simps target_rw)
    ultimately show ?thesis using n d1 t(2) by (intro exI[of _ ?lev]) simp
  qed
qed

lemma walk_levels_create:
  assumes "dom_ok E lev d s" and "t \<in> set (d_tables d)" and "length p \<le> lev t"
    and "walk_levels p t True d s = (r, d', s')"
  shows "\<exists>lev'. ext E lev d s lev' d' s' \<and> (r \<noteq> 0 \<longrightarrow> walk (pages s') p t = Some r)"
  using assms
proof (induction p arbitrary: t d s lev)
  case Nil
  then show ?case using ext_refl[OF Nil.prems(1)] by auto
next
  case (Cons i p)
  have lt: "0 < lev t" using Cons.prems by simp
  have tr: "tree (pages s) lev (set (d_tables d))" using Cons.prems(1) by (simp add: dom_ok_def)
  show ?case
  proof (cases "present (pages s t i)")
    case True
    let ?n = "target (pages s t i)"
    have n: "?n \<in> set (d_tables d)" "Suc (lev ?n) = lev t" "?n \<noteq> 0"
      using tree_child[OF tr Cons.prems(2) lt True] tree_node[OF tr] by auto
    have "walk_levels p ?n True d s = (r, d', s')" using Cons.prems(4) True n by simp
    from Cons.IH[OF Cons.prems(1) n(1) _ this] n(2) Cons.prems(3) obtain lev'
      where e: "ext E lev d s lev' d' s'" and w: "r \<noteq> 0 \<longrightarrow> walk (pages s') p ?n = Some r" by auto
    have "walk (pages s') [i] t = Some ?n"
      using True lt by (intro ext_walk[OF e Cons.prems(2)]) auto
    with w have "r \<noteq> 0 \<longrightarrow> walk (pages s') (i # p) t = Some r"
      using walk_append[of "pages s'" "[i]" p t] by simp
    with e show ?thesis by blast
  next
    case False
    obtain n d1 s1 where g: "GetOrCreateNextTable d t i s = (n, d1, s1)" by (metis prod_cases3)
    from GetOrCreateNextTable_ext[OF Cons.prems(1,2) lt False g] obtain lev1
      where e1: "ext E lev d s lev1 d1 s1"
        and n: "n \<noteq> 0 \<longrightarrow> walk (pages s1) [i] t = Some n \<and> n \<in> set (d_tables d1) \<and> Suc (lev1 n) = lev t"
      by blast
    show ?thesis
    proof (cases "n = 0")
      case True
      with Cons.prems(4) False g have "r = 0" "d' = d1" "s' = s1" by auto
      with e1 show ?thesis by blast
    next
      case nz: False
      with Cons.prems(4) False g have w: "walk_levels p n True d1 s1 = (r, d', s')" by auto
      have ok1: "dom_ok E lev1 d1 s1" using e1 by (simp add: ext_def)
      from Cons.IH[OF ok1 _ _ w] n nz Cons.prems(3) obtain lev'
        where e: "ext E lev1 d1 s1 lev' d' s'" and w': "r \<noteq> 0 \<longrightarrow> walk (pages s') p n = Some r" by auto
      have t1: "t \<in> set (d_tables d1)" "lev1 t = lev t"
        using e1 Cons.prems(2) by (auto simp: ext_def kept_def)
      then have "walk (pages s') [i] t = Some n"
        using n nz lt by (intro ext_walk[OF e t1(1)]) auto
      with w' have "r \<noteq> 0 \<longrightarrow> walk (pages s') (i # p) t = Some r"
        using walk_append[of "pages s'" "[i]" p t] by simp
      with ext_trans[OF e1 e] show ?thesis by blast
    qed
  qed
qed

section \<open>Leaf entries\<close>

definition upper :: "uint64 \<Rightarrow> nat list" where
  "upper a = [level_index 39 a, level_index 30 a, level_index 21 a]"

definition path :: "uint64 \<Rightarrow> nat list" where
  "path a = upper a @ [level_index 12 a]"

abbreviation leaf_table :: "IovaDomain \<Rightarrow> 'h iommu \<Rightarrow> uint64 \<Rightarrow> uint64 option" where
  "leaf_table d s a \<equiv> walk (pages s) (upper a) (d_root d)"

lemma length_path [simp]: "length (path a) = 4" "length (upper a) = 3"
  by (simp_all add: path_def upper_def)

lemma walk_levels_find:
  "tree (pages s) lev (set (d_tables d)) \<Longrightarrow> t \<in> set (d_tables d) \<Longrightarrow> length p \<le> lev t \<Longrightarrow>
    walk_levels p t False d s = (case walk (pages s) p t of None \<Rightarrow> (0, d, s) | Some u \<Rightarrow> (u, d, s))"
proof (induction p arbitrary: t)
  case (Cons i p)
  show ?case
  proof (cases "present (pages s t i)")
    case True
    then have "target (pages s t i) \<in> set (d_tables d)" "Suc (lev (target (pages s t i))) = lev t"
      using tree_child[OF Cons.prems(1,2)] Cons.prems(3) by auto
    then show ?thesis using True Cons tree_node[OF Cons.prems(1)] by auto
  qed simp
qed simp

lemma leaf_table_in:
  "dom_ok E lev d s \<Longrightarrow> leaf_table d s a = Some u \<Longrightarrow> u \<in> set (d_tables d) \<and> lev u = 0 \<and> u \<noteq> 0"
  using walk_in_tree[of "pages s" lev "set (d_tables d)" "d_root d" "upper a" u] tree_node
  by (auto simp: dom_ok_def)

lemma GetLeafEntry_find:
  assumes "dom_ok E lev d s"
  shows "GetLeafEntry d a False s =
    (map_option (\<lambda>u. (u, level_index 12 a)) (leaf_table d s a), d, s)"
proof -
  have "walk_levels (upper a) (d_root d) False d s =
      (case leaf_table d s a of None \<Rightarrow> (0, d, s) | Some u \<Rightarrow> (u, d, s))"
    using assms by (intro walk_levels_find) (auto simp: dom_ok_def)
  then show ?thesis
    using leaf_table_in[OF assms, of a]
    by (simp add: GetLeafEntry_def upper_def [symmetric] split: option.splits)
qed

lemma GetLeafEntry_create:
  assumes "dom_ok E lev d s" and "GetLeafEntry d a True s = (e, d', s')"
  shows "\<exists>lev'. ext E lev d s lev' d' s' \<and>
    (\<forall>t i. e = Some (t, i) \<longrightarrow> leaf_table d' s' a = Some t \<and> i = level_index 12 a)"
proof -
  obtain r d1 s1 where w: "walk_levels (upper a) (d_root d) True d s = (r, d1, s1)"
    by (metis prod_cases3)
  then have e: "d' = d1" "s' = s1" "e = (if r = 0 then None else Some (r, level_index 12 a))"
    using assms(2) by (auto simp: GetLeafEntry_def upper_def [symmetric] split: if_splits)
  have "d_root d \<in> set (d_tables d)" "length (upper a) \<le> lev (d_root d)"
    using assms(1) by (simp_all add: dom_ok_def)
  from walk_levels_create[OF assms(1) this w] obtain lev'
    where x: "ext E lev d s lev' d1 s1" "r \<noteq> 0 \<longrightarrow> walk (pages s1) (upper a) (d_root d) = Some r" by blast
  moreover have "d_root d1 = d_root d" using x(1) kept_fields[of E d s d1 s1] by (simp add: ext_def)
  ultimately show ?thesis using e by (intro exI[of _ lev']) auto
qed

lemma walk_levels_existing:
  "tree (pages s) lev (set (d_tables d)) \<Longrightarrow> t \<in> set (d_tables d) \<Longrightarrow> length p \<le> lev t \<Longrightarrow>
    walk (pages s) p t = Some u \<Longrightarrow> walk_levels p t True d s = (u, d, s)"
proof (induction p arbitrary: t)
  case (Cons i p)
  then have pr: "present (pages s t i)" by (auto split: if_splits)
  then have "target (pages s t i) \<in> set (d_tables d)" "Suc (lev (target (pages s t i))) = lev t"
    using tree_child[OF Cons.prems(1,2)] Cons.prems(3) by auto
  then show ?case using pr Cons tree_node[OF Cons.prems(1)] by auto
qed simp

lemma GetLeafEntry_existing:
  assumes "dom_ok E lev d s" and "leaf_table d s a = Some u"
  shows "GetLeafEntry d a True s = (Some (u, level_index 12 a), d, s)"
proof -
  have "walk_levels (upper a) (d_root d) True d s = (u, d, s)"
    using assms by (intro walk_levels_existing) (auto simp: dom_ok_def)
  then show ?thesis
    using leaf_table_in[OF assms] by (simp add: GetLeafEntry_def upper_def [symmetric])
qed

lemma xmap_leaf:
  "leaf_table d s a = Some u \<Longrightarrow> xmap d s (path a) =
    (if present (pages s u (level_index 12 a)) then Some (target (pages s u (level_index 12 a))) else None)"
  by (simp add: xmap_def xlat_def path_def walk_append)

lemma xmap_no_leaf: "leaf_table d s a = None \<Longrightarrow> xmap d s (path a) = None"
  by (simp add: xmap_def xlat_def path_def walk_append)

text \<open>A store to the leaf entry of \<open>a\<close> changes the map at the path of \<open>a\<close> only.\<close>

lemma leaf_store:
  assumes "dom_ok E lev d s" and "leaf_table d s a = Some u"
    and s'_def: "s' = set_word u (level_index 12 a) v s"
  shows "dom_ok E lev d s'" and "kept E d s d s'" and "leaf_table d s' b = leaf_table d s b"
    and "xmap d s' = (xmap d s)(path a := if present v then Some (target v) else None)"
proof -
  have tr: "tree (pages s) lev (set (d_tables d))" and rt: "d_root d \<in> set (d_tables d)" "lev (d_root d) = 3"
    using assms(1) by (simp_all add: dom_ok_def)
  have u: "u \<in> set (d_tables d)" "lev u = 0" using leaf_table_in[OF assms(1,2)] by auto
  show "dom_ok E lev d s'"
    using assms(1) store_leaf_tree[OF tr u(2)] by (simp add: s'_def dom_ok_def pool_ok_def set_word_def store_def)
  have "u \<notin> E" using u assms(1) by (auto simp: dom_ok_def)
  then show "kept E d s d s'" by (auto simp: s'_def kept_def set_word_def)
  show "leaf_table d s' b = leaf_table d s b"
    using store_leaf_walk[OF tr u(2) rt(1)] rt(2) by (simp add: s'_def)
  show "xmap d s' = (xmap d s)(path a := if present v then Some (target v) else None)"
    using store_leaf_xlat[OF tr rt(1) assms(2), of _ "level_index 12 a" v] rt(2)
    by (auto simp: s'_def xmap_def path_def fun_eq_iff)
qed

section \<open>Clearing and populating\<close>

definition paths :: "uint64 \<Rightarrow> uint64 list \<Rightarrow> nat list set" where
  "paths a offs = (\<lambda>off. path (a + off)) ` set offs"

lemma clear_pages_spec:
  assumes "dom_ok E lev d s"
  shows "\<exists>s'. clear_pages offs a d s = (d, s') \<and> dom_ok E lev d s' \<and> kept E d s d s' \<and>
    (\<forall>b. leaf_table d s' b = leaf_table d s b) \<and>
    xmap d s' = (\<lambda>q. if q \<in> paths a offs then None else xmap d s q)"
  using assms
proof (induction offs arbitrary: s)
  case Nil
  then show ?case by (simp add: paths_def)
next
  case (Cons off offs)
  let ?b = "a + off"
  define s1 where "s1 = (case leaf_table d s ?b of None \<Rightarrow> s
    | Some u \<Rightarrow> set_word u (level_index 12 ?b) 0 s)"
  have step: "clear_pages (off # offs) a d s = clear_pages offs a d s1"
    by (simp add: GetLeafEntry_find[OF Cons.prems] s1_def split: option.splits)
  have s1: "dom_ok E lev d s1 \<and> kept E d s d s1 \<and> (\<forall>b. leaf_table d s1 b = leaf_table d s b) \<and>
      xmap d s1 = (xmap d s)(path ?b := None)"
  proof (cases "leaf_table d s ?b")
    case None
    then show ?thesis using Cons.prems xmap_no_leaf[OF None] by (simp add: s1_def fun_upd_idem)
  next
    case (Some u)
    then show ?thesis using leaf_store[OF Cons.prems Some refl, where v = 0] by (simp add: s1_def)
  qed
  with Cons.IH[of s1] obtain s' where s': "clear_pages offs a d s1 = (d, s')" "dom_ok E lev d s'"
    "kept E d s1 d s'" "\<forall>b. leaf_table d s' b = leaf_table d s1 b"
    "xmap d s' = (\<lambda>q. if q \<in> paths a offs then None else xmap d s1 q)" by blast
  then show ?case
    using s1 step kept_trans[of E d s d s1 d s'] by (auto simp: paths_def)
qed

lemma populate_pages_spec:
  assumes "dom_ok E lev d s" and "populate_pages dn offs a ph d s = (ok, d', s')"
  shows "\<exists>lev'. dom_ok E lev' d' s' \<and> kept E d s d' s' \<and>
    (if ok then xmap d' s' = fold (\<lambda>off m. m(path (a + off) \<mapsto> target (ph + off))) offs (xmap d s)
     else xmap d' s' = (\<lambda>q. if q \<in> paths a dn then None else xmap d s q))"
  using assms
proof (induction offs arbitrary: dn d s lev)
  case Nil
  then show ?case by auto
next
  case (Cons off offs)
  let ?b = "a + off"
  obtain e d1 s1 where g: "GetLeafEntry d ?b True s = (e, d1, s1)" by (metis prod_cases3)
  from GetLeafEntry_create[OF Cons.prems(1) g] obtain lev1
    where x: "ext E lev d s lev1 d1 s1"
      and leaf: "\<And>t i. e = Some (t, i) \<Longrightarrow> leaf_table d1 s1 ?b = Some t \<and> i = level_index 12 ?b" by blast
  have ok1: "dom_ok E lev1 d1 s1" and k1: "kept E d s d1 s1" and m1: "xmap d1 s1 = xmap d s"
    using x ext_xmap[OF x Cons.prems(1)] by (simp_all add: ext_def)
  show ?case
  proof (cases "\<exists>t i. e = Some (t, i) \<and> \<not> present (pages s1 t i)")
    case False
    then have "populate_pages dn (off # offs) a ph d s = (False, clear_pages dn a d1 s1)"
      using g by (auto split: option.splits prod.splits)
    moreover from clear_pages_spec[OF ok1, of dn a] obtain s2 where "clear_pages dn a d1 s1 = (d1, s2)"
      "dom_ok E lev1 d1 s2" "kept E d1 s1 d1 s2"
      "xmap d1 s2 = (\<lambda>q. if q \<in> paths a dn then None else xmap d1 s1 q)" by blast
    ultimately show ?thesis using Cons.prems(2) m1 kept_trans[OF k1] by auto
  next
    case True
    then obtain t i where e: "e = Some (t, i)" and np: "\<not> present (pages s1 t i)" by blast
    let ?s = "set_word t i (leaf_entry (ph + off)) s1"
    from leaf[OF e] have lt: "leaf_table d1 s1 ?b = Some t" and i: "i = level_index 12 ?b" by auto
    note st = leaf_store[OF ok1 lt refl, where v = "leaf_entry (ph + off)", folded i]
    have none: "xmap d s (path ?b) = None" using xmap_leaf[OF lt] np i m1 by simp
    have "populate_pages (dn @ [off]) offs a ph d1 ?s = (ok, d', s')"
      using Cons.prems(2) g e np by simp
    from Cons.IH[OF st(1) this] obtain lev' where r: "dom_ok E lev' d' s'" "kept E d1 ?s d' s'"
      "if ok then xmap d' s' = fold (\<lambda>off m. m(path (a + off) \<mapsto> target (ph + off))) offs (xmap d1 ?s)
       else xmap d' s' = (\<lambda>q. if q \<in> paths a (dn @ [off]) then None else xmap d1 ?s q)" by blast
    have "kept E d s d' s'" using kept_trans[OF kept_trans[OF k1 st(2)] r(2)] .
    with r st(4) m1 none show ?thesis
      by (intro exI[of _ lev']) (auto simp: paths_def split: if_splits)
  qed
qed

end
