(* ===== verification/Iova_Ranges.thy ===== *)
theory Iova_Ranges
  imports Iova
begin

text \<open>
  The allocator of device address ranges, read over the numbers: a well-formed mapping table, the
  addresses at which a range of a given length is free, and the facts that the loop of
  \<open>AllocateIovaRange\<close> ends within its bound on the least free address.
\<close>

section \<open>Page alignment\<close>

definition page_aligned :: "uint64 \<Rightarrow> bool" where
  "page_aligned a \<longleftrightarrow> 4096 dvd unat a"

lemma and_page_mask: "unat ((a :: uint64) AND (PAGE_SIZE - 1)) = unat a mod 4096"
proof -
  have "a AND (PAGE_SIZE - 1) = take_bit 12 a"
    by (simp add: PAGE_SIZE_def take_bit_eq_mask mask_eq_exp_minus_1)
  then have "unat (a AND (PAGE_SIZE - 1)) = take_bit 12 (unat a)"
    by (simp only: unsigned_take_bit_eq)
  then show ?thesis by (simp add: take_bit_eq_mod)
qed

lemma page_aligned_mask: "(a AND (PAGE_SIZE - 1) = 0) = page_aligned a"
  using and_page_mask[of a] by (simp add: page_aligned_def unat_eq_0 [symmetric] dvd_eq_mod_eq_0)

lemma and_not_page_mask: "unat ((a :: uint64) AND NOT (PAGE_SIZE - 1)) = unat a div 4096 * 4096"
proof -
  have "(a AND NOT (PAGE_SIZE - 1)) + (a AND (PAGE_SIZE - 1)) = a"
    by (subst disjunctive_add) (auto simp: bit_eq_iff bit_and_iff bit_or_iff bit_not_iff)
  then have "(a AND NOT (PAGE_SIZE - 1)) = a - (a AND (PAGE_SIZE - 1))"
    by (metis add_diff_cancel_right')
  moreover have "a AND (PAGE_SIZE - 1) \<le> a"
    by (simp add: word_le_nat_alt and_page_mask)
  ultimately show ?thesis
    by (simp add: unat_sub and_page_mask minus_mod_eq_div_mult)
qed

lemma page_round_up_aligned:
  assumes "page_aligned a" and "unat a \<le> 2 ^ 48"
  shows "page_round_up a = a"
proof -
  have "a + PAGE_SIZE - 1 = a + 4095" unfolding PAGE_SIZE_def by simp
  moreover have "unat (a + 4095) = unat a + 4095"
    using assms(2) by (simp add: unat_word_ariths)
  ultimately have n: "unat (a + PAGE_SIZE - 1) = unat a + 4095" by (simp only:)
  obtain k where k: "unat a = 4096 * k" using assms(1) by (auto simp: page_aligned_def)
  have "unat (page_round_up a) = (unat a + 4095) div 4096 * 4096"
    by (simp only: page_round_up_def and_not_page_mask n)
  also have "\<dots> = unat a" by (simp add: k)
  finally show ?thesis by (simp only: word_unat_eq_iff)
qed

section \<open>Well-formed mapping tables\<close>

abbreviation lo :: "IovaRange \<Rightarrow> nat" where "lo r \<equiv> unat (r_device_address r)"
abbreviation hi :: "IovaRange \<Rightarrow> nat" where "hi r \<equiv> lo r + unat (r_length r)"

definition range_ok :: "IovaRange \<Rightarrow> bool" where
  "range_ok r \<longleftrightarrow> page_aligned (r_device_address r) \<and> page_aligned (r_length r) \<and>
     r_length r \<noteq> 0 \<and> hi r \<le> 2 ^ 48"

definition actives :: "IovaRange list \<Rightarrow> IovaRange set" where
  "actives ms = {r \<in> set ms. r_active r}"

definition ranges_ok :: "IovaRange list \<Rightarrow> bool" where
  "ranges_ok ms \<longleftrightarrow> length ms = IovaMappingCapacity \<and> (\<forall>r \<in> actives ms. range_ok r) \<and>
     (\<forall>i < length ms. \<forall>j < length ms. i \<noteq> j \<longrightarrow> r_active (ms ! i) \<longrightarrow> r_active (ms ! j) \<longrightarrow>
        hi (ms ! i) \<le> lo (ms ! j) \<or> hi (ms ! j) \<le> lo (ms ! i))"

text \<open>The addresses at which \<open>n\<close> bytes are below the 48-bit limit and clear of every active range.\<close>

definition fits :: "IovaRange list \<Rightarrow> nat \<Rightarrow> nat \<Rightarrow> bool" where
  "fits ms n x \<longleftrightarrow> x + n \<le> 2 ^ 48 \<and> (\<forall>r \<in> actives ms. x + n \<le> lo r \<or> hi r \<le> x)"

lemma hi_word: "range_ok r \<Longrightarrow> unat (r_device_address r + r_length r) = hi r"
  by (simp add: range_ok_def unat_word_ariths)

lemma range_collides_iff:
  assumes "range_ok r" and "unat c + unat len < 2 ^ 64"
  shows "range_collides c len r \<longleftrightarrow> r_active r \<and> unat c < hi r \<and> lo r < unat c + unat len"
proof -
  have "unat (c + len) = unat c + unat len" using assms(2) by (simp add: unat_word_ariths)
  then show ?thesis
    using assms(1) by (simp add: range_collides_def RangesOverlap_def word_less_nat_alt hi_word)
qed

lemma range_collides_below: "range_ok r \<Longrightarrow> range_collides c len r \<Longrightarrow> r_active r \<and> unat c < hi r"
  by (simp add: range_collides_def RangesOverlap_def word_less_nat_alt hi_word)

lemma next_candidate: "range_ok r \<Longrightarrow> unat (page_round_up (r_device_address r + r_length r)) = hi r"
proof -
  assume r: "range_ok r"
  then have "page_aligned (r_device_address r + r_length r)"
    unfolding page_aligned_def by (simp add: hi_word) (simp add: range_ok_def page_aligned_def)
  moreover have "hi r \<le> 2 ^ 48" using r by (simp add: range_ok_def)
  ultimately show ?thesis
    using r by (subst page_round_up_aligned) (simp_all add: hi_word)
qed

lemma no_wrap_iff:
  "(\<not> c + len < c \<and> \<not> c + len > push_bit 48 1) = (unat c + unat len \<le> 2 ^ 48)" for c len :: uint64
proof (cases "unat c + unat len < 2 ^ 64")
  case True
  then show ?thesis
    by (simp add: word_less_nat_alt unat_word_ariths push_bit_eq_mult not_less)
next
  case False
  have "unat len < 2 ^ 64" using unsigned_less[of len] by simp
  moreover have "unat c < 2 ^ 64" using unsigned_less[of c] by simp
  ultimately have "unat (c + len) = unat c + unat len - 2 ^ 64" "unat c + unat len - 2 ^ 64 < unat c"
    using False by (simp_all add: unat_word_ariths mod_nat_eqI le_mod_geq)
  with False show ?thesis by (simp add: word_less_nat_alt)
qed

section \<open>The search\<close>

text \<open>The ranges that can still collide with a candidate at or above \<open>c\<close>.\<close>

definition above :: "IovaRange list \<Rightarrow> uint64 \<Rightarrow> IovaRange set" where
  "above ms c = {r \<in> actives ms. unat c < hi r}"

lemma finite_above [simp]: "finite (above ms c)"
  by (simp add: above_def actives_def)

lemma no_collision_fits:
  assumes "\<forall>r \<in> actives ms. range_ok r" and "List.find (range_collides c len) ms = None"
    and "unat c + unat len \<le> 2 ^ 48"
  shows "fits ms (unat len) (unat c)"
  unfolding fits_def
proof (intro conjI ballI)
  fix r assume r: "r \<in> actives ms"
  with assms(2) have "\<not> range_collides c len r" by (simp add: find_eq_None actives_def)
  with r assms show "unat c + unat len \<le> lo r \<or> hi r \<le> unat c"
    by (auto simp: range_collides_iff actives_def)
qed (use assms in simp)

lemma collision_blocks:
  assumes "range_ok r" and "r \<in> actives ms" and "range_collides c len r"
    and "unat c \<le> x" and "x < hi r"
  shows "\<not> fits ms (unat len) x"
proof (cases "unat c + unat len < 2 ^ 64")
  case True
  with assms have "lo r < x + unat len" by (simp add: range_collides_iff)
  with assms(2,5) show ?thesis unfolding fits_def by (meson not_le)
next
  case False
  with assms(4) show ?thesis by (simp add: fits_def)
qed

lemma iova_passes_search:
  assumes "\<forall>r \<in> actives ms. range_ok r" and "card (above ms c) < n"
    and "\<forall>x. unat m \<le> x \<longrightarrow> x < unat c \<longrightarrow> \<not> fits ms (unat len) x" and "page_aligned c" and "m \<le> c"
  shows "case iova_passes n ms len c of
      Some a \<Rightarrow> m \<le> a \<and> page_aligned a \<and> fits ms (unat len) (unat a) \<and>
        (\<forall>x. unat m \<le> x \<longrightarrow> x < unat a \<longrightarrow> \<not> fits ms (unat len) x)
    | None \<Rightarrow> \<forall>x. unat m \<le> x \<longrightarrow> \<not> fits ms (unat len) x"
  using assms
proof (induction n ms len c rule: iova_passes.induct)
  case (2 n ms len c)
  show ?case
  proof (cases "List.find (range_collides c len) ms")
    case None
    show ?thesis
    proof (cases "unat c + unat len \<le> 2 ^ 48")
      case True
      with 2 None show ?thesis
        using no_wrap_iff[of c len] no_collision_fits[of ms c len] by (simp split: if_split)
    next
      case False
      then have "\<not> fits ms (unat len) x" if "unat c \<le> x" for x using that by (simp add: fits_def)
      with 2 have "\<forall>x. unat m \<le> x \<longrightarrow> \<not> fits ms (unat len) x" by (meson not_le)
      moreover have "c + len < c \<or> c + len > push_bit 48 1" using False no_wrap_iff[of c len] by blast
      ultimately show ?thesis using None by simp
    qed
  next
    case (Some r)
    let ?c = "page_round_up (r_device_address r + r_length r)"
    from Some have col: "range_collides c len r" and rs: "r \<in> set ms" by (auto dest: find_eq_SomeD)
    then have r: "r \<in> actives ms" by (simp add: actives_def range_collides_def)
    with 2 have ok: "range_ok r" by blast
    have c: "unat ?c = hi r" and lt: "unat c < hi r"
      using next_candidate[OF ok] range_collides_below[OF ok col] by auto
    have "above ms ?c \<subseteq> above ms c - {r}" using c lt by (auto simp: above_def)
    moreover have "r \<in> above ms c" using r lt by (simp add: above_def)
    ultimately have "card (above ms ?c) < card (above ms c)"
      by (metis card_mono card_Diff1_less finite_Diff finite_above le_less_trans)
    then have card: "card (above ms ?c) < n" using 2 by simp
    have blocked: "\<forall>x. unat m \<le> x \<longrightarrow> x < unat ?c \<longrightarrow> \<not> fits ms (unat len) x"
      using 2(4) collision_blocks[OF ok r col] c by (metis not_le)
    have "page_aligned ?c"
      using ok c by (simp add: page_aligned_def range_ok_def)
    moreover have "m \<le> ?c" using 2(6) c lt by (simp add: word_le_nat_alt)
    ultimately show ?thesis using "2.IH"[OF Some 2(2) card blocked] Some by simp
  qed
qed simp

lemma card_above_capacity:
  assumes "ranges_ok ms"
  shows "card (above ms c) < IovaMappingCapacity + 1"
proof -
  have "card (above ms c) \<le> card (set ms)"
    by (rule card_mono) (auto simp: above_def actives_def)
  also have "\<dots> \<le> length ms" by (rule card_length)
  finally show ?thesis using assms by (simp add: ranges_ok_def)
qed

definition free_slot :: "IovaRange list \<Rightarrow> nat option" where
  "free_slot ms = List.find (\<lambda>i. \<not> r_active (ms ! i)) [0..<IovaMappingCapacity]"

lemma free_slotD: "free_slot ms = Some slot \<Longrightarrow> slot < IovaMappingCapacity \<and> \<not> r_active (ms ! slot)"
  unfolding free_slot_def by (blast dest: find_upt_least)

text \<open>A request without a preferred address is answered with the least free address.\<close>

lemma AllocateIovaRange_search:
  assumes "ranges_ok (d_mappings d)" and "free_slot (d_mappings d) = Some slot"
  shows "case AllocateIovaRange d len 0 of
      Some (a, i) \<Rightarrow> i = slot \<and> IovaStartAddress \<le> a \<and> page_aligned a \<and>
        fits (d_mappings d) (unat len) (unat a) \<and>
        (\<forall>x. unat IovaStartAddress \<le> x \<longrightarrow> x < unat a \<longrightarrow> \<not> fits (d_mappings d) (unat len) x)
    | None \<Rightarrow> \<forall>x. unat IovaStartAddress \<le> x \<longrightarrow> \<not> fits (d_mappings d) (unat len) x"
proof -
  have "page_aligned IovaStartAddress" by (simp add: page_aligned_def IovaStartAddress_def)
  then have "case iova_passes (IovaMappingCapacity + 1) (d_mappings d) len IovaStartAddress of
      Some a \<Rightarrow> IovaStartAddress \<le> a \<and> page_aligned a \<and> fits (d_mappings d) (unat len) (unat a) \<and>
        (\<forall>x. unat IovaStartAddress \<le> x \<longrightarrow> x < unat a \<longrightarrow> \<not> fits (d_mappings d) (unat len) x)
    | None \<Rightarrow> \<forall>x. unat IovaStartAddress \<le> x \<longrightarrow> \<not> fits (d_mappings d) (unat len) x"
    using assms(1) by (intro iova_passes_search card_above_capacity) (auto simp: ranges_ok_def)
  then show ?thesis
    using assms(2)
    by (simp add: AllocateIovaRange_def free_slot_def del: iova_passes.simps split: option.splits)
qed

lemma AllocateIovaRange_preferred:
  assumes "ranges_ok (d_mappings d)" and "free_slot (d_mappings d) = Some slot" and "p \<noteq> 0"
  shows "AllocateIovaRange d len p =
    (if page_aligned p \<and> fits (d_mappings d) (unat len) (unat p) then Some (p, slot) else None)"
proof -
  let ?ms = "d_mappings d"
  have "fits ?ms (unat len) (unat p) \<longleftrightarrow>
      unat p + unat len \<le> 2 ^ 48 \<and> List.find (range_collides p len) ?ms = None"
  proof (cases "unat p + unat len \<le> 2 ^ 48")
    case True
    have "range_collides p len r \<longleftrightarrow> unat p < hi r \<and> lo r < unat p + unat len" if "r \<in> actives ?ms" for r
      using that assms(1) True by (subst range_collides_iff) (auto simp: ranges_ok_def actives_def)
    moreover have "\<not> range_collides p len r" if "r \<in> set ?ms" "r \<notin> actives ?ms" for r
      using that by (simp add: actives_def range_collides_def)
    ultimately have "(List.find (range_collides p len) ?ms = None) =
        (\<forall>r \<in> actives ?ms. unat p + unat len \<le> lo r \<or> hi r \<le> unat p)"
      unfolding find_eq_None by (metis (no_types, lifting) actives_def mem_Collect_eq not_less)
    with True show ?thesis by (simp add: fits_def)
  qed (simp add: fits_def)
  then show ?thesis
    using assms(2,3) no_wrap_iff[of p len]
    by (auto simp: AllocateIovaRange_def free_slot_def page_aligned_mask)
qed

lemma AllocateIovaRange_fits:
  assumes "ranges_ok (d_mappings d)" and "AllocateIovaRange d len p = Some (a, slot)"
  shows "free_slot (d_mappings d) = Some slot \<and> page_aligned a \<and> a \<noteq> 0 \<and>
    fits (d_mappings d) (unat len) (unat a)"
proof -
  from assms(2) obtain i where i: "free_slot (d_mappings d) = Some i"
    by (auto simp: AllocateIovaRange_def free_slot_def)
  show ?thesis
  proof (cases "p = 0")
    case True
    with AllocateIovaRange_search[OF assms(1) i, of len] assms(2) i show ?thesis
      by (auto simp: IovaStartAddress_def)
  next
    case False
    with AllocateIovaRange_preferred[OF assms(1) i] assms(2) i show ?thesis
      by (auto split: if_splits)
  qed
qed

section \<open>Changing the table\<close>

lemma actives_update:
  assumes "i < length ms"
  shows "actives (ms[i := r]) \<subseteq> (if r_active r then insert r (actives ms) else actives ms)"
  using set_update_subset_insert[of ms i r] by (auto simp: actives_def)

lemma actives_nth: "i < length ms \<Longrightarrow> r_active (ms ! i) \<Longrightarrow> ms ! i \<in> actives ms"
  by (simp add: actives_def)

lemma ranges_ok_add:
  assumes "ranges_ok ms" and "i < length ms" and "range_ok r"
    and "fits ms (unat (r_length r)) (lo r)"
  shows "ranges_ok (ms[i := r])"
proof -
  have "hi r \<le> lo (ms ! j) \<or> hi (ms ! j) \<le> lo r" if "j < length ms" "r_active (ms ! j)" for j
    using assms(4) actives_nth[OF that] unfolding fits_def by blast
  then show ?thesis
    using assms(1-3) actives_update[OF assms(2), of r]
    by (auto simp: ranges_ok_def nth_list_update split: if_splits)
qed

lemma ranges_ok_remove: "ranges_ok ms \<Longrightarrow> i < length ms \<Longrightarrow> ranges_ok (ms[i := null_range])"
  using actives_update[of i ms null_range]
  by (auto simp: ranges_ok_def nth_list_update null_range_def split: if_splits)

lemma ranges_ok_null: "ranges_ok (replicate IovaMappingCapacity null_range)"
  by (simp add: ranges_ok_def actives_def null_range_def)

end
