(* ===== verification/Iova_Translate.thy ===== *)
theory Iova_Translate
  imports Iova_Domains Iova_Ranges
begin

text \<open>
  From index paths to addresses: the pages of a range have distinct paths, so populating a range
  maps exactly its addresses, and the page table of a domain can be compared with its mapping table.
\<close>

section \<open>Indices\<close>

lemma level_index_div: "level_index sh a = unat a div 2 ^ sh mod 512"
proof -
  have "drop_bit sh a AND 0x1FF = take_bit 9 (drop_bit sh a)"
    by (simp add: take_bit_eq_mask mask_eq_exp_minus_1)
  then have "level_index sh a = take_bit 9 (unat (drop_bit sh a))"
    unfolding level_index_def by (simp only: unsigned_take_bit_eq)
  also have "unat (drop_bit sh a) = unat a div 2 ^ sh"
    unfolding unat_drop_bit_eq by (rule drop_bit_eq_div)
  also have "take_bit 9 (unat a div 2 ^ sh) = unat a div 2 ^ sh mod 512"
    by (simp add: take_bit_eq_mod)
  finally show ?thesis .
qed

lemma digits:
  fixes m n :: nat
  assumes "m div 512 = n div 512" and "m mod 512 = n mod 512"
  shows "m = n"
  using assms by (metis div_mult_mod_eq)

lemma path_eq_iff:
  assumes "unat x < 2 ^ 48" and "unat y < 2 ^ 48"
  shows "path x = path y \<longleftrightarrow> unat x div 4096 = unat y div 4096"
proof
  assume p: "path x = path y"
  let ?m = "unat x div 4096" and ?n = "unat y div 4096"
  have d: "k div 2 ^ 21 = k div 4096 div 512" "k div 2 ^ 30 = k div 4096 div 512 div 512"
    "k div 2 ^ 39 = k div 4096 div 512 div 512 div 512" for k :: nat
    by (simp_all add: div_mult2_eq [symmetric])
  have e: "?m mod 512 = ?n mod 512" "?m div 512 mod 512 = ?n div 512 mod 512"
    "?m div 512 div 512 mod 512 = ?n div 512 div 512 mod 512"
    "?m div 512 div 512 div 512 mod 512 = ?n div 512 div 512 div 512 mod 512"
    using p unfolding path_def upper_def level_index_div d by simp_all
  have "?m div 512 div 512 div 512 < 512" "?n div 512 div 512 div 512 < 512"
    using assms by (simp_all add: div_mult2_eq [symmetric] less_mult_imp_div_less)
  with e(4) have "?m div 512 div 512 div 512 = ?n div 512 div 512 div 512" by simp
  with e(1-3) show "?m = ?n" by (metis digits)
next
  assume "unat x div 4096 = unat y div 4096"
  moreover have "k div 2 ^ 21 = k div 4096 div 2 ^ 9" "k div 2 ^ 30 = k div 4096 div 2 ^ 18"
    "k div 2 ^ 39 = k div 4096 div 2 ^ 27" "k div 2 ^ 12 = k div 4096" for k :: nat
    by (simp_all add: div_mult2_eq [symmetric])
  ultimately show "path x = path y"
    unfolding path_def upper_def level_index_div by simp
qed

section \<open>The pages of a range\<close>

definition inside :: "uint64 \<Rightarrow> uint64 \<Rightarrow> uint64 \<Rightarrow> bool" where
  "inside a len x \<longleftrightarrow> unat a \<le> unat x \<and> unat x < unat a + unat len"

text \<open>The offset of the page of \<open>x\<close> from the page \<open>a\<close>.\<close>

definition page_of :: "uint64 \<Rightarrow> uint64 \<Rightarrow> uint64" where
  "page_of a x = of_nat ((unat x - unat a) div 4096 * 4096)"

lemma unat_of_nat_64: "n < 2 ^ 64 \<Longrightarrow> unat (of_nat n :: uint64) = n"
  by (simp add: unat_of_nat)

lemma unat_page_of: "unat (page_of a x) = (unat x - unat a) div 4096 * 4096"
proof -
  have "(unat x - unat a) div 4096 * 4096 \<le> unat x"
    by (meson diff_le_self div_times_less_eq_dividend le_trans)
  also have "\<dots> < 2 ^ 64" using unsigned_less[of x] by simp
  finally show ?thesis unfolding page_of_def by (rule unat_of_nat_64)
qed

lemma page_aligned_add: "page_aligned a \<Longrightarrow> page_aligned b \<Longrightarrow> page_aligned (a + b)"
  by (simp add: page_aligned_def unat_word_ariths dvd_mod)

lemma page_aligned_page_of: "page_aligned (page_of a x)"
  by (simp add: page_aligned_def unat_page_of)

lemma target_aligned: "page_aligned p \<Longrightarrow> target p = p"
proof -
  assume "page_aligned p"
  then have "unat p div 4096 * 4096 = unat p" by (simp add: page_aligned_def)
  moreover have "unat (target p) = unat p div 4096 * 4096"
    unfolding VtdPageAddressMask_def by (rule and_not_page_mask)
  ultimately show ?thesis by (simp only: word_unat_eq_iff)
qed

lemma set_page_offsets:
  assumes "page_aligned len"
  shows "set (page_offsets len) = {off. page_aligned off \<and> off < len}"
proof (intro subset_antisym subsetI)
  obtain k where k: "unat len = 4096 * k" using assms by (auto simp: page_aligned_def)
  have len: "unat len < 2 ^ 64" using unsigned_less[of len] by simp
  have ps: "page_offsets len = map (\<lambda>i. of_nat (i * 4096)) [0..<k]"
    by (simp add: page_offsets_def k)
  fix off :: uint64
  {
    assume "off \<in> set (page_offsets len)"
    then obtain i where i: "i < k" "off = of_nat (i * 4096)" unfolding ps by auto
    moreover have "i * 4096 < 2 ^ 64" using i(1) k len by linarith
    ultimately have "unat off = i * 4096" using unat_of_nat_64 by blast
    with i k show "off \<in> {off. page_aligned off \<and> off < len}"
      by (simp add: page_aligned_def word_less_nat_alt)
  next
    assume "off \<in> {off. page_aligned off \<and> off < len}"
    then obtain i where i: "unat off = 4096 * i" "unat off < unat len"
      by (auto simp: page_aligned_def word_less_nat_alt)
    then have "of_nat (unat off) = (of_nat (i * 4096) :: uint64)" "i < k" using k by (simp_all add: mult.commute)
    then have "off = of_nat (i * 4096)" "i < k" by simp_all
    then show "off \<in> set (page_offsets len)" unfolding ps by simp
  }
qed

lemma page_split:
  assumes "page_aligned a" and "unat a \<le> unat x"
  shows "x = a + page_of a x + (x AND (PAGE_SIZE - 1))"
proof -
  obtain k where k: "unat a = 4096 * k" using assms(1) by (auto simp: page_aligned_def)
  define n where "n = unat x - unat a"
  have "unat x = 4096 * k + n" using assms(2) k by (simp add: n_def)
  then have "unat x mod 4096 = n mod 4096" by simp
  then have "unat x = unat a + (n div 4096 * 4096 + unat x mod 4096)"
    using assms(2) n_def by simp
  then have "unat x = unat a + (unat (page_of a x) + unat (x AND (PAGE_SIZE - 1)))"
    by (simp only: unat_page_of n_def and_page_mask)
  then have "(of_nat (unat x) :: uint64) = of_nat (unat a + (unat (page_of a x) + unat (x AND (PAGE_SIZE - 1))))"
    by (rule arg_cong)
  then show ?thesis by (simp add: add.assoc)
qed

definition dma_range :: "uint64 \<Rightarrow> uint64 \<Rightarrow> bool" where
  "dma_range a len \<longleftrightarrow> page_aligned a \<and> page_aligned len \<and> unat a + unat len \<le> 2 ^ 48"

lemma offset_bound:
  assumes R: "dma_range a len" and "off \<in> set (page_offsets len)"
  shows "unat (a + off) = unat a + unat off" and "unat off + 4096 \<le> unat len"
proof -
  have off: "page_aligned off" "unat off < unat len"
    using assms set_page_offsets[of len] by (auto simp: word_less_nat_alt dma_range_def)
  then show "unat off + 4096 \<le> unat len"
    using R unfolding page_aligned_def dma_range_def by (elim conjE dvdE) simp
  show "unat (a + off) = unat a + unat off"
    using off(2) R by (simp add: unat_word_ariths dma_range_def)
qed

lemma page_of_offset:
  assumes "dma_range a len" and "inside a len x"
  shows "page_of a x \<in> set (page_offsets len)"
proof -
  have "unat (page_of a x) \<le> unat x - unat a"
    by (simp only: unat_page_of div_times_less_eq_dividend)
  also have "\<dots> < unat len" using assms(2) unfolding inside_def by linarith
  finally show ?thesis
    using assms(1) by (simp add: set_page_offsets dma_range_def page_aligned_page_of word_less_nat_alt)
qed

lemma path_page_of:
  assumes R: "dma_range a len" and "inside a len x" and "unat x < 2 ^ 48"
  shows "path (a + page_of a x) = path x"
proof -
  obtain k where k: "unat a = 4096 * k" using R by (auto simp: page_aligned_def dma_range_def)
  have "unat x = 4096 * k + (unat x - unat a)" using assms(2) k by (simp add: inside_def)
  then have d: "unat x div 4096 = k + (unat x - unat a) div 4096" by simp
  have u: "unat (a + page_of a x) = unat a + unat (page_of a x)"
    using offset_bound(1)[OF R page_of_offset[OF R assms(2)]] .
  then have "unat (a + page_of a x) div 4096 = unat x div 4096"
    using d k by (simp add: unat_page_of)
  moreover have "unat (a + page_of a x) \<le> unat x"
    using u assms(2) div_times_less_eq_dividend[of "unat x - unat a" 4096]
    unfolding unat_page_of inside_def by linarith
  ultimately show ?thesis using assms(3) by (subst path_eq_iff) auto
qed

lemma path_offset:
  assumes R: "dma_range a len" and "off \<in> set (page_offsets len)" and "path (a + off) = path x"
    and "unat x < 2 ^ 48"
  shows "inside a len x \<and> off = page_of a x"
proof -
  have off: "page_aligned off" using assms(1,2) set_page_offsets[of len] by (auto simp: dma_range_def)
  then obtain j k where jk: "unat a = 4096 * k" "unat off = 4096 * j"
    using R unfolding page_aligned_def dma_range_def by (metis dvdE)
  note b = offset_bound[OF R assms(2)]
  have "unat (a + off) < 2 ^ 48" using b R by (simp add: dma_range_def)
  then have "unat x div 4096 = k + j" using assms(3,4) b(1) jk by (simp add: path_eq_iff)
  then have le: "4096 * (k + j) \<le> unat x" "unat x < 4096 * (k + j) + 4096"
    by (metis div_times_less_eq_dividend mult.commute)
       (metis \<open>unat x div 4096 = k + j\<close> add.commute dividend_less_times_div zero_less_numeral)
  then have "inside a len x" using b jk by (simp add: inside_def)
  moreover have "unat off = unat (page_of a x)"
  proof -
    have "unat x = 4096 * k + (unat x - unat a)" using le jk by simp
    then have "unat x div 4096 = k + (unat x - unat a) div 4096" by simp
    then show ?thesis using \<open>unat x div 4096 = k + j\<close> jk by (simp add: unat_page_of)
  qed
  ultimately show ?thesis by (simp only: word_unat_eq_iff)
qed

lemma paths_inside:
  "dma_range a len \<Longrightarrow> unat x < 2 ^ 48 \<Longrightarrow> path x \<in> paths a (page_offsets len) \<longleftrightarrow> inside a len x"
  using path_offset[of a len _ x] path_page_of[of a len x] page_of_offset[of a len x]
  unfolding paths_def by (metis (no_types, lifting) image_iff)

section \<open>Translation\<close>

text \<open>
  The physical address that the unit's walk gives for a device address, and the one that the
  mapping table promises.
\<close>

definition translate :: "IovaDomain \<Rightarrow> 'h iommu \<Rightarrow> uint64 \<Rightarrow> uint64 option" where
  "translate d s x = map_option (\<lambda>p. p + (x AND (PAGE_SIZE - 1))) (xmap d s (path x))"

definition mapped :: "IovaRange list \<Rightarrow> uint64 \<Rightarrow> uint64 option" where
  "mapped ms x = map_option (\<lambda>r. r_physical r + (x - r_device_address r))
     (List.find (\<lambda>r. r_active r \<and> inside (r_device_address r) (r_length r) x) ms)"

lemma fold_upd_other: "q \<notin> k ` set xs \<Longrightarrow> fold (\<lambda>x m. m(k x \<mapsto> v x)) xs m q = m q"
  by (induction xs arbitrary: m) auto

lemma fold_upd_key:
  "y \<in> set xs \<Longrightarrow> (\<And>x. x \<in> set xs \<Longrightarrow> k x = k y \<Longrightarrow> v x = v y) \<Longrightarrow>
    fold (\<lambda>x m. m(k x \<mapsto> v x)) xs m (k y) = Some (v y)"
proof (induction xs rule: rev_induct)
  case (snoc x xs)
  show ?case
  proof (cases "k x = k y")
    case True
    with snoc.prems(2)[of x] show ?thesis by (simp add: fun_upd_same del: fun_upd_apply)
  next
    case False
    then have "y \<in> set xs" using snoc.prems(1) by auto
    then have "fold (\<lambda>x m. m(k x \<mapsto> v x)) xs m (k y) = Some (v y)"
      by (rule snoc.IH) (simp add: snoc.prems(2))
    with False show ?thesis by (simp add: fun_upd_other del: fun_upd_apply)
  qed
qed simp

lemma populate_translate:
  assumes R: "dma_range a len" and ph: "page_aligned ph" and x: "unat x < 2 ^ 48"
    and m: "xmap d' s' = fold (\<lambda>off m. m(path (a + off) \<mapsto> target (ph + off))) (page_offsets len) (xmap d s)"
  shows "translate d' s' x = (if inside a len x then Some (ph + (x - a)) else translate d s x)"
proof (cases "inside a len x")
  case True
  let ?o = "page_of a x"
  have key: "path (a + ?o) = path x" by (rule path_page_of[OF R True x])
  have "xmap d' s' (path (a + ?o)) = Some (target (ph + ?o))"
    unfolding m
  proof (rule fold_upd_key)
    show "?o \<in> set (page_offsets len)" by (rule page_of_offset[OF R True])
    fix off assume "off \<in> set (page_offsets len)" "path (a + off) = path (a + ?o)"
    with key path_offset[OF R, of off x] x have "off = ?o" by simp
    then show "target (ph + off) = target (ph + ?o)" by simp
  qed
  moreover have "target (ph + ?o) = ph + ?o"
    using ph by (intro target_aligned page_aligned_add page_aligned_page_of)
  moreover have "x - a = ?o + (x AND (PAGE_SIZE - 1))"
  proof -
    have "page_aligned a" "unat a \<le> unat x" using R True by (simp_all add: dma_range_def inside_def)
    from page_split[OF this] show ?thesis by (simp add: diff_eq_eq add.commute add.left_commute)
  qed
  ultimately show ?thesis using True key by (simp add: translate_def add.assoc)
next
  case False
  then have "path x \<notin> (\<lambda>off. path (a + off)) ` set (page_offsets len)"
    using paths_inside[OF R x] by (simp add: paths_def)
  then have "xmap d' s' (path x) = xmap d s (path x)" unfolding m by (rule fold_upd_other)
  with False show ?thesis by (simp add: translate_def)
qed

lemma clear_translate:
  assumes "dma_range a len" and "unat x < 2 ^ 48"
    and "xmap d' s' = (\<lambda>q. if q \<in> paths a (page_offsets len) then None else xmap d s q)"
  shows "translate d' s' x = (if inside a len x then None else translate d s x)"
  using assms by (simp add: translate_def paths_inside)

section \<open>The mapping table\<close>

lemma ranges_unique:
  assumes "ranges_ok ms" and "i < length ms" "r_active (ms ! i)" and "j < length ms" "r_active (ms ! j)"
    and "inside (r_device_address (ms ! i)) (r_length (ms ! i)) x"
    and "inside (r_device_address (ms ! j)) (r_length (ms ! j)) x"
  shows "i = j"
proof (rule ccontr)
  assume "i \<noteq> j"
  with assms(1-5) have "hi (ms ! i) \<le> lo (ms ! j) \<or> hi (ms ! j) \<le> lo (ms ! i)"
    by (simp add: ranges_ok_def)
  with assms(6,7) show False unfolding inside_def by linarith
qed

lemma mapped_eq_Some:
  assumes "ranges_ok ms" and "i < length ms" and "r_active (ms ! i)"
    and "inside (r_device_address (ms ! i)) (r_length (ms ! i)) x"
  shows "mapped ms x = Some (r_physical (ms ! i) + (x - r_device_address (ms ! i)))"
proof -
  let ?hit = "\<lambda>r. r_active r \<and> inside (r_device_address r) (r_length r) x"
  have "\<not> ?hit (ms ! j)" if "j < i" for j
    using that assms(2) ranges_unique[OF assms(1) _ _ assms(2,3) _ assms(4), of j] by linarith
  then have "List.find ?hit ms = Some (ms ! i)"
    unfolding find_Some_iff using assms(2-4) by blast
  then show ?thesis by (simp add: mapped_def)
qed

lemma mapped_eq_None:
  "(\<And>r. r \<in> actives ms \<Longrightarrow> \<not> inside (r_device_address r) (r_length r) x) \<Longrightarrow> mapped ms x = None"
  by (auto simp: mapped_def find_eq_None actives_def)

lemma mapped_cases:
  assumes "ranges_ok ms"
  obtains i where "i < length ms" "r_active (ms ! i)"
      "inside (r_device_address (ms ! i)) (r_length (ms ! i)) x"
  | "\<And>r. r \<in> actives ms \<Longrightarrow> \<not> inside (r_device_address r) (r_length r) x" "mapped ms x = None"
  using mapped_eq_None[of ms x] by (metis (no_types, lifting) actives_def in_set_conv_nth mem_Collect_eq)

lemma mapped_add:
  assumes ok: "ranges_ok ms" and slot: "slot < length ms" "\<not> r_active (ms ! slot)"
    and r: "range_ok r" "r_active r" and fit: "fits ms (unat (r_length r)) (lo r)"
  shows "mapped (ms[slot := r]) x =
    (if inside (r_device_address r) (r_length r) x then Some (r_physical r + (x - r_device_address r))
     else mapped ms x)"
proof -
  have ok': "ranges_ok (ms[slot := r])" by (rule ranges_ok_add[OF ok slot(1) r(1) fit])
  show ?thesis
  proof (cases "inside (r_device_address r) (r_length r) x")
    case True
    with mapped_eq_Some[OF ok', of slot x] slot r show ?thesis by simp
  next
    case False
    from ok show ?thesis
    proof (cases rule: mapped_cases[where x = x])
      case (1 i)
      then have "i \<noteq> slot" using slot by auto
      with mapped_eq_Some[OF ok', of i x] mapped_eq_Some[OF ok, of i x] 1 False show ?thesis by simp
    next
      case 2
      have "\<not> inside (r_device_address r') (r_length r') x" if "r' \<in> actives (ms[slot := r])" for r'
        using that actives_update[OF slot(1), of r] 2(1) False r(2) by auto
      then show ?thesis using mapped_eq_None 2(2) False by metis
    qed
  qed
qed

lemma mapped_remove:
  assumes ok: "ranges_ok ms" and slot: "j < length ms" "r_active (ms ! j)"
  shows "mapped (ms[j := null_range]) x =
    (if inside (r_device_address (ms ! j)) (r_length (ms ! j)) x then None else mapped ms x)"
proof -
  have ok': "ranges_ok (ms[j := null_range])" by (rule ranges_ok_remove[OF ok slot(1)])
  from ok' show ?thesis
  proof (cases rule: mapped_cases[where x = x])
    case (1 i)
    then have ij: "i \<noteq> j" "i < length ms" using slot by (auto simp: null_range_def)
    have "\<not> inside (r_device_address (ms ! j)) (r_length (ms ! j)) x"
      using ranges_unique[OF ok ij(2) _ slot, of x] ij(1) 1 by auto
    with mapped_eq_Some[OF ok', of i x] mapped_eq_Some[OF ok, of i x] 1 ij show ?thesis by simp
  next
    case 2
    have "\<not> inside (r_device_address (ms ! i)) (r_length (ms ! i)) x"
      if "i < length ms" "r_active (ms ! i)" "i \<noteq> j" for i
    proof -
      have "ms[j := null_range] ! i \<in> actives (ms[j := null_range])" using that by (intro actives_nth) auto
      with 2(1) that show ?thesis by fastforce
    qed
    then have "\<not> inside (r_device_address (ms ! j)) (r_length (ms ! j)) x \<longrightarrow> mapped ms x = None"
      by (intro impI mapped_eq_None) (auto simp: actives_def in_set_conv_nth)
    with 2 show ?thesis by auto
  qed
qed

end
