(* ===== verification/Iova_Dma.thy ===== *)
theory Iova_Dma
  imports Iova_Translate
begin

text \<open>
  The whole DMA state: all domains at once, apart from each other and from the context tables of
  the unit. The operations work on one domain in hand and put it back; the hardware accesses in
  between touch no table.
\<close>

section \<open>Hardware accesses\<close>

definition core :: "'h iommu \<Rightarrow> VtdState \<times> IovaDomain list \<times> (uint64 \<Rightarrow> nat \<Rightarrow> uint64) \<times> uint64 list" where
  "core s = (vtd_state s, iova_domains s, pages s, pool s)"

lemma core_ReadRegister32 [kframe]: "core (snd (ReadRegister32 D b off s)) = core s"
  by (simp add: ReadRegister32_def core_def split_beta Let_def)

lemma core_ReadRegister64 [kframe]: "core (snd (ReadRegister64 D b off s)) = core s"
  by (simp add: ReadRegister64_def split_beta Let_def kframe)

lemma core_WriteRegister32 [kframe]: "core (WriteRegister32 D b off v s) = core s"
  by (simp add: WriteRegister32_def core_def)

lemma core_WriteRegister64 [kframe]: "core (WriteRegister64 D b off v s) = core s"
  by (simp add: WriteRegister64_def kframe)

lemma core_wait_loop32 [kframe]: "core (snd (wait_loop32 D n b off m e s)) = core s"
  by (induction n arbitrary: s) (simp_all add: split_beta Let_def kframe)

lemma core_wait_loop64 [kframe]: "core (snd (wait_loop64 D n b off m s)) = core s"
  by (induction n arbitrary: s) (simp_all add: split_beta Let_def kframe)

lemma core_poll_loop [kframe]: "core (snd (poll_loop D n b s)) = core s"
proof (induction n arbitrary: s)
  case (Suc n)
  have "core (s\<lparr>hw := h, completion := c\<rparr>) = core s" for s :: "'a iommu" and h c by (simp add: core_def)
  with Suc show ?case by (simp add: split_beta Let_def kframe)
qed simp

lemma core_SubmitQueuedInvalidation [kframe]: "core (snd (SubmitQueuedInvalidation D x y s)) = core s"
proof -
  have "core (s\<lparr>iqueue := q, completion := c\<rparr>) = core s" for s :: "'a iommu" and q c by (simp add: core_def)
  then show ?thesis by (simp add: SubmitQueuedInvalidation_def split_beta Let_def kframe)
qed

lemma core_InvalidateVtdCaches [kframe]: "core (snd (InvalidateVtdCaches D s)) = core s"
  by (simp add: InvalidateVtdCaches_def WaitRegister64Clear_def split_beta Let_def kframe)

lemma core_LogVtdFaultState [kframe]: "core (LogVtdFaultState D s) = core s"
  by (simp add: LogVtdFaultState_def split_beta Let_def kframe)

section \<open>The invariant\<close>

definition ctx_ok :: "uint64 set \<Rightarrow> 'h iommu \<Rightarrow> bool" where
  "ctx_ok C s \<longleftrightarrow> root_table (vtd_state s) \<in> C \<and>
     (\<forall>bus. GetContextTable (root_table (vtd_state s)) bus s \<in> C - {root_table (vtd_state s)})"

definition maps_ok :: "IovaDomain \<Rightarrow> 'h iommu \<Rightarrow> bool" where
  "maps_ok d s \<longleftrightarrow> ranges_ok (d_mappings d) \<and> (\<forall>r \<in> actives (d_mappings d). page_aligned (r_physical r)) \<and>
     (\<forall>x. unat x < 2 ^ 48 \<longrightarrow> translate d s x = mapped (d_mappings d) x)"

definition tree_ok :: "IovaDomain \<Rightarrow> 'h iommu \<Rightarrow> bool" where
  "tree_ok d s \<longleftrightarrow> (\<exists>lev. tree (pages s) lev (set (d_tables d)) \<and> d_root d \<in> set (d_tables d) \<and>
     lev (d_root d) = 3)"

abbreviation tabs :: "'h iommu \<Rightarrow> nat \<Rightarrow> uint64 set" where
  "tabs s j \<equiv> set (d_tables (iova_domains s ! j))"

definition others :: "nat \<Rightarrow> 'h iommu \<Rightarrow> uint64 set" where
  "others i s = (\<Union>j \<in> {0..<IovaDomainCapacity} - {i}. tabs s j)"

text \<open>
  \<open>C\<close> holds the root table and the context tables. Unused slots are cleared, the domains in use
  belong to different devices, and each has a tree that translates as its mapping table says.
\<close>

definition dma_ok :: "uint64 set \<Rightarrow> 'h iommu \<Rightarrow> bool" where
  "dma_ok C s \<longleftrightarrow> length (iova_domains s) = IovaDomainCapacity \<and> ctx_ok C s \<and>
     (\<forall>j < IovaDomainCapacity. \<not> d_active (iova_domains s ! j) \<longrightarrow> iova_domains s ! j = null_domain) \<and>
     (\<forall>j < IovaDomainCapacity. d_active (iova_domains s ! j) \<longrightarrow>
        tree_ok (iova_domains s ! j) s \<and> maps_ok (iova_domains s ! j) s) \<and>
     (\<forall>j < IovaDomainCapacity. tabs s j \<inter> C = {}) \<and>
     (\<forall>j < IovaDomainCapacity. \<forall>k < IovaDomainCapacity. j \<noteq> k \<longrightarrow> tabs s j \<inter> tabs s k = {}) \<and>
     (\<forall>j < IovaDomainCapacity. \<forall>k < IovaDomainCapacity. d_active (iova_domains s ! j) \<longrightarrow>
        d_active (iova_domains s ! k) \<longrightarrow> d_device (iova_domains s ! j) = d_device (iova_domains s ! k) \<longrightarrow> j = k) \<and>
     pool_ok (C \<union> (\<Union>j \<in> {0..<IovaDomainCapacity}. tabs s j)) s"

text \<open>Domain \<open>d\<close> of slot \<open>i\<close> is in hand, in a state that began as \<open>s0\<close>.\<close>

definition hand :: "uint64 set \<Rightarrow> nat \<Rightarrow> 'h iommu \<Rightarrow> IovaDomain \<Rightarrow> 'h iommu \<Rightarrow> bool" where
  "hand C i s0 d s \<longleftrightarrow> length (iova_domains s) = IovaDomainCapacity \<and>
     (\<forall>j < IovaDomainCapacity. j \<noteq> i \<longrightarrow> iova_domains s ! j = iova_domains s0 ! j) \<and>
     vtd_state s = vtd_state s0 \<and> ctx_ok C s \<and> C \<inter> others i s0 = {} \<and> (\<forall>u \<in> others i s0. pages s u = pages s0 u) \<and>
     (\<exists>lev. dom_ok (C \<union> others i s0) lev d s)"

lemma walk_cong:
  "tree P lev T \<Longrightarrow> (\<And>u. u \<in> T \<Longrightarrow> P' u = P u) \<Longrightarrow> t \<in> T \<Longrightarrow> length q \<le> Suc (lev t) \<Longrightarrow>
    walk P' q t = walk P q t"
proof (induction q arbitrary: t)
  case (Cons i q)
  show ?case
  proof (cases "q = []")
    case True
    with Cons.prems show ?thesis by simp
  next
    case False
    then have l: "0 < lev t" using Cons.prems(4) by (cases q) auto
    have e: "P' t = P t" by (rule Cons.prems(2)[OF Cons.prems(3)])
    show ?thesis
    proof (cases "present (P t i)")
      case True
      have "walk P' q (target (P t i)) = walk P q (target (P t i))"
        using tree_child[OF Cons.prems(1,3) l True] Cons.prems(4)
        by (intro Cons.IH[OF Cons.prems(1,2)]) auto
      with True e show ?thesis by simp
    qed (simp add: e)
  qed
qed simp

lemma translate_cong:
  assumes "tree_ok d s" and "\<And>u. u \<in> set (d_tables d) \<Longrightarrow> pages s' u = pages s u"
  shows "translate d s' x = translate d s x" and "tree_ok d s'"
proof -
  from assms(1) obtain lev where t: "tree (pages s) lev (set (d_tables d))"
    "d_root d \<in> set (d_tables d)" "lev (d_root d) = 3" by (auto simp: tree_ok_def)
  have "walk (pages s') (path x) (d_root d) = walk (pages s) (path x) (d_root d)"
    using t by (intro walk_cong[OF t(1) assms(2)]) auto
  then show "translate d s' x = translate d s x"
    by (simp add: translate_def xmap_def xlat_def)
  have "tree (pages s') lev (set (d_tables d))"
    using t(1) assms(2) by (simp add: tree_def)
  with t show "tree_ok d s'" by (auto simp: tree_ok_def)
qed

lemma maps_ok_cong:
  assumes "maps_ok d s" and "tree_ok d s" and "\<And>u. u \<in> set (d_tables d) \<Longrightarrow> pages s' u = pages s u"
  shows "maps_ok d s'"
proof -
  have "translate d s' = translate d s"
    by (rule ext) (rule translate_cong(1)[OF assms(2,3)])
  with assms(1) show ?thesis by (simp add: maps_ok_def)
qed

section \<open>Taking a domain in hand and putting it back\<close>

lemma pool_ok_mono: "pool_ok U s \<Longrightarrow> V \<subseteq> U \<Longrightarrow> pool_ok V s"
  by (auto simp: pool_ok_def)

lemma pool_ok_cong: "pool s' = pool s \<Longrightarrow> pool_ok U s' = pool_ok U s"
  by (simp add: pool_ok_def)

lemma others_tabs: "j < IovaDomainCapacity \<Longrightarrow> j \<noteq> i \<Longrightarrow> u \<in> tabs s j \<Longrightarrow> u \<in> others i s"
  by (auto simp: others_def)

lemma all_tabs:
  "i < IovaDomainCapacity \<Longrightarrow> (\<Union>j \<in> {0..<IovaDomainCapacity}. tabs s j) = tabs s i \<union> others i s"
  by (auto simp: others_def)

lemma others_ctx: "dma_ok C s \<Longrightarrow> C \<inter> others i s = {}"
  unfolding dma_ok_def others_def by fastforce

lemma hand_existing:
  assumes "dma_ok C s" and "i < IovaDomainCapacity" and "d_active (iova_domains s ! i)"
  shows "hand C i s (iova_domains s ! i) s"
proof -
  let ?d = "iova_domains s ! i"
  have "tree_ok ?d s" using assms by (simp add: dma_ok_def)
  then obtain lev where "tree (pages s) lev (set (d_tables ?d))" "d_root ?d \<in> set (d_tables ?d)"
    "lev (d_root ?d) = 3" by (auto simp: tree_ok_def)
  moreover have "set (d_tables ?d) \<inter> (C \<union> others i s) = {}"
    using assms(1,2) unfolding dma_ok_def others_def by fastforce
  moreover have "pool_ok (set (d_tables ?d) \<union> (C \<union> others i s)) s"
    using assms(1,2) all_tabs[of i s] by (simp add: dma_ok_def Un_left_commute)
  ultimately have "dom_ok (C \<union> others i s) lev ?d s" by (simp add: dom_ok_def)
  with assms(1) others_ctx[OF assms(1)] show ?thesis by (auto simp: hand_def dma_ok_def)
qed

lemma put_domain_simps [simp]:
  "vtd_state (put_domain i d s) = vtd_state s" "pages (put_domain i d s) = pages s"
  "pool (put_domain i d s) = pool s"
  "iova_domains (put_domain i d s) = (iova_domains s)[i := d]"
  by (simp_all add: put_domain_def)

text \<open>The other slots, when slot \<open>i\<close> of the list is replaced.\<close>

lemma dma_ok_put:
  assumes ok: "dma_ok C s0" and i: "i < IovaDomainCapacity" and h: "hand C i s0 d0 s"
    and T: "set (d_tables d) \<subseteq> set (d_tables d0)"
    and d: "d_active d \<longrightarrow> tree_ok d s \<and> maps_ok d s" "\<not> d_active d \<longrightarrow> d = null_domain"
    and dev: "\<And>j. j < IovaDomainCapacity \<Longrightarrow> j \<noteq> i \<Longrightarrow> d_active (iova_domains s0 ! j) \<Longrightarrow> d_active d \<Longrightarrow>
      d_device (iova_domains s0 ! j) \<noteq> d_device d"
  shows "dma_ok C (put_domain i d s)"
proof -
  let ?s = "put_domain i d s"
  from h obtain lev where len: "length (iova_domains s) = IovaDomainCapacity"
    and same: "\<And>j. j < IovaDomainCapacity \<Longrightarrow> j \<noteq> i \<Longrightarrow> iova_domains s ! j = iova_domains s0 ! j"
    and ctx: "ctx_ok C s" and pg: "\<And>u. u \<in> others i s0 \<Longrightarrow> pages s u = pages s0 u"
    and dom: "dom_ok (C \<union> others i s0) lev d0 s" by (auto simp: hand_def)
  have nth: "iova_domains ?s ! j = (if j = i then d else iova_domains s0 ! j)" if "j < IovaDomainCapacity" for j
    using that len same by simp
  have oth: "others i ?s = others i s0" unfolding others_def
    by (rule SUP_cong) (simp_all add: same)
  have dis: "set (d_tables d) \<inter> C = {}" "set (d_tables d) \<inter> others i s0 = {}"
    using dom T by (auto simp: dom_ok_def)
  have pages_ok: "pages ?s u = pages s0 u" if "j < IovaDomainCapacity" "j \<noteq> i" "u \<in> tabs s0 j" for j u
    using that pg others_tabs[of j i u s0] by simp
  have tree_put: "tree_ok d ?s" "maps_ok d ?s" if "d_active d"
    using that d(1) by (simp_all add: tree_ok_def maps_ok_def translate_def xmap_def)
  have one: "(\<not> d_active (iova_domains ?s ! j) \<longrightarrow> iova_domains ?s ! j = null_domain) \<and>
      (d_active (iova_domains ?s ! j) \<longrightarrow> tree_ok (iova_domains ?s ! j) ?s \<and> maps_ok (iova_domains ?s ! j) ?s) \<and>
      tabs ?s j \<inter> C = {}" if j: "j < IovaDomainCapacity" for j
  proof (cases "j = i")
    case True
    with nth[OF j] d(2) tree_put dis show ?thesis by simp
  next
    case False
    note pj = pages_ok[OF j False]
    have "tree_ok (iova_domains s0 ! j) ?s \<and> maps_ok (iova_domains s0 ! j) ?s" if "d_active (iova_domains s0 ! j)"
      using that ok j translate_cong(2)[of "iova_domains s0 ! j" s0 ?s] pj
        maps_ok_cong[of "iova_domains s0 ! j" s0 ?s] by (simp add: dma_ok_def)
    with False nth[OF j] ok j show ?thesis by (simp add: dma_ok_def)
  qed
  have two: "tabs ?s j \<inter> tabs ?s k = {}" if "j < IovaDomainCapacity" "k < IovaDomainCapacity" "j \<noteq> k" for j k
  proof -
    have sub: "tabs s0 k \<subseteq> others i s0" if "k < IovaDomainCapacity" "k \<noteq> i" for k
      using that others_tabs by blast
    have "tabs s0 j \<inter> tabs s0 k = {}" using ok that by (simp add: dma_ok_def)
    then show ?thesis
      unfolding nth[OF that(1)] nth[OF that(2)]
      using that(3) dis(2) sub[OF that(1)] sub[OF that(2)] by (cases "j = i"; cases "k = i") auto
  qed
  have uniq: "j = k" if "j < IovaDomainCapacity" "k < IovaDomainCapacity" "d_active (iova_domains ?s ! j)"
    "d_active (iova_domains ?s ! k)" "d_device (iova_domains ?s ! j) = d_device (iova_domains ?s ! k)" for j k
  proof -
    have "d_active (iova_domains s0 ! j) \<Longrightarrow> d_active (iova_domains s0 ! k) \<Longrightarrow>
        d_device (iova_domains s0 ! j) = d_device (iova_domains s0 ! k) \<Longrightarrow> j = k"
      using ok that(1,2) by (simp add: dma_ok_def)
    then show ?thesis
      using that(3-5) dev[OF that(1)] dev[OF that(2)] unfolding nth[OF that(1)] nth[OF that(2)]
      by (cases "j = i"; cases "k = i") auto
  qed
  have "pool_ok (C \<union> (\<Union>j \<in> {0..<IovaDomainCapacity}. tabs ?s j)) s"
    using dom T nth[OF i] unfolding all_tabs[OF i] oth dom_ok_def by (elim conjE pool_ok_mono) auto
  then have "pool_ok (C \<union> (\<Union>j \<in> {0..<IovaDomainCapacity}. tabs ?s j)) ?s"
    by (simp only: pool_ok_cong[of ?s s] put_domain_simps)
  moreover have "ctx_ok C ?s" using ctx by (simp add: ctx_ok_def GetContextTable_def)
  moreover have "length (iova_domains ?s) = IovaDomainCapacity" using len by simp
  ultimately show ?thesis unfolding dma_ok_def using one two uniq by blast
qed

section \<open>Steps with a domain in hand\<close>

lemma hand_kept:
  assumes "hand C i s0 d s" and "kept (C \<union> others i s0) d s d' s'" and "dom_ok (C \<union> others i s0) lev d' s'"
  shows "hand C i s0 d' s'"
proof -
  have ctx: "ctx_ok C s" using assms(1) unfolding hand_def by blast
  then have root: "root_table (vtd_state s) \<in> C" by (simp add: ctx_ok_def)
  then have "pages s' (root_table (vtd_state s)) = pages s (root_table (vtd_state s))"
    using assms(2) by (simp add: kept_def)
  then have "ctx_ok C s'"
    using ctx assms(2) by (simp add: kept_def ctx_ok_def GetContextTable_def)
  then show ?thesis using assms by (auto simp: hand_def kept_def)
qed

text \<open>States that differ in the page \<open>t\<close> and the hardware at most.\<close>

definition only :: "uint64 \<Rightarrow> 'h iommu \<Rightarrow> 'h iommu \<Rightarrow> bool" where
  "only t s s' \<longleftrightarrow> vtd_state s' = vtd_state s \<and> iova_domains s' = iova_domains s \<and> pool s' = pool s \<and>
     (\<forall>u. u \<noteq> t \<longrightarrow> pages s' u = pages s u)"

lemma only_core: "core s' = core s \<Longrightarrow> only t s s'"
  by (simp add: only_def core_def)

lemma only_refl [simp]: "only t s s"
  by (simp add: only_def)

lemma only_trans: "only t s s' \<Longrightarrow> only t s' s'' \<Longrightarrow> only t s s''"
  by (simp add: only_def)

lemma only_set_word [simp]: "only t s (set_word t i v s)"
  by (simp add: only_def set_word_def)

lemma only_invalidate: "only t s s' \<Longrightarrow> only t s (snd (InvalidateVtdCaches D s'))"
  using only_trans[OF _ only_core[OF core_InvalidateVtdCaches]] .

lemma only_store: "only t s s' \<Longrightarrow> only t s (set_word t i v s')"
  using only_trans[OF _ only_set_word] .

lemma only_restore: "only t s s' \<Longrightarrow> only t s (snd (RestorePassthroughContext D t r s'))"
  unfolding RestorePassthroughContext_def Let_def split_beta
  by (intro only_invalidate only_store)

lemmas only_intros = only_invalidate only_store only_restore only_refl

lemma AttachDomain_frame:
  assumes "AttachDomain D dev d s = (ok, d', s')"
  shows "(\<exists>b. d' = d\<lparr>d_attached := b\<rparr>) \<and>
    only (GetContextTable (root_table (vtd_state s)) (pci_bus (dev (d_device d))) s) s s'"
proof -
  let ?t = "GetContextTable (root_table (vtd_state s)) (pci_bus (dev (d_device d))) s"
  have "only ?t s (snd (snd (AttachDomain D dev d s)))"
    unfolding AttachDomain_def Let_def split_beta
    by (simp add: only_intros)
  moreover have "\<exists>b. fst (snd (AttachDomain D dev d s)) = d\<lparr>d_attached := b\<rparr>"
    unfolding AttachDomain_def Let_def split_beta
    by (simp add: exI[of _ "d_attached d"] exI[of _ True])
  ultimately show ?thesis using assms by simp
qed

lemma hand_only:
  assumes "hand C i s0 d s" and "only t s s'" and "t \<in> C - {root_table (vtd_state s)}"
  shows "hand C i s0 d s'" and "xmap d s' = xmap d s"
proof -
  from assms(1) obtain lev where dom: "dom_ok (C \<union> others i s0) lev d s"
    and ctx: "ctx_ok C s" and oth: "\<forall>u \<in> others i s0. pages s u = pages s0 u" by (auto simp: hand_def)
  have T: "pages s' u = pages s u" if "u \<in> set (d_tables d)" for u
    using that assms(2,3) dom unfolding dom_ok_def only_def by (metis DiffD1 IntI UnI1 empty_iff)
  have tr: "tree (pages s) lev (set (d_tables d))" using dom by (simp add: dom_ok_def)
  then have "tree (pages s') lev (set (d_tables d))" using T by (simp add: tree_def)
  with dom assms(2) have dom': "dom_ok (C \<union> others i s0) lev d s'"
    by (simp add: dom_ok_def only_def pool_ok_def)
  have "pages s' (root_table (vtd_state s)) = pages s (root_table (vtd_state s))"
    using assms(2,3) unfolding only_def by (metis DiffD2 singletonI)
  then have "ctx_ok C s'" using ctx assms(2) by (simp add: ctx_ok_def only_def GetContextTable_def)
  moreover have "pages s' u = pages s0 u" if u: "u \<in> others i s0" for u
  proof -
    have "u \<noteq> t" using u assms(1,3) by (auto simp: hand_def)
    then show ?thesis using u oth assms(2) by (simp add: only_def)
  qed
  ultimately show "hand C i s0 d s'"
    using assms(1,2) dom' by (auto simp: hand_def only_def)
  show "xmap d s' = xmap d s"
    using walk_cong[OF tr T, of "d_root d"] dom by (auto simp: xmap_def xlat_def dom_ok_def fun_eq_iff)
qed

end
