(* ===== verification/Iova_Map.thy ===== *)
theory Iova_Map
  imports Iova_Dma
begin

text \<open>
  What \<open>MapDeviceDma\<close> and \<open>UnmapDeviceDma\<close> do to the translation that each device sees.
\<close>

section \<open>The domain of a device\<close>

definition dev_translate :: "'h iommu \<Rightarrow> ptr \<Rightarrow> uint64 \<Rightarrow> uint64 option" where
  "dev_translate s y x = (case FindDomain y (iova_domains s) of
     None \<Rightarrow> None | Some i \<Rightarrow> translate (iova_domains s ! i) s x)"

lemma FindDomain_SomeD:
  assumes "FindDomain y ds = Some i"
  shows "i < IovaDomainCapacity \<and> d_active (ds ! i) \<and> d_device (ds ! i) = y"
  using find_upt_least(1,2)[OF assms[unfolded FindDomain_def]] by simp

lemma FindDomain_NoneD:
  "FindDomain y ds = None \<Longrightarrow> j < IovaDomainCapacity \<Longrightarrow> d_active (ds ! j) \<Longrightarrow> d_device (ds ! j) \<noteq> y"
  unfolding FindDomain_def by (drule find_upt_NoneD) auto

lemma FindDomain_unique:
  assumes "\<And>j. j < IovaDomainCapacity \<Longrightarrow> d_active (ds ! j) \<Longrightarrow> d_device (ds ! j) = y \<Longrightarrow> j = i"
    and "i < IovaDomainCapacity" "d_active (ds ! i)" "d_device (ds ! i) = y"
  shows "FindDomain y ds = Some i"
proof (cases "FindDomain y ds")
  case None
  with assms(2-4) FindDomain_NoneD show ?thesis by blast
next
  case (Some k)
  with FindDomain_SomeD[OF Some] assms(1) show ?thesis by simp
qed

text \<open>The slots a request of \<open>y\<close> can work on.\<close>

definition slot_for :: "ptr \<Rightarrow> nat \<Rightarrow> IovaDomain list \<Rightarrow> bool" where
  "slot_for y i ds \<longleftrightarrow> i < IovaDomainCapacity \<and>
     (FindDomain y ds = Some i \<or> FindDomain y ds = None \<and> \<not> d_active (ds ! i))"

lemma slot_for_other:
  assumes "dma_ok C s" and "slot_for y i (iova_domains s)"
    and "j < IovaDomainCapacity" "j \<noteq> i" "d_active (iova_domains s ! j)"
  shows "d_device (iova_domains s ! j) \<noteq> y"
proof (cases "FindDomain y (iova_domains s)")
  case None
  with assms FindDomain_NoneD show ?thesis by blast
next
  case (Some k)
  then have "k = i" using assms(2) by (simp add: slot_for_def)
  with FindDomain_SomeD[OF Some] assms show ?thesis unfolding dma_ok_def by metis
qed

section \<open>Outcomes\<close>

text \<open>The invariant holds, \<open>y\<close> sees the translation \<open>F\<close>, and every other device what it saw before.\<close>

definition outcome :: "uint64 set \<Rightarrow> 'h iommu \<Rightarrow> ptr \<Rightarrow> (uint64 \<Rightarrow> uint64 option) \<Rightarrow> 'h iommu \<Rightarrow> bool" where
  "outcome C s0 y F s \<longleftrightarrow> dma_ok C s \<and> vtd_state s = vtd_state s0 \<and>
     (\<forall>z x. unat x < 2 ^ 48 \<longrightarrow> dev_translate s z x = (if z = y then F x else dev_translate s0 z x))"

lemma FindDomain_put:
  assumes "dma_ok C s0" and "slot_for y i (iova_domains s0)" and "hand C i s0 d0 s" and "z \<noteq> y"
    and "d_active d \<longrightarrow> d_device d = y"
  shows "FindDomain z ((iova_domains s)[i := d]) = FindDomain z (iova_domains s0)"
    and "FindDomain z (iova_domains s0) = Some j \<Longrightarrow> (iova_domains s)[i := d] ! j = iova_domains s0 ! j \<and> j \<noteq> i"
proof -
  have i: "i < IovaDomainCapacity" using assms(2) by (simp add: slot_for_def)
  have len: "length (iova_domains s) = IovaDomainCapacity" and same: "\<And>j. j < IovaDomainCapacity \<Longrightarrow> j \<noteq> i \<Longrightarrow>
      iova_domains s ! j = iova_domains s0 ! j" using assms(3) by (auto simp: hand_def)
  have at_i: "\<not> (d_active (iova_domains s0 ! i) \<and> d_device (iova_domains s0 ! i) = z)"
    using assms(2,4) FindDomain_SomeD[of y "iova_domains s0" i] by (auto simp: slot_for_def)
  have "(d_active ((iova_domains s)[i := d] ! j) \<and> d_device ((iova_domains s)[i := d] ! j) = z) =
      (d_active (iova_domains s0 ! j) \<and> d_device (iova_domains s0 ! j) = z)" if "j < IovaDomainCapacity" for j
    using that same[OF that] at_i assms(4,5) len by (cases "j = i") auto
  then show "FindDomain z ((iova_domains s)[i := d]) = FindDomain z (iova_domains s0)"
    unfolding FindDomain_def by (intro find_cong) auto
  assume f: "FindDomain z (iova_domains s0) = Some j"
  with at_i have "j \<noteq> i" using FindDomain_SomeD by blast
  with FindDomain_SomeD[OF f] same show "(iova_domains s)[i := d] ! j = iova_domains s0 ! j \<and> j \<noteq> i" by simp
qed

lemma other_translate:
  assumes "dma_ok C s0" and "slot_for y i (iova_domains s0)" and "hand C i s0 d0 s" and "z \<noteq> y"
    and "d_active d \<longrightarrow> d_device d = y"
  shows "dev_translate (put_domain i d s) z x = dev_translate s0 z x"
proof (cases "FindDomain z (iova_domains s0)")
  case None
  then show ?thesis using FindDomain_put(1)[OF assms] by (simp add: dev_translate_def)
next
  case (Some j)
  note f = FindDomain_put(1)[OF assms] FindDomain_put(2)[OF assms Some]
  have j: "j < IovaDomainCapacity" "d_active (iova_domains s0 ! j)" using FindDomain_SomeD[OF Some] by auto
  have "pages (put_domain i d s) u = pages s0 u" if "u \<in> tabs s0 j" for u
    using that assms(3) others_tabs[OF j(1), of i u s0] f(2) by (simp add: hand_def)
  moreover have "tree_ok (iova_domains s0 ! j) s0" using assms(1) j by (simp add: dma_ok_def)
  ultimately have "translate (iova_domains s0 ! j) (put_domain i d s) x = translate (iova_domains s0 ! j) s0 x"
    by (rule translate_cong(1)[rotated])
  then show ?thesis using f Some by (simp add: dev_translate_def)
qed

lemma hand_length: "hand C i s0 d s \<Longrightarrow> length (iova_domains s) = IovaDomainCapacity"
  by (simp add: hand_def)

lemma hand_vtd: "hand C i s0 d s \<Longrightarrow> vtd_state s = vtd_state s0"
  by (simp add: hand_def)

lemma finish:
  assumes ok: "dma_ok C s0" and slot: "slot_for y i (iova_domains s0)" and h: "hand C i s0 d s"
    and d: "d_active d" "d_device d = y" "maps_ok d' s"
    and d': "d' = d\<lparr>d_mappings := ms\<rparr>"
  shows "outcome C s0 y (translate d s) (put_domain i d' s)"
proof -
  have i: "i < IovaDomainCapacity" using slot by (simp add: slot_for_def)
  from h have t: "tree_ok d' s" using d' by (auto simp: hand_def tree_ok_def dom_ok_def)
  have ok': "dma_ok C (put_domain i d' s)"
    using t d d' slot_for_other[OF ok slot] by (intro dma_ok_put[OF ok i h]) auto
  have "FindDomain y (iova_domains (put_domain i d' s)) = Some i"
  proof (rule FindDomain_unique)
    show "j = i" if "j < IovaDomainCapacity" "d_active (iova_domains (put_domain i d' s) ! j)"
      "d_device (iova_domains (put_domain i d' s) ! j) = y" for j
      using that ok' i d d' hand_length[OF h] unfolding dma_ok_def
      by (metis IovaDomain.select_convs(1,3) IovaDomain.surjective IovaDomain.update_convs(7) nth_list_update_eq put_domain_simps(4))
  qed (use i d d' hand_length[OF h] in auto)
  then have "dev_translate (put_domain i d' s) y x = translate d s x" for x
    using i d' hand_length[OF h] by (simp add: dev_translate_def translate_def xmap_def)
  then show ?thesis
    using ok' other_translate[OF ok slot h] hand_vtd[OF h] d d' by (simp add: outcome_def)
qed

lemma drop_domain:
  assumes ok: "dma_ok C s0" and none: "FindDomain y (iova_domains s0) = None"
    and slot: "slot_for y i (iova_domains s0)" and h: "hand C i s0 d s"
  shows "outcome C s0 y (dev_translate s0 y) (put_domain i null_domain s)"
proof -
  have i: "i < IovaDomainCapacity" using slot by (simp add: slot_for_def)
  have "dma_ok C (put_domain i null_domain s)"
    by (rule dma_ok_put[OF ok i h]) (auto simp: null_domain_def)
  moreover have "FindDomain y ((iova_domains s)[i := null_domain]) = None"
  proof -
    have "\<not> (d_active ((iova_domains s)[i := null_domain] ! j) \<and>
        d_device ((iova_domains s)[i := null_domain] ! j) = y)" if "j < IovaDomainCapacity" for j
      using that FindDomain_NoneD[OF none that] h by (cases "j = i") (auto simp: hand_def null_domain_def)
    then show ?thesis unfolding FindDomain_def by (auto simp: find_eq_None)
  qed
  ultimately show ?thesis
    using none other_translate[OF ok slot h, of _ null_domain] hand_vtd[OF h]
    by (simp add: outcome_def dev_translate_def null_domain_def)
qed

section \<open>Hardware accesses change no outcome\<close>

lemma core_eqD:
  "core s' = core s \<Longrightarrow> vtd_state s' = vtd_state s \<and> iova_domains s' = iova_domains s \<and>
    pages s' = pages s \<and> pool s' = pool s"
  by (simp add: core_def)

lemma xmap_core: "core s' = core s \<Longrightarrow> xmap d s' = xmap d s"
  by (rule ext) (simp add: xmap_def core_def)

lemma translate_core: "core s' = core s \<Longrightarrow> translate d s' = translate d s"
  by (rule ext) (simp add: translate_def xmap_core[of s' s])

lemma dma_ok_core: "core s' = core s \<Longrightarrow> dma_ok C s' = dma_ok C s"
proof -
  assume e: "core s' = core s"
  have "tree_ok d s' = tree_ok d s" "maps_ok d s' = maps_ok d s" for d
    using core_eqD[OF e] translate_core[OF e] by (simp_all add: tree_ok_def maps_ok_def)
  moreover have "ctx_ok C s' = ctx_ok C s" "pool_ok U s' = pool_ok U s" for U
    using core_eqD[OF e] by (simp_all add: ctx_ok_def GetContextTable_def pool_ok_def)
  ultimately show ?thesis using core_eqD[OF e] unfolding dma_ok_def by simp
qed

lemma outcome_core:
  assumes "core s' = core s"
  shows "outcome C s0 y F s' = outcome C s0 y F s"
proof -
  have "dev_translate s' = dev_translate s"
    using core_eqD[OF assms] translate_core[OF assms]
    by (intro ext) (simp add: dev_translate_def split: option.split)
  then show ?thesis using dma_ok_core[OF assms] core_eqD[OF assms] by (simp add: outcome_def)
qed

lemma hand_core: "core s' = core s \<Longrightarrow> hand C i s0 d s' = hand C i s0 d s"
  using core_eqD[of s' s] by (simp add: hand_def ctx_ok_def GetContextTable_def dom_ok_def pool_ok_def)

section \<open>The phases of a request\<close>

text \<open>In hand with its table as promised, and in hand with the pages of a new range populated.\<close>

definition idle :: "uint64 set \<Rightarrow> nat \<Rightarrow> 'h iommu \<Rightarrow> ptr \<Rightarrow> IovaDomain \<Rightarrow> 'h iommu \<Rightarrow> bool" where
  "idle C i s0 y d s \<longleftrightarrow> hand C i s0 d s \<and> d_active d \<and> d_device d = y \<and> maps_ok d s \<and>
     (\<forall>x. unat x < 2 ^ 48 \<longrightarrow> mapped (d_mappings d) x = dev_translate s0 y x)"

definition populated :: "uint64 set \<Rightarrow> nat \<Rightarrow> 'h iommu \<Rightarrow> ptr \<Rightarrow> uint64 \<Rightarrow> uint64 \<Rightarrow> uint64 \<Rightarrow>
    IovaDomain \<Rightarrow> 'h iommu \<Rightarrow> bool" where
  "populated C i s0 y a ph len d s \<longleftrightarrow> hand C i s0 d s \<and> d_active d \<and> d_device d = y \<and>
     ranges_ok (d_mappings d) \<and> (\<forall>r \<in> actives (d_mappings d). page_aligned (r_physical r)) \<and>
     (\<forall>x. unat x < 2 ^ 48 \<longrightarrow> mapped (d_mappings d) x = dev_translate s0 y x) \<and>
     (\<forall>x. unat x < 2 ^ 48 \<longrightarrow>
        translate d s x = (if inside a len x then Some (ph + (x - a)) else mapped (d_mappings d) x))"

lemma idle_put:
  assumes "dma_ok C s0" and "slot_for y i (iova_domains s0)" and "idle C i s0 y d s"
  shows "outcome C s0 y (dev_translate s0 y) (put_domain i d s)"
proof -
  have "outcome C s0 y (translate d s) (put_domain i d s)"
    using assms finish[OF assms(1,2), of d s d "d_mappings d"] by (simp add: idle_def)
  then show ?thesis using assms(3) by (simp add: outcome_def idle_def maps_ok_def)
qed

lemma core_deallocate: "core (fold (\<lambda>t. deallocate t n) ts s) = core s"
  by (induction ts arbitrary: s) (simp_all add: deallocate_def core_def)

lemma idle_core: "core s' = core s \<Longrightarrow> idle C i s0 y d s' = idle C i s0 y d s"
  using hand_core[of s' s] translate_core[of s' s] by (simp add: idle_def maps_ok_def)

lemma populated_core: "core s' = core s \<Longrightarrow> populated C i s0 y a ph len d s' = populated C i s0 y a ph len d s"
  using hand_core[of s' s] translate_core[of s' s] by (simp add: populated_def)

lemma idle_abandon:
  assumes "dma_ok C s0" and "slot_for y i (iova_domains s0)" and "idle C i s0 y d s"
    and "new = (FindDomain y (iova_domains s0) = None)"
  shows "outcome C s0 y (dev_translate s0 y) (abandon_domain new i d s)"
proof (cases new)
  case True
  let ?s = "fold (\<lambda>t. deallocate t PAGE_SIZE) (d_tables d) s"
  have "hand C i s0 d ?s" using assms(3) by (simp add: idle_def hand_core[OF core_deallocate])
  from drop_domain[OF assms(1) _ assms(2) this] True assms(4) show ?thesis
    by (simp add: abandon_domain_def ReleaseDomainTables_def)
next
  case False
  with idle_put[OF assms(1-3)] show ?thesis by (simp add: abandon_domain_def)
qed

lemma attached_update [simp]:
  "hand C i s0 (d\<lparr>d_attached := b\<rparr>) s = hand C i s0 d s"
  "translate (d\<lparr>d_attached := b\<rparr>) s = translate d s"
  by (auto simp: hand_def dom_ok_def translate_def xmap_def fun_eq_iff)

lemma attach_populated:
  assumes "populated C i s0 y a ph len d s" and "AttachDomain D dev d s = (ok, d', s')"
  shows "populated C i s0 y a ph len d' s'"
proof -
  let ?t = "GetContextTable (root_table (vtd_state s)) (pci_bus (dev (d_device d))) s"
  from AttachDomain_frame[OF assms(2)] obtain b where d': "d' = d\<lparr>d_attached := b\<rparr>" and o: "only ?t s s'" by blast
  have h: "hand C i s0 d s" using assms(1) by (simp add: populated_def)
  then have "?t \<in> C - {root_table (vtd_state s)}" unfolding hand_def ctx_ok_def by blast
  note hand_only[OF h o this]
  then have "hand C i s0 d' s'" "translate d' s' = translate d s"
    using d' by (simp_all add: translate_def fun_eq_iff)
  with assms(1) d' show ?thesis by (simp add: populated_def)
qed

lemma fits_not_inside:
  assumes "ranges_ok ms" and "fits ms (unat len) (unat a)" and "inside a len x"
  shows "mapped ms x = None"
proof (rule mapped_eq_None)
  fix r assume "r \<in> actives ms"
  with assms(2) have "unat a + unat len \<le> lo r \<or> hi r \<le> unat a" by (simp add: fits_def)
  with assms(3) show "\<not> inside (r_device_address r) (r_length r) x" unfolding inside_def by linarith
qed

lemma populate_phase:
  assumes R: "dma_range a len" and ph: "page_aligned ph" and idle: "idle C i s0 y d s"
    and fit: "fits (d_mappings d) (unat len) (unat a)"
    and p: "PopulateIovaPages d a ph len s = (ok, d', s')"
  shows "if ok then populated C i s0 y a ph len d' s' \<and> d_mappings d' = d_mappings d
    else idle C i s0 y d' s'"
proof -
  let ?E = "C \<union> others i s0"
  from idle obtain lev where dom: "dom_ok ?E lev d s" and h: "hand C i s0 d s"
    by (auto simp: idle_def hand_def)
  from populate_pages_spec[OF dom p[unfolded PopulateIovaPages_def]] obtain lev'
    where dom': "dom_ok ?E lev' d' s'" and k: "kept ?E d s d' s'"
    and m: "if ok then xmap d' s' = fold (\<lambda>off m. m(path (a + off) \<mapsto> target (ph + off))) (page_offsets len) (xmap d s)
      else xmap d' s' = (\<lambda>q. if q \<in> paths a [] then None else xmap d s q)" by blast
  have h': "hand C i s0 d' s'" by (rule hand_kept[OF h k dom'])
  note f = kept_fields[OF k]
  show ?thesis
  proof (cases ok)
    case True
    with m have m': "xmap d' s' = fold (\<lambda>off m. m(path (a + off) \<mapsto> target (ph + off))) (page_offsets len) (xmap d s)"
      by simp
    with True f h' idle populate_translate[OF R ph _ m'] show ?thesis
      by (simp add: idle_def populated_def maps_ok_def)
  next
    case False
    with m have "translate d' s' = translate d s" by (simp add: translate_def fun_eq_iff paths_def)
    with False f h' idle show ?thesis by (simp add: idle_def maps_ok_def)
  qed
qed

lemma clear_phase:
  assumes R: "dma_range a len" and p: "populated C i s0 y a ph len d s"
    and fit: "fits (d_mappings d) (unat len) (unat a)"
  shows "\<exists>s'. ClearIovaPages d a len s = (d, s') \<and> idle C i s0 y d s'"
proof -
  let ?E = "C \<union> others i s0"
  from p obtain lev where dom: "dom_ok ?E lev d s" and h: "hand C i s0 d s"
    by (auto simp: populated_def hand_def)
  from clear_pages_spec[OF dom, of "page_offsets len" a] obtain s' where
    s': "clear_pages (page_offsets len) a d s = (d, s')" "dom_ok ?E lev d s'" "kept ?E d s d s'"
    "xmap d s' = (\<lambda>q. if q \<in> paths a (page_offsets len) then None else xmap d s q)" by blast
  have "translate d s' x = mapped (d_mappings d) x" if x: "unat x < 2 ^ 48" for x
  proof (cases "inside a len x")
    case True
    with clear_translate[OF R x s'(4)] fits_not_inside[OF _ fit True] p show ?thesis
      unfolding populated_def by metis
  next
    case False
    with clear_translate[OF R x s'(4)] p x show ?thesis by (simp add: populated_def)
  qed
  with hand_kept[OF h s'(3,2)] p s'(1) show ?thesis
    by (simp add: ClearIovaPages_def idle_def populated_def maps_ok_def)
qed

section \<open>Finding or creating the domain\<close>

lemma idle_existing:
  assumes ok: "dma_ok C s" and f: "FindDomain y (iova_domains s) = Some i"
  shows "slot_for y i (iova_domains s) \<and> idle C i s y (iova_domains s ! i) s"
proof -
  have i: "i < IovaDomainCapacity" "d_active (iova_domains s ! i)" "d_device (iova_domains s ! i) = y"
    using FindDomain_SomeD[OF f] by auto
  have m: "maps_ok (iova_domains s ! i) s" using ok i by (simp add: dma_ok_def)
  then have "\<forall>x. unat x < 2 ^ 48 \<longrightarrow> mapped (d_mappings (iova_domains s ! i)) x = dev_translate s y x"
    using f by (simp add: dev_translate_def maps_ok_def)
  with hand_existing[OF ok i(1,2)] i f m show ?thesis by (simp add: slot_for_def idle_def)
qed

lemma CreateDomain_idle:
  assumes ok: "dma_ok C s" and f: "FindDomain y (iova_domains s) = None"
    and c: "CreateDomain y s = (r, s')"
  shows "case r of
      Some i \<Rightarrow> slot_for y i (iova_domains s) \<and> idle C i s y (iova_domains s' ! i) s'
    | None \<Rightarrow> outcome C s y (dev_translate s y) s'"
proof (cases "List.find (\<lambda>i. \<not> d_active (iova_domains s ! i)) [0..<IovaDomainCapacity]")
  case None
  with c have "r = None" "s' = s" by (auto simp: CreateDomain_def)
  with ok show ?thesis by (simp add: outcome_def)
next
  case (Some i)
  then have i: "i < IovaDomainCapacity" "\<not> d_active (iova_domains s ! i)" by (auto dest: find_upt_least)
  then have null: "iova_domains s ! i = null_domain" using ok by (simp add: dma_ok_def)
  let ?d = "null_domain\<lparr>d_active := True, d_device := y, d_domain_id := VtdFirstTranslatedDomain + of_nat i\<rparr>"
  let ?U = "C \<union> others i s"
  obtain n d1 s1 where a: "AllocateDomainTable ?d s = (n, d1, s1)" by (metis prod_cases3)
  have len: "length (iova_domains s) = IovaDomainCapacity" using ok by (simp add: dma_ok_def)
  have "tabs s i = {}" using null by (simp add: null_domain_def)
  then have po: "pool_ok ?U s" using ok all_tabs[OF i(1), of s] by (simp add: dma_ok_def)
  note sp = AllocateDomainTable_spec[OF po a]
  have slot: "slot_for y i (iova_domains s)" using f i by (simp add: slot_for_def)
  show ?thesis
  proof (cases "n = 0")
    case True
    with c Some a sp null have r: "r = None" "s' = s1\<lparr>iova_domains := iova_domains s\<rparr>" "iova_domains s1 = iova_domains s"
      using list_update_id[of "iova_domains s" i] by (auto simp: CreateDomain_def Let_def)
    then have e: "vtd_state s' = vtd_state s" "iova_domains s' = iova_domains s" "pages s' = pages s" "pool_ok ?U s'"
      using sp True by (simp_all add: pool_ok_def)
    have "dma_ok C s'"
      using ok e all_tabs[OF i(1), of s] \<open>tabs s i = {}\<close>
      by (simp add: dma_ok_def ctx_ok_def GetContextTable_def tree_ok_def maps_ok_def translate_def xmap_def)
    moreover have "dev_translate s' = dev_translate s"
      using e by (intro ext) (simp add: dev_translate_def translate_def xmap_def split: option.split)
    ultimately show ?thesis using r e(1) by (simp add: outcome_def)
  next
    case False
    let ?D = "?d\<lparr>d_tables := [n], d_root := n\<rparr>"
    have d1: "d1 = ?d\<lparr>d_tables := [n]\<rparr>" using sp False by (simp add: null_domain_def)
    with c Some a False sp have r: "r = Some i" "s' = s1\<lparr>iova_domains := (iova_domains s)[i := ?D]\<rparr>"
      by (auto simp: CreateDomain_def Let_def)
    have e: "vtd_state s' = vtd_state s" "pages s' = (pages s)(n := (\<lambda>_. 0))" "n \<notin> ?U" "target n = n"
      "pool_ok (insert n ?U) s'" using sp False r by (simp_all add: pool_ok_def)
    have tr: "tree (pages s') (\<lambda>_. 3) {n}" using e False by (simp add: tree_def)
    have dom: "dom_ok ?U (\<lambda>_. 3) ?D s'" using tr e by (simp add: dom_ok_def)
    have root: "root_table (vtd_state s) \<in> C" using ok by (simp add: dma_ok_def ctx_ok_def)
    then have "pages s' (root_table (vtd_state s)) = pages s (root_table (vtd_state s))" using e by auto
    then have "ctx_ok C s'" using ok e(1) by (simp add: dma_ok_def ctx_ok_def GetContextTable_def)
    moreover have "\<forall>u \<in> others i s. pages s' u = pages s u" using e by auto
    ultimately have h: "hand C i s ?D s'"
      using dom e(1) r len others_ctx[OF ok, of i] by (auto simp: hand_def)
    have "xmap ?D s' (path x) = None" for x
      using e(2) by (simp add: xmap_def xlat_def path_def upper_def)
    then have "maps_ok ?D s'"
      using ranges_ok_null by (simp add: maps_ok_def translate_def mapped_def null_domain_def actives_def
          null_range_def find_eq_None)
    moreover have "mapped (d_mappings ?D) x = dev_translate s y x" for x
      using f by (simp add: dev_translate_def mapped_def null_domain_def null_range_def find_eq_None)
    ultimately show ?thesis using r h slot len i by (simp add: idle_def)
  qed
qed

section \<open>Mapping\<close>

lemma commit_outcome:
  assumes ok: "dma_ok C s0" and slot: "slot_for y i (iova_domains s0)"
    and new: "new = (FindDomain y (iova_domains s0) = None)"
    and R: "dma_range a len" "len \<noteq> 0" and ph: "page_aligned ph"
    and p: "populated C i s0 y a ph len d s" and k: "free_slot (d_mappings d) = Some k"
    and fit: "fits (d_mappings d) (unat len) (unat a)"
    and c: "commit_dma D dev new i k a ph len d s = (r, s')"
  shows "outcome C s0 y (\<lambda>x. if r \<and> inside a len x then Some (ph + (x - a)) else dev_translate s0 y x) s'"
proof -
  obtain ok1 d1 s1 where att: "(if d_attached d then (True, d, s) else AttachDomain D dev d s) = (ok1, d1, s1)"
    by (metis prod_cases3)
  have p1: "populated C i s0 y a ph len d1 s1"
    using att p attach_populated[OF p, of D dev ok1 d1 s1] by (auto split: if_splits)
  have ms: "d_mappings d1 = d_mappings d"
    using att AttachDomain_frame[of D dev d s ok1 d1 s1] by (auto split: if_splits)
  obtain ok2 s2 where iv: "(if new then (True, s1) else InvalidateVtdCaches D s1) = (ok2, s2)" by (metis surj_pair)
  then have "core s2 = core s1"
    using core_InvalidateVtdCaches[of D s1] by (auto split: if_splits)
  then have p2: "populated C i s0 y a ph len d1 s2" using p1 populated_core by blast
  obtain fl s3 where rd: "ReadRegister32 D (registers (vtd_state s2)) kVtdFaultStatusRegister s2 = (fl, s3)"
    by (metis surj_pair)
  then have "core s3 = core s2"
    using core_ReadRegister32[of D "registers (vtd_state s2)" kVtdFaultStatusRegister s2] by simp
  then have p3: "populated C i s0 y a ph len d1 s3" using p2 populated_core by blast
  then have p4: "populated C i s0 y a ph len d1 (LogVtdFaultState D s3)"
    using populated_core[OF core_LogVtdFaultState] by blast
  note fit1 = fit[folded ms]
  note cl = clear_phase[OF R(1) _ fit1]
  have undone: "outcome C s0 y (dev_translate s0 y) s' \<Longrightarrow> \<not> r \<Longrightarrow> ?thesis" by simp
  consider (attach) "\<not> ok1" | (inval) "ok1" "\<not> ok2" | (fault) "ok1" "ok2" "fl \<noteq> 0" | (fin) "ok1" "ok2" "fl = 0"
    by blast
  then show ?thesis
  proof cases
    case attach
    from cl[OF p1] obtain s5 where s5: "ClearIovaPages d1 a len s1 = (d1, s5)" "idle C i s0 y d1 s5" by blast
    with c att attach have "\<not> r" "s' = abandon_domain new i d1 s5" by (auto simp: commit_dma_def)
    with idle_abandon[OF ok slot s5(2) new] show ?thesis by (intro undone) auto
  next
    case inval
    from cl[OF p2] obtain s5 where s5: "ClearIovaPages d1 a len s2 = (d1, s5)" "idle C i s0 y d1 s5" by blast
    with c att iv inval have "\<not> r" "s' = put_domain i d1 s5" by (auto simp: commit_dma_def)
    with idle_put[OF ok slot s5(2)] show ?thesis by (intro undone) auto
  next
    case fault
    from cl[OF p4] obtain s5 where s5: "ClearIovaPages d1 a len (LogVtdFaultState D s3) = (d1, s5)" "idle C i s0 y d1 s5"
      by blast
    with c att iv rd fault have "\<not> r" "s' = snd (InvalidateVtdCaches D (put_domain i d1 s5))"
      by (auto simp: commit_dma_def)
    with idle_put[OF ok slot s5(2)] show ?thesis
      by (intro undone) (simp_all add: outcome_core[OF core_InvalidateVtdCaches])
  next
    case fin
    let ?r = "\<lparr>r_active = True, r_device_address = a, r_physical = ph, r_length = len\<rparr>"
    let ?d = "d1\<lparr>d_mappings := (d_mappings d1)[k := ?r]\<rparr>"
    from c att iv rd fin have r: "r" "s' = put_domain i ?d s3" by (auto simp: commit_dma_def)
    have kk: "k < length (d_mappings d1)" "\<not> r_active (d_mappings d1 ! k)"
      using free_slotD[OF k] ms p3 by (auto simp: populated_def ranges_ok_def)
    have rok: "range_ok ?r" using R by (simp add: range_ok_def dma_range_def)
    have ro: "ranges_ok (d_mappings d1)" using p3 by (simp add: populated_def)
    have mp: "mapped ((d_mappings d1)[k := ?r]) x =
        (if inside a len x then Some (ph + (x - a)) else mapped (d_mappings d1) x)" for x
      using mapped_add[OF ro kk rok] fit1 by simp
    have "maps_ok ?d s3"
      using p3 mp ranges_ok_add[OF ro kk(1) rok] fit1 actives_update[OF kk(1), of ?r] ph
      by (auto simp: maps_ok_def populated_def translate_def xmap_def)
    then have "outcome C s0 y (translate d1 s3) s'"
      using finish[OF ok slot, of d1 s3 ?d] p3 r by (simp add: populated_def)
    then show ?thesis using r(1) p3 by (simp add: outcome_def populated_def)
  qed
qed

lemma outcome_refl: "dma_ok C s \<Longrightarrow> outcome C s y (dev_translate s y) s"
  by (simp add: outcome_def)

definition map_result :: "'h iommu \<Rightarrow> ptr \<Rightarrow> uint64 \<Rightarrow> uint64 \<Rightarrow> bool \<Rightarrow> DmaMapping \<Rightarrow> uint64 \<Rightarrow> uint64 option" where
  "map_result s y ph len r m x =
     (if r \<and> m_translated m \<and> inside (m_device_address m) len x
      then Some (ph + (x - m_device_address m)) else dev_translate s y x)"

definition fresh_range :: "'h iommu \<Rightarrow> ptr \<Rightarrow> uint64 \<Rightarrow> bool \<Rightarrow> DmaMapping \<Rightarrow> bool" where
  "fresh_range s y len r m \<longleftrightarrow> (r \<and> m_translated m \<longrightarrow>
     unat (m_device_address m) + unat len \<le> 2 ^ 48 \<and>
     (\<forall>x. inside (m_device_address m) len x \<longrightarrow> dev_translate s y x = None))"

lemma outcome_unchanged:
  "outcome C s y (dev_translate s y) s' \<Longrightarrow>
    outcome C s y (map_result s y ph len r \<lparr>m_device_address = a, m_translated = False\<rparr>) s' \<and>
    fresh_range s y len r \<lparr>m_device_address = a, m_translated = False\<rparr>"
  by (simp add: outcome_def map_result_def fresh_range_def)

lemma map_in_domain_outcome:
  assumes ok: "dma_ok C s" and slot: "slot_for y i (iova_domains s)"
    and idle: "idle C i s y (iova_domains s1 ! i) s1" and al: "page_aligned ph" "page_aligned len" "len \<noteq> 0"
    and new: "new = (FindDomain y (iova_domains s) = None)"
    and m: "map_in_domain D dev new i ph len flags s1 = (r, mapping, s')"
  shows "outcome C s y (map_result s y ph len r mapping) s' \<and> fresh_range s y len r mapping"
proof -
  let ?d = "iova_domains s1 ! i"
  define p where "p = (if flags AND DmaMappingFlag_Identity \<noteq> 0 then ph else 0)"
  note def = m[unfolded map_in_domain_def Let_def, folded p_def]
  show ?thesis
  proof (cases "AllocateIovaRange ?d len p")
    case None
    with def idle_abandon[OF ok slot idle new] show ?thesis by (auto dest!: outcome_unchanged)
  next
    case (Some ak)
    then obtain a k where ak: "AllocateIovaRange ?d len p = Some (a, k)" by (cases ak) auto
    have "ranges_ok (d_mappings ?d)" using idle by (simp add: idle_def maps_ok_def)
    from AllocateIovaRange_fits[OF this ak]
    have fr: "free_slot (d_mappings ?d) = Some k" and fit: "fits (d_mappings ?d) (unat len) (unat a)"
      and R: "dma_range a len" using al by (auto simp: dma_range_def fits_def)
    obtain ok2 d2 s2 where pp: "PopulateIovaPages ?d a ph len s1 = (ok2, d2, s2)" by (metis prod_cases3)
    note ph2 = populate_phase[OF R al(1) idle fit pp]
    show ?thesis
    proof (cases ok2)
      case False
      with ph2 have "idle C i s y d2 s2" by simp
      from idle_abandon[OF ok slot this new] show ?thesis
        using def ak pp False by (auto dest!: outcome_unchanged)
    next
      case True
      with ph2 have p: "populated C i s y a ph len d2 s2" and ms: "d_mappings d2 = d_mappings ?d" by auto
      obtain ok3 s3 where cm: "commit_dma D dev new i k a ph len d2 s2 = (ok3, s3)" by (metis surj_pair)
      from commit_outcome[OF ok slot new R al(3,1) p _ _ cm] fr fit ms
      have o: "outcome C s y (\<lambda>x. if ok3 \<and> inside a len x then Some (ph + (x - a)) else dev_translate s y x) s3" by simp
      have "dev_translate s y x = None" if x: "inside a len x" for x
      proof -
        have "unat x < 2 ^ 48" using x R unfolding inside_def dma_range_def by linarith
        with fits_not_inside[OF _ fit x] idle show ?thesis by (simp add: idle_def maps_ok_def)
      qed
      then show ?thesis
        using def ak pp True cm o R
        by (cases ok3) (auto simp: outcome_def map_result_def fresh_range_def dma_range_def)
    qed
  qed
qed

lemma MapDeviceDma_outcome:
  assumes ok: "dma_ok C s" and m: "MapDeviceDma D dev y ph len flags s = (r, mapping, s')"
  shows "outcome C s y (map_result s y ph len r mapping) s' \<and> fresh_range s y len r mapping"
proof (cases "flags AND NOT DmaMappingFlag_Identity \<noteq> 0 \<or> y = nullptr \<or> ph = 0 \<or> len = 0 \<or>
    ph AND (PAGE_SIZE - 1) \<noteq> 0 \<or> len AND (PAGE_SIZE - 1) \<noteq> 0 \<or> \<not> passthrough_enabled (vtd_state s) \<or>
    node_type (dev y) \<noteq> PciDevice \<or> \<not> PhysicalRangeFits ph len (host_address_width (vtd_state s))")
  case True
  then have "\<exists>b. MapDeviceDma D dev y ph len flags s = (b, \<lparr>m_device_address = ph, m_translated = False\<rparr>, s)"
    unfolding MapDeviceDma_def Let_def by (elim disjE) (simp_all add: ex_bool_eq)
  then show ?thesis using m outcome_unchanged[OF outcome_refl[OF ok]] by auto
next
  case valid: False
  then have al: "page_aligned ph" "page_aligned len" "len \<noteq> 0" by (simp_all add: page_aligned_mask)
  have def: "(case FindDomain y (iova_domains s) of
        Some i \<Rightarrow> map_in_domain D dev False i ph len flags s
      | None \<Rightarrow> (case CreateDomain y s of
           (None, s) \<Rightarrow> (False, \<lparr>m_device_address = ph, m_translated = False\<rparr>, s)
         | (Some i, s) \<Rightarrow> map_in_domain D dev True i ph len flags s)) = (r, mapping, s')"
    using m valid by (simp add: MapDeviceDma_def Let_def)
  show ?thesis
  proof (cases "FindDomain y (iova_domains s)")
    case (Some i)
    from idle_existing[OF ok Some] map_in_domain_outcome[OF ok _ _ al, of y i s False] def Some
    show ?thesis by simp
  next
    case None
    obtain ro s1 where c: "CreateDomain y s = (ro, s1)" by (metis surj_pair)
    note start = CreateDomain_idle[OF ok None c]
    show ?thesis
    proof (cases ro)
      case None': None
      with start def None c show ?thesis by (auto dest!: outcome_unchanged)
    next
      case (Some i)
      with start def None c map_in_domain_outcome[OF ok _ _ al, of y i s1 True] show ?thesis by simp
    qed
  qed
qed

section \<open>Unmapping\<close>

lemma translate_mappings [simp]: "translate (d\<lparr>d_mappings := ms\<rparr>) s = translate d s"
  by (simp add: translate_def xmap_def fun_eq_iff)

lemma populate_again:
  assumes "dom_ok E lev d s" and "distinct (map (\<lambda>off. path (a + off)) offs)"
    and "\<And>off. off \<in> set offs \<Longrightarrow> leaf_table d s (a + off) \<noteq> None \<and> xmap d s (path (a + off)) = None"
  shows "\<exists>s'. populate_pages dn offs a ph d s = (True, d, s')"
  using assms
proof (induction offs arbitrary: dn s)
  case (Cons off offs)
  from Cons.prems(3)[of off] obtain u where u: "leaf_table d s (a + off) = Some u" and
    none: "xmap d s (path (a + off)) = None" by auto
  let ?s = "set_word u (level_index 12 (a + off)) (leaf_entry (ph + off)) s"
  have np: "\<not> present (pages s u (level_index 12 (a + off)))"
    using xmap_leaf[OF u] none by (auto split: if_splits)
  note st = leaf_store[OF Cons.prems(1) u refl, where v = "leaf_entry (ph + off)"]
  have "\<exists>s'. populate_pages (dn @ [off]) offs a ph d ?s = (True, d, s')"
  proof (rule Cons.IH[OF st(1)])
    fix o' assume o': "o' \<in> set offs"
    then have "path (a + o') \<noteq> path (a + off)" using Cons.prems(2) by (metis (no_types, lifting) distinct.simps(2)
        image_eqI list.set_map list.simps(9))
    with Cons.prems(3)[of o'] o' st(3)[of "a + o'"] show "leaf_table d ?s (a + o') \<noteq> None \<and> xmap d ?s (path (a + o')) = None"
      by (simp add: st(4))
  qed (use Cons.prems(2) in simp)
  then show ?case using GetLeafEntry_existing[OF Cons.prems(1) u] np by simp
qed simp

lemma distinct_page_paths:
  assumes R: "dma_range a len"
  shows "distinct (map (\<lambda>off. path (a + off)) (page_offsets len))"
proof -
  have "inj_on (\<lambda>off. path (a + off)) (set (page_offsets len))"
  proof (rule inj_onI)
    fix o1 o2 assume o: "o1 \<in> set (page_offsets len)" "o2 \<in> set (page_offsets len)" "path (a + o1) = path (a + o2)"
    have "unat (a + o2) < 2 ^ 48" using offset_bound[OF R o(2)] R by (simp add: dma_range_def)
    then have "o1 = page_of a (a + o2)" "o2 = page_of a (a + o2)"
      using path_offset[OF R] o by blast+
    then show "o1 = o2" by simp
  qed
  moreover have "distinct (page_offsets len)"
  proof -
    have "unat len < 2 ^ 64" using unsigned_less[of len] by simp
    then have "unat (of_nat (i * 4096) :: uint64) = i * 4096" if "i < (unat len + 4095) div 4096" for i
      using that R by (intro unat_of_nat_64) (auto simp: dma_range_def)
    then have "inj_on (\<lambda>i. of_nat (i * 4096) :: uint64) {0..<(unat len + 4095) div 4096}"
      by (intro inj_onI) (metis atLeastLessThan_iff mult_cancel2 zero_neq_numeral)
    then show ?thesis unfolding page_offsets_def by (simp add: distinct_map)
  qed
  ultimately show ?thesis by (simp add: distinct_map)
qed

lemma find_mappingD:
  assumes "find_mapping a len ms = Some j"
  shows "j < IovaMappingCapacity \<and> r_active (ms ! j) \<and> r_device_address (ms ! j) = a \<and> r_length (ms ! j) = len"
  using find_upt_least(1,2)[OF assms[unfolded find_mapping_def]] by simp

lemma UnmapDeviceDma_outcome:
  assumes ok: "dma_ok C s" and en: "passthrough_enabled (vtd_state s)"
    and u: "UnmapDeviceDma D y a len s = (r, s')"
  shows "outcome C s y (\<lambda>x. if r \<and> inside a len x then None else dev_translate s y x) s'"
proof (cases "y = nullptr \<or> a = 0 \<or> len = 0 \<or> a AND (PAGE_SIZE - 1) \<noteq> 0 \<or> len AND (PAGE_SIZE - 1) \<noteq> 0 \<or>
    FindDomain y (iova_domains s) = None \<or>
    \<not> d_attached (iova_domains s ! the (FindDomain y (iova_domains s))) \<or>
    find_mapping a len (d_mappings (iova_domains s ! the (FindDomain y (iova_domains s)))) = None")
  case True
  then have "UnmapDeviceDma D y a len s = (False, s)"
    using en unfolding UnmapDeviceDma_def Let_def by (elim disjE) (auto split: option.splits)
  with u outcome_refl[OF ok, of y] show ?thesis by simp
next
  case valid: False
  then obtain i j where f: "FindDomain y (iova_domains s) = Some i" and at: "d_attached (iova_domains s ! i)"
    and j: "find_mapping a len (d_mappings (iova_domains s ! i)) = Some j" by auto
  let ?d = "iova_domains s ! i" and ?E = "C \<union> others i s" and ?ph = "r_physical (d_mappings (iova_domains s ! i) ! j)"
  from idle_existing[OF ok f] have slot: "slot_for y i (iova_domains s)" and idle: "idle C i s y ?d s" by auto
  let ?ms = "d_mappings ?d"
  have ro: "ranges_ok ?ms" and pa: "\<And>r. r \<in> actives ?ms \<Longrightarrow> page_aligned (r_physical r)"
    and tr: "\<And>x. unat x < 2 ^ 48 \<Longrightarrow> translate ?d s x = mapped ?ms x"
    using idle by (auto simp: idle_def maps_ok_def)
  have jj: "j < length ?ms" "r_active (?ms ! j)" "r_device_address (?ms ! j) = a" "r_length (?ms ! j) = len"
    using find_mappingD[OF j] ro by (auto simp: ranges_ok_def)
  have act: "?ms ! j \<in> actives ?ms" by (rule actives_nth[OF jj(1,2)])
  then have "range_ok (?ms ! j)" using ro by (simp add: ranges_ok_def)
  with jj have R: "dma_range a len" by (simp add: dma_range_def range_ok_def)
  have hit: "mapped ?ms x = Some (?ph + (x - a))" if "inside a len x" for x
    using mapped_eq_Some[OF ro jj(1,2)] that jj by simp
  let ?s1 = "LogVtdFaultState D s"
  have idle1: "idle C i s y ?d ?s1" using idle idle_core[OF core_LogVtdFaultState] by blast
  then obtain lev where dom: "dom_ok ?E lev ?d ?s1" and h1: "hand C i s ?d ?s1" by (auto simp: idle_def hand_def)
  have tr1: "translate ?d ?s1 = translate ?d s" by (rule translate_core[OF core_LogVtdFaultState])
  from clear_pages_spec[OF dom, of "page_offsets len" a] obtain s2 where
    s2: "ClearIovaPages ?d a len ?s1 = (?d, s2)" "dom_ok ?E lev ?d s2" "kept ?E ?d ?s1 ?d s2"
    and lt: "\<And>b. leaf_table ?d s2 b = leaf_table ?d ?s1 b"
    and xm: "xmap ?d s2 = (\<lambda>q. if q \<in> paths a (page_offsets len) then None else xmap ?d ?s1 q)"
    by (auto simp: ClearIovaPages_def)
  have h2: "hand C i s ?d s2" by (rule hand_kept[OF h1 s2(3,2)])
  have tr2: "translate ?d s2 x = (if inside a len x then None else mapped ?ms x)" if "unat x < 2 ^ 48" for x
    using clear_translate[OF R that xm] tr[OF that] tr1 by simp
  obtain ok3 s3 where iv: "InvalidateVtdCaches D s2 = (ok3, s3)" by (metis surj_pair)
  then have c3: "core s3 = core s2" using core_InvalidateVtdCaches[of D s2] by simp
  have h3: "hand C i s ?d s3" and tr3: "translate ?d s3 = translate ?d s2"
    using h2 hand_core[OF c3] translate_core[OF c3] by auto
  have body: "(r, s') = (if \<not> ok3
      then let (_, d, s) = PopulateIovaPages ?d a ?ph len s3
           in (False, snd (InvalidateVtdCaches D (put_domain i d s)))
      else (True, put_domain i (?d\<lparr>d_mappings := ?ms[j := null_range]\<rparr>) s3))"
    using u valid en f at j s2(1) iv unfolding UnmapDeviceDma_def by (simp add: Let_def)
  show ?thesis
  proof (cases ok3)
    case True
    let ?d' = "?d\<lparr>d_mappings := ?ms[j := null_range]\<rparr>"
    have mp: "mapped (?ms[j := null_range]) x = (if inside a len x then None else mapped ?ms x)" for x
      using mapped_remove[OF ro jj(1,2)] jj by simp
    have "actives (?ms[j := null_range]) \<subseteq> actives ?ms"
      using actives_update[OF jj(1), of null_range] by (simp add: null_range_def)
    then have "maps_ok ?d' s3"
      using pa tr2 tr3 mp ranges_ok_remove[OF ro jj(1)]
      by (auto simp: maps_ok_def)
    then have "outcome C s y (translate ?d s3) s'"
      using finish[OF ok slot h3] idle body True by (simp add: idle_def)
    then show ?thesis
      using body True tr2 tr3 idle by (simp add: outcome_def idle_def)
  next
    case False
    have x3: "xmap ?d s3 = xmap ?d s2" and l3: "\<And>b. leaf_table ?d s3 b = leaf_table ?d ?s1 b"
      using xmap_core[OF c3] core_eqD[OF c3] lt by auto
    have leaf: "leaf_table ?d s3 (a + off) \<noteq> None \<and> xmap ?d s3 (path (a + off)) = None"
      if off: "off \<in> set (page_offsets len)" for off
    proof -
      note b = offset_bound[OF R off]
      then have ins: "inside a len (a + off)" "unat (a + off) < 2 ^ 48"
        using R by (auto simp: inside_def dma_range_def)
      then have "translate ?d ?s1 (a + off) \<noteq> None" using tr tr1 hit by simp
      then have "leaf_table ?d ?s1 (a + off) \<noteq> None"
        using xmap_no_leaf[where d = ?d and s = ?s1 and a = "a + off"]
        unfolding translate_def by (metis option.map_disc_iff)
      moreover have "path (a + off) \<in> paths a (page_offsets len)" using off by (auto simp: paths_def)
      ultimately show ?thesis using l3 x3 xm by simp
    qed
    from h3 obtain lev3 where dom3: "dom_ok ?E lev3 ?d s3" by (auto simp: hand_def)
    from populate_again[OF dom3 distinct_page_paths[OF R] leaf, of "[]" ?ph] obtain s4
      where p4: "PopulateIovaPages ?d a ?ph len s3 = (True, ?d, s4)" by (auto simp: PopulateIovaPages_def)
    from populate_pages_spec[OF dom3 p4[unfolded PopulateIovaPages_def]] obtain lev4
      where k4: "dom_ok ?E lev4 ?d s4" "kept ?E ?d s3 ?d s4"
        "xmap ?d s4 = fold (\<lambda>off m. m(path (a + off) \<mapsto> target (?ph + off))) (page_offsets len) (xmap ?d s3)" by auto
    have "translate ?d s4 x = mapped ?ms x" if x: "unat x < 2 ^ 48" for x
      using populate_translate[OF R pa[OF act] x k4(3)] tr2[OF x] tr3 hit by simp
    then have "idle C i s y ?d s4"
      using idle hand_kept[OF h3 k4(2,1)] by (simp add: idle_def maps_ok_def)
    from idle_put[OF ok slot this] show ?thesis
      using body False p4 by (simp add: outcome_core[OF core_InvalidateVtdCaches])
  qed
qed

end
