(* ===== verification/Iova_Claims.thy ===== *)
theory Iova_Claims
  imports Iova_Map
begin

text \<open>
  The properties of DMA translation, with a concrete unit and state at which each applies.
\<close>

section \<open>A sample unit and state\<close>

text \<open>A unit whose registers read as zero: every command completes at once and no fault is pending.\<close>

definition sample_hw :: "unit vtd_hw" where
  "sample_hw = \<lparr>hw_read = (\<lambda>_ _ h. (0, h)), hw_write = (\<lambda>_ _ _ h. h),
     hw_completion = (\<lambda>c h. (c, h)), hw_map_window = (\<lambda>_. True)\<rparr>"

definition sample_dev :: "ptr \<Rightarrow> DevFields" where
  "sample_dev _ = \<lparr>node_type = PciDevice, pci_segment = 0, pci_bus = 0, pci_device = 0, pci_function = 0\<rparr>"

definition sample_dma :: "unit iommu" where
  "sample_dma = \<lparr>vtd_state = null_vtd\<lparr>passthrough_enabled := True, host_address_width := 39, root_table := 0x1000\<rparr>,
     iova_domains = replicate IovaDomainCapacity null_domain, hw = (),
     pages = (\<lambda>t i. if t = 0x1000 \<and> i = 0 then 0x2001 else if t = 0x2000 \<and> i = 0 then 9 else 0),
     iqueue = (\<lambda>_. 0), completion = 0, pool = [0x3000, 0x4000, 0x5000, 0x6000], released = []\<rparr>"

definition sample_ctx :: "uint64 set" where
  "sample_ctx = {0, 0x1000, 0x2000}"

lemma null_domain_fields: "d_tables null_domain = []" "\<not> d_active null_domain"
  by (simp_all add: null_domain_def)

lemma sample_dma_ok: "dma_ok sample_ctx sample_dma"
proof -
  have "GetContextTable 0x1000 bus sample_dma \<in> sample_ctx - {0x1000}" for bus
    by (simp add: GetContextTable_def sample_dma_def sample_ctx_def VtdPageAddressMask_def PAGE_SIZE_def)
  moreover have "root_table (vtd_state sample_dma) = 0x1000" by (simp add: sample_dma_def)
  moreover have "0x1000 \<in> sample_ctx" by (simp add: sample_ctx_def)
  ultimately have "ctx_ok sample_ctx sample_dma" by (simp only: ctx_ok_def) blast
  moreover have "pool_ok sample_ctx sample_dma"
    by (simp add: pool_ok_def sample_ctx_def sample_dma_def VtdPageAddressMask_def PAGE_SIZE_def)
  ultimately show ?thesis
    by (simp add: dma_ok_def sample_dma_def null_domain_fields)
qed

lemma sample_ReadRegister32 [simp]: "ReadRegister32 sample_hw b off s = (0, s)"
  by (simp add: ReadRegister32_def sample_hw_def)

lemma sample_ReadRegister64 [simp]: "ReadRegister64 sample_hw b off s = (0, s)"
  by (simp add: ReadRegister64_def)

lemma sample_WriteRegister64 [simp]: "WriteRegister64 sample_hw b off v s = s"
  by (simp add: WriteRegister64_def WriteRegister32_def sample_hw_def)

lemma sample_WaitRegister64Clear [simp]: "WaitRegister64Clear sample_hw b off m s = (True, s)"
proof -
  obtain n where n: "VtdCommandTimeoutSpins = Suc n"
    by (metis VtdCommandTimeoutSpins_def not0_implies_Suc zero_neq_numeral)
  show ?thesis unfolding WaitRegister64Clear_def n by simp
qed

lemma sample_Invalidate [simp]:
  "extended_capability (vtd_state s) = 0 \<Longrightarrow> InvalidateVtdCaches sample_hw s = (True, s)"
  by (simp add: InvalidateVtdCaches_def iotlb_offset_of_def PAGE_SIZE_def)

lemma sample_range: "AllocateIovaRange (null_domain\<lparr>d_active := True, d_device := y, d_domain_id := i,
    d_tables := ts, d_root := r\<rparr>) 0x1000 0 = Some (0x100000, 0)"
proof -
  have n: "List.find (range_collides c l) (replicate k null_range) = None" for c l k
    by (simp add: find_eq_None range_collides_def null_range_def)
  have "iova_passes (Suc IovaMappingCapacity) (replicate IovaMappingCapacity null_range) 0x1000 0x100000 = Some 0x100000"
    by (simp add: n)
  moreover have "List.find (\<lambda>i. \<not> r_active (replicate IovaMappingCapacity null_range ! i)) [0..<IovaMappingCapacity] = Some 0"
    by (simp add: IovaMappingCapacity_def upt_conv_Cons null_range_def)
  ultimately show ?thesis
    by (simp add: AllocateIovaRange_def null_domain_def IovaStartAddress_def)
qed

definition sample_domain :: IovaDomain where
  "sample_domain = null_domain\<lparr>d_active := True, d_device := 2, d_domain_id := 2,
      d_tables := [0x3000], d_root := 0x3000\<rparr>"

definition sample_created :: "unit iommu" where
  "sample_created = sample_dma\<lparr>pool := [0x4000, 0x5000, 0x6000],
    pages := (pages sample_dma)(0x3000 := (\<lambda>_. 0)),
    iova_domains := (iova_domains sample_dma)[0 := sample_domain]\<rparr>"

lemma sample_create: "CreateDomain 2 sample_dma = (Some 0, sample_created)"
  by (simp add: CreateDomain_def sample_created_def sample_domain_def sample_dma_def AllocateDomainTable_def
      allocate_def PhysicalRangeFits_def IovaDomainCapacity_def IovaTableCapacity_def clear_page_def
      null_domain_def null_vtd_def upt_conv_Cons VtdFirstTranslatedDomain_def PAGE_SIZE_def)

lemma sample_find: "FindDomain 2 (iova_domains sample_dma) = None"
    by (simp add: FindDomain_def find_eq_None sample_dma_def null_domain_fields)

lemma sample_walk: "walk_levels [0, 0, 0] 0x3000 True sample_domain sample_created =
    (0x6000, sample_domain\<lparr>d_tables := [0x3000, 0x4000, 0x5000, 0x6000]\<rparr>,
     sample_created\<lparr>pool := [], pages := (((pages sample_created)(0x6000 := (\<lambda>_. 0), 0x5000 := (\<lambda>_. 0)(0 := 0x6003),
       0x4000 := (\<lambda>_. 0)(0 := 0x5003), 0x3000 := (\<lambda>_. 0)(0 := 0x4003))))\<rparr>)"
  by (simp add: sample_created_def sample_dma_def sample_domain_def GetOrCreateNextTable_def AllocateDomainTable_def
      allocate_def set_word_def clear_page_def PhysicalRangeFits_def PAGE_SIZE_def IovaTableCapacity_def
      null_domain_def null_vtd_def VtdPageRead_def VtdPageWrite_def fun_upd_twist fun_eq_iff)

definition sample_mapped :: IovaDomain where
  "sample_mapped = sample_domain\<lparr>d_tables := [0x3000, 0x4000, 0x5000, 0x6000], d_attached := True,
     d_mappings := (d_mappings sample_domain)[0 := \<lparr>r_active = True, r_device_address = 0x100000,
       r_physical = 0x200000, r_length = 0x1000\<rparr>]\<rparr>"

lemma sample_map:
  "\<exists>s. MapDeviceDma sample_hw sample_dev 2 0x200000 0x1000 0 sample_dma =
     (True, \<lparr>m_device_address = 0x100000, m_translated = True\<rparr>, put_domain 0 sample_mapped s) \<and>
     vtd_state s = vtd_state sample_dma \<and> iova_domains s = iova_domains sample_created"
proof -
  have off: "page_offsets 0x1000 = [0]" by (simp add: page_offsets_def)
  have nth: "iova_domains sample_created ! 0 = sample_domain"
    by (simp add: sample_created_def sample_dma_def IovaDomainCapacity_def)
  have r: "AllocateIovaRange sample_domain 0x1000 0 = Some (0x100000, 0)"
    by (simp add: sample_domain_def sample_range)
  have dr: "d_root sample_domain = 0x3000" "d_device sample_domain = 2" "\<not> d_attached sample_domain"
     by (simp_all add: sample_domain_def null_domain_def)
  have pp: "PopulateIovaPages sample_domain 0x100000 0x200000 0x1000 sample_created =
     (True, sample_domain\<lparr>d_tables := [0x3000, 0x4000, 0x5000, 0x6000]\<rparr>,
      set_word 0x6000 0x100 (leaf_entry 0x200000) (snd (snd (walk_levels [0, 0, 0] 0x3000 True sample_domain sample_created))))"
    by (simp add: PopulateIovaPages_def off GetLeafEntry_def level_index_def dr sample_walk del: walk_levels.simps)
  define s2 where "s2 = set_word 0x6000 0x100 (leaf_entry 0x200000)
    (snd (snd (walk_levels [0, 0, 0] 0x3000 True sample_domain sample_created)))"
  have s2: "vtd_state s2 = vtd_state sample_dma" "pages s2 0x1000 0 = 0x2001" "pages s2 0x2000 0 = 9"
    by (simp_all add: s2_def sample_walk set_word_def del: walk_levels.simps) (simp_all add: sample_created_def sample_dma_def)
  have v: "extended_capability (vtd_state sample_dma) = 0" "root_table (vtd_state sample_dma) = 0x1000"
    "segment (vtd_state sample_dma) = 0" "passthrough_enabled (vtd_state sample_dma)"
    "host_address_width (vtd_state sample_dma) = 39"
    by (simp_all add: sample_dma_def null_vtd_def)
  have f: "node_type (sample_dev y) = PciDevice" "pci_segment (sample_dev y) = 0" "pci_bus (sample_dev y) = 0"
    "pci_device (sample_dev y) = 0" "pci_function (sample_dev y) = 0" for y by (simp_all add: sample_dev_def)
  have dom: "iova_domains s2 = iova_domains sample_created"
    by (simp add: s2_def sample_walk set_word_def del: walk_levels.simps)
  have keep: "vtd_state (set_word t i w s) = vtd_state s" "iova_domains (set_word t i w s) = iova_domains s"
    for t i w and s :: "unit iommu" by (simp_all add: set_word_def)
  define s3 where "s3 = set_word 0x2000 0 0x3001 (set_word 0x2000 1 0x202 (set_word 0x2000 0 0 s2))"
  have att: "AttachDomain sample_hw sample_dev (sample_domain\<lparr>d_tables := ts\<rparr>) s2 =
      (True, sample_domain\<lparr>d_tables := ts, d_attached := True\<rparr>, s3)" for ts
    by (simp add: AttachDomain_def dr f s2 v keep GetContextTable_def requester_of_def s3_def
      VtdPageAddressMask_def PAGE_SIZE_def VtdContextPresent_def VtdAddressWidth48_def)
       (simp add: sample_domain_def)
  have "commit_dma sample_hw sample_dev True 0 0 0x100000 0x200000 0x1000
      (sample_domain\<lparr>d_tables := [0x3000, 0x4000, 0x5000, 0x6000]\<rparr>) s2 = (True, put_domain 0 sample_mapped s3)"
    by (simp add: commit_dma_def att dr) (simp add: sample_mapped_def)
  moreover have "vtd_state s3 = vtd_state sample_dma" "iova_domains s3 = iova_domains sample_created"
    by (simp_all add: s3_def keep s2 dom)
  ultimately have "\<exists>s. commit_dma sample_hw sample_dev True 0 0 0x100000 0x200000 0x1000
      (sample_domain\<lparr>d_tables := [0x3000, 0x4000, 0x5000, 0x6000]\<rparr>) s2 = (True, put_domain 0 sample_mapped s) \<and>
      vtd_state s = vtd_state sample_dma \<and> iova_domains s = iova_domains sample_created" by blast
  then have "\<exists>s. map_in_domain sample_hw sample_dev True 0 0x200000 0x1000 0 sample_created =
     (True, \<lparr>m_device_address = 0x100000, m_translated = True\<rparr>, put_domain 0 sample_mapped s) \<and>
     vtd_state s = vtd_state sample_dma \<and> iova_domains s = iova_domains sample_created"
    by (auto simp: map_in_domain_def nth r pp [folded s2_def])
  then show ?thesis
    by (simp add: MapDeviceDma_def sample_find sample_create f v PAGE_SIZE_def PhysicalRangeFits_def
      DmaMappingFlag_Identity_def)
qed

lemma walk_levels_readonly: "\<exists>r. walk_levels p t False d s = (r, d, s)"
  by (induction p arbitrary: t) (auto simp: Let_def)

lemma clear_pages_readonly: "\<exists>s'. clear_pages offs a d s = (d, s') \<and> vtd_state s' = vtd_state s \<and>
    iova_domains s' = iova_domains s"
proof (induction offs arbitrary: s)
  case (Cons off offs)
  let ?p = "[level_index 39 (a + off), level_index 30 (a + off), level_index 21 (a + off)]"
  obtain r where r: "walk_levels ?p (d_root d) False d s = (r, d, s)" using walk_levels_readonly by blast
  obtain e where e: "GetLeafEntry d (a + off) False s = (e, d, s)"
    unfolding GetLeafEntry_def r Let_def by (cases "r = 0") auto
  show ?case
  proof (cases e)
    case None
    with e Cons show ?thesis by simp
  next
    case (Some ti)
    obtain t i where "ti = (t, i)" by (cases ti)
    with Some e Cons[of "set_word t i 0 s"] show ?thesis by (simp add: set_word_def)
  qed
qed simp

lemma sample_unmap:
  assumes "vtd_state s = vtd_state sample_dma" and "iova_domains s = iova_domains sample_created"
  shows "fst (UnmapDeviceDma sample_hw 2 0x100000 0x1000 (put_domain 0 sample_mapped s))"
proof -
  have f: "FindDomain 2 ((iova_domains s)[0 := sample_mapped]) = Some 0"
    using assms(2) by (simp add: FindDomain_def sample_created_def sample_dma_def IovaDomainCapacity_def upt_conv_Cons
        sample_mapped_def sample_domain_def)
  have n: "(iova_domains s)[0 := sample_mapped] ! 0 = sample_mapped"
    using assms(2) by (simp add: sample_created_def sample_dma_def IovaDomainCapacity_def)
  have m: "find_mapping 0x100000 0x1000 (d_mappings sample_mapped) = Some 0"
    by (simp add: find_mapping_def sample_mapped_def sample_domain_def null_domain_def IovaMappingCapacity_def
        upt_conv_Cons)
  have v: "passthrough_enabled (vtd_state sample_dma)" "extended_capability (vtd_state sample_dma) = 0"
    by (simp_all add: sample_dma_def null_vtd_def)
  obtain s' where "ClearIovaPages sample_mapped 0x100000 0x1000 (put_domain 0 sample_mapped s) = (sample_mapped, s')"
    "vtd_state s' = vtd_state s"
    using clear_pages_readonly[of "page_offsets 0x1000" "0x100000" sample_mapped "put_domain 0 sample_mapped s"]
    by (auto simp: ClearIovaPages_def)
  then show ?thesis
    using assms(1) v f n m by (simp add: UnmapDeviceDma_def PAGE_SIZE_def LogVtdFaultState_def)
      (simp add: sample_mapped_def)
qed

section \<open>Ranges\<close>

text \<open>C26: A request without a preferred address is answered, whenever a slot of the mapping table is
  free, with the least device address at or above 1 MiB at which the whole length is clear of every
  active range and below the 48-bit limit; it is refused exactly when there is none. So the 49 passes
  over the table always suffice.\<close>

theorem AllocateIovaRange_first_fit:
  assumes "ranges_ok (d_mappings d)" and "free_slot (d_mappings d) = Some slot"
  shows "case AllocateIovaRange d len 0 of
      Some (a, i) \<Rightarrow> i = slot \<and> page_aligned a \<and> unat IovaStartAddress \<le> unat a \<and>
        fits (d_mappings d) (unat len) (unat a) \<and>
        (\<forall>x. unat IovaStartAddress \<le> x \<and> fits (d_mappings d) (unat len) x \<longrightarrow> unat a \<le> x)
    | None \<Rightarrow> \<not> (\<exists>x. unat IovaStartAddress \<le> x \<and> fits (d_mappings d) (unat len) x)"
proof (cases "AllocateIovaRange d len 0")
  case None
  with AllocateIovaRange_search[OF assms, of len] show ?thesis by auto
next
  case (Some r)
  with AllocateIovaRange_search[OF assms, of len] show ?thesis
    by (auto simp: word_le_nat_alt not_less [symmetric])
qed

theorem AllocateIovaRange_first_fit_witness:
  "case AllocateIovaRange null_domain 0x2000 0 of
      Some (a, i) \<Rightarrow> i = 0 \<and> page_aligned a \<and> unat IovaStartAddress \<le> unat a \<and>
        fits (d_mappings null_domain) (unat (0x2000 :: uint64)) (unat a) \<and>
        (\<forall>x. unat IovaStartAddress \<le> x \<and> fits (d_mappings null_domain) (unat (0x2000 :: uint64)) x \<longrightarrow> unat a \<le> x)
    | None \<Rightarrow> \<not> (\<exists>x. unat IovaStartAddress \<le> x \<and> fits (d_mappings null_domain) (unat (0x2000 :: uint64)) x)"
proof (rule AllocateIovaRange_first_fit)
  show "ranges_ok (d_mappings null_domain)" using ranges_ok_null by (simp add: null_domain_def)
  have "[0..<IovaMappingCapacity] = 0 # [1..<IovaMappingCapacity]"
    by (simp add: IovaMappingCapacity_def upt_conv_Cons)
  then show "free_slot (d_mappings null_domain) = Some 0"
    by (simp add: free_slot_def null_domain_def null_range_def) (simp add: IovaMappingCapacity_def)
qed

section \<open>Translation\<close>









end
