(* ===== verification/Vtd_Claims.thy ===== *)
theory Vtd_Claims
  imports Iova_Dma
begin

text \<open>
  Properties of the VT-d unit's set-up code: address checks, the scan of the DMAR table, the
  invalidation queue and the interrupt remapping entries.
\<close>

section \<open>Address ranges\<close>

text \<open>C30: \<open>PhysicalRangeFits\<close> accepts exactly the non-empty ranges that end within the address width,
  without wrap-around; at the full width of 64 bits the last byte must stay below the top of the
  address space.\<close>

theorem PhysicalRangeFits_iff:
  "PhysicalRangeFits a len w \<longleftrightarrow> 0 < unat w \<and> unat w \<le> 64 \<and> 0 < unat len \<and>
     unat a + unat len \<le> min (2 ^ unat w) (2 ^ 64 - 1)"
proof -
  have b: "unat a < 2 ^ 64" "unat len < 2 ^ 64" using unsigned_less[of a] unsigned_less[of len] by simp_all
  have wrap: "\<not> a + len < a \<longleftrightarrow> unat a + unat len < 2 ^ 64"
  proof (cases "unat a + unat len < 2 ^ 64")
    case True
    then show ?thesis by (simp add: word_less_nat_alt unat_word_ariths)
  next
    case False
    then have "unat (a + len) = unat a + unat len - 2 ^ 64" using b by (simp add: unat_word_ariths le_mod_geq)
    then show ?thesis using False b by (simp add: word_less_nat_alt)
  qed
  have small: "a < push_bit (unat w) 1 \<and> len \<le> push_bit (unat w) 1 - a \<longleftrightarrow> unat a + unat len \<le> 2 ^ unat w"
    if "unat w < 64" "0 < unat len"
  proof -
    have l: "unat (push_bit (unat w) 1 :: uint64) = 2 ^ unat w"
    proof -
      have "(2 :: nat) ^ unat w < 2 ^ 64" using that(1) by (intro power_strict_increasing) auto
      from unat_of_nat_64[OF this] show ?thesis by (simp add: push_bit_eq_mult)
    qed
    show ?thesis
    proof (cases "unat a < 2 ^ unat w")
      case True
      then have "unat (push_bit (unat w) 1 - a) = 2 ^ unat w - unat a"
        using l by (subst unat_sub) (simp_all add: word_le_nat_alt)
      with True l that(2) show ?thesis by (simp only: word_less_nat_alt word_le_nat_alt) auto
    next
      case False
      with l that(2) show ?thesis by (simp only: word_less_nat_alt) auto
    qed
  qed
  have w: "w = 0 \<longleftrightarrow> unat w = 0" "w > 64 \<longleftrightarrow> unat w > 64" "w = 64 \<longleftrightarrow> unat w = 64" "len = 0 \<longleftrightarrow> unat len = 0"
    by (simp_all add: word_less_nat_alt word_unat_eq_iff)
  consider "unat w = 0 \<or> unat w > 64 \<or> unat len = 0" | "unat w = 64" "0 < unat len" | "0 < unat w" "unat w < 64" "0 < unat len"
    by linarith
  then show ?thesis
  proof cases
    case 3
    have "(2 :: nat) ^ unat w \<le> 2 ^ 63" using 3(2) by (intro power_increasing) auto
    with 3 wrap small w show ?thesis unfolding PhysicalRangeFits_def Let_def by auto
  qed (use w wrap in \<open>auto simp: PhysicalRangeFits_def\<close>)
qed

section \<open>The DMAR table\<close>

lemma LogDeviceScopes_total: "\<exists>b. LogDeviceScopes bs = Some b"
proof (induction bs rule: LogDeviceScopes.induct)
  case (1 bs)
  show ?case
  proof (cases "length bs < 6")
    case True
    then show ?thesis by (subst LogDeviceScopes.simps) (simp add: ex_bool_eq)
  next
    case False
    then have l: "byte_at bs 1 = Some (bs ! 1)" "bs \<noteq> []" by (auto simp: byte_at_def)
    show ?thesis
      using 1[of "bs ! 1"] False l by (subst LogDeviceScopes.simps) auto
  qed
qed

lemma ProbeHardwareUnit_total: "16 \<le> length bs \<Longrightarrow> \<exists>r. ProbeHardwareUnit D bs i s = Some r"
proof -
  assume "16 \<le> length bs"
  moreover obtain b where "LogDeviceScopes (drop 16 bs) = Some b" using LogDeviceScopes_total by blast
  ultimately have "ProbeHardwareUnit D bs i s \<noteq> None"
    by (simp add: ProbeHardwareUnit_def byte_at_def u16_at_def u64_at_def split_beta Let_def ex_bool_eq)
  then show ?thesis by blast
qed

lemma u16_at_total: "i + 2 \<le> length bs \<Longrightarrow> \<exists>v. u16_at bs i = Some v"
  by (auto simp: u16_at_def byte_at_def)

lemma scan_dmar_total: "\<exists>r. scan_dmar D bs units ranges ok s = Some r"
proof (induction D bs units ranges ok s rule: scan_dmar.induct)
  case (1 D bs units ranges ok s)
  show ?case
  proof (cases "length bs < 4")
    case True
    then show ?thesis by (subst scan_dmar.simps) simp
  next
    case False
    then obtain ty len where h: "u16_at bs 0 = Some ty" "u16_at bs 2 = Some len"
      using u16_at_total[of 0 bs] u16_at_total[of 2 bs] by auto
    have ne: "bs \<noteq> []" using False by auto
    show ?thesis
    proof (cases "unat len < 4 \<or> unat len > length bs")
      case True
      then show ?thesis using False h ne by (subst scan_dmar.simps) simp
    next
      case ok: False
      note ih = 1(1)[OF ne False h refl ok] 1(2)[OF ne False h refl ok] 1(3)[OF ne False h refl ok]
      obtain u where u: "16 \<le> unat len \<Longrightarrow> ProbeHardwareUnit D (take (unat len) bs) units s = Some u"
        using ProbeHardwareUnit_total[of "take (unat len) bs" D units s] ok by fastforce
      obtain b where b: "ProbeReservedMemory (take (unat len) bs) = Some b"
        using LogDeviceScopes_total by (auto simp: ProbeReservedMemory_def)
      show ?thesis
        using ih ok False h ne u b by (subst scan_dmar.simps) (cases u; auto simp: not_less Let_def)
    qed
  qed
qed


text \<open>A unit with queued invalidation that completes every wait descriptor at once.\<close>

definition qi_hw :: "unit vtd_hw" where
  "qi_hw = \<lparr>hw_read = (\<lambda>_ off h. (if off = kVtdGlobalStatusRegister then VtdGlobalStatusQueuedInvalidation else 0, h)),
     hw_write = (\<lambda>_ _ _ h. h), hw_completion = (\<lambda>_ h. (VtdInvalidationStatusComplete, h)),
     hw_map_window = (\<lambda>_. True)\<rparr>"

definition qi_state :: "unit iommu" where
  "qi_state = \<lparr>vtd_state = null_vtd\<lparr>interrupt_remapping_enabled := True, interrupt_remapping_table := 0x9000,
       invalidation_queue := 0x7000, invalidation_completion := 0x8000, invalidation_queue_length := 0x1000,
       invalidation_queue_shift := 4\<rparr>,
     iova_domains = replicate IovaDomainCapacity null_domain, hw = (), pages = (\<lambda>_ _. 0), iqueue = (\<lambda>_. 0),
     completion = 0, pool = [], released = []\<rparr>"

definition qi_device :: DevFields where
  "qi_device = \<lparr>node_type = PciDevice, pci_segment = 0, pci_bus = 1, pci_device = 2, pci_function = 3\<rparr>"

text \<open>A table of 48 bytes of header and a truncated entry.\<close>

definition sample_dmar :: "uint8 list" where
  "sample_dmar = replicate 48 0 @ [0, 0, 16]"


section \<open>Interrupt remapping entries\<close>

lemma core_SubmitInterruptCacheInvalidation [kframe]:
  "core (snd (SubmitInterruptCacheInvalidation D i m sel s)) = core s"
  by (simp add: SubmitInterruptCacheInvalidation_def kframe Let_def)

text \<open>The fields of an entry and of a message address, as the unit reads them.\<close>

definition irte_present :: "uint64 \<Rightarrow> bool" where "irte_present low \<longleftrightarrow> bit low 0"
definition irte_vector :: "uint64 \<Rightarrow> uint8" where "irte_vector low = ucast (drop_bit 16 low)"
definition irte_source :: "uint64 \<Rightarrow> uint16" where "irte_source high = ucast high"
definition message_index :: "uint64 \<Rightarrow> nat" where
  "message_index a = unat (take_bit 15 (drop_bit 5 a)) + (if bit a 2 then 2 ^ 15 else 0)"

lemma message_index_table: "list_all (\<lambda>i. message_index (remappable_address i) = i) [0..<256]"
  by code_simp

lemma message_index_address:
  "i < VtdInterruptRemappingTableCapacity \<Longrightarrow> message_index (remappable_address i) = i"
  using message_index_table by (simp add: list_all_iff VtdInterruptRemappingTableCapacity_def)

lemma irte_fields:
  "irte_present (1 OR push_bit 3 1 OR push_bit 16 (ucast vec) OR push_bit 32 dest)"
  "irte_vector (1 OR push_bit 3 1 OR push_bit 16 (ucast vec) OR push_bit 32 dest) = vec"
  unfolding irte_present_def irte_vector_def
  by (auto simp: bit_or_iff bit_push_bit_iff bit_ucast_iff bit_drop_bit_eq bit_1_iff
      dest: bit_imp_le_length intro!: bit_word_eqI)

lemma irte_source_field: "irte_source (ucast src OR push_bit 18 1) = src"
proof (rule bit_word_eqI)
  fix n :: nat
  assume "n < LENGTH(16)"
  then show "bit (irte_source (ucast src OR push_bit 18 1)) n = bit src n"
    unfolding irte_source_def
    by (simp only: bit_ucast_iff bit_or_iff bit_push_bit_iff bit_1_iff) auto
qed

lemma free_irteD:
  assumes "free_irte al \<noteq> VtdInterruptRemappingTableCapacity"
  shows "free_irte al < VtdInterruptRemappingTableCapacity \<and> \<not> al ! free_irte al"
  using assms unfolding free_irte_def by (auto split: option.splits dest: find_upt_least)

text \<open>C27: A successful \<open>AllocatePciInterrupt\<close> takes an index that was free and marks it, writes an
  entry from which the unit reads the requested vector and the requester's source id, changes no other
  entry, and returns a message whose address encodes that index and whose handle is the index plus
  one.\<close>

theorem AllocatePciInterrupt_entry:
  assumes "AllocatePciInterrupt D (Some f) lapic vec s = (True, m, s')"
  defines "i \<equiv> unat (im_handle m) - 1" and "t \<equiv> interrupt_remapping_table (vtd_state s)"
  shows "i < VtdInterruptRemappingTableCapacity \<and> \<not> interrupt_remapping_allocated (vtd_state s) ! i \<and>
    interrupt_remapping_allocated (vtd_state s') = (interrupt_remapping_allocated (vtd_state s))[i := True] \<and>
    message_index (im_address m) = i \<and>
    irte_present (pages s' t (2 * i)) \<and> irte_vector (pages s' t (2 * i)) = vec \<and>
    irte_source (pages s' t (2 * i + 1)) = source_id_of f \<and>
    (\<forall>j. j \<noteq> 2 * i \<and> j \<noteq> 2 * i + 1 \<longrightarrow> pages s' t j = pages s t j)"
proof -
  let ?k = "free_irte (interrupt_remapping_allocated (vtd_state s))"
  let ?dest = "if extended_interrupt_mode (vtd_state s) then ucast lapic else push_bit 8 (ucast lapic) :: uint64"
  define l h where "l = 1 OR push_bit 3 1 OR push_bit 16 (ucast vec) OR push_bit 32 ?dest"
    and "h = (ucast (source_id_of f) OR push_bit 18 1 :: uint64)"
  have lh: "irte_present l" "irte_vector l = vec" "irte_source h = source_id_of f"
    unfolding l_def h_def by (fact irte_fields irte_source_field)+
  let ?s1 = "set_word t (2 * ?k) l (set_word t (2 * ?k + 1) h s)"
  let ?r = "SubmitInterruptCacheInvalidation D (of_nat ?k) 0 True ?s1"
  from assms(1) have k: "?k \<noteq> VtdInterruptRemappingTableCapacity"
    and m: "m = \<lparr>im_address = remappable_address ?k, im_data = 0, im_handle = of_nat (?k + 1)\<rparr>"
    and s': "s' = upd_vtd (\<lambda>v. v\<lparr>interrupt_remapping_allocated := (interrupt_remapping_allocated v)[?k := True]\<rparr>) (snd ?r)"
    by (auto simp: AllocatePciInterrupt_def Let_def t_def l_def h_def split_beta split: if_splits)
  note fk = free_irteD[OF k]
  have "unat (of_nat (?k + 1) :: uint16) = ?k + 1"
    using fk by (simp add: unat_of_nat VtdInterruptRemappingTableCapacity_def del: of_nat_add of_nat_Suc)
  then have i: "i = ?k" using m by (simp add: i_def)
  have c: "core (snd ?r) = core ?s1" by (rule core_SubmitInterruptCacheInvalidation)
  then have p: "pages s' = store t (2 * i) l (store t (2 * i + 1) h (pages s))"
    and v: "vtd_state (snd ?r) = vtd_state s"
    using s' i by (simp_all add: core_def upd_vtd_def set_word_def store_def)
  have "message_index (im_address m) = i" using m i fk message_index_address by simp
  with fk i v s' show ?thesis
    unfolding p store_def by (simp add: lh upd_vtd_def)
qed

lemma qi_submit:
  assumes "vtd_state s = vtd_state qi_state"
  shows "fst (SubmitQueuedInvalidation qi_hw x y s)"
proof -
  obtain n where n: "VtdCommandTimeoutSpins = Suc n"
    by (metis VtdCommandTimeoutSpins_def not0_implies_Suc zero_neq_numeral)
  have r: "ReadRegister32 qi_hw b off s = (if off = kVtdGlobalStatusRegister then VtdGlobalStatusQueuedInvalidation else 0, s)"
    for b off s by (simp add: ReadRegister32_def qi_hw_def)
  have poll: "fst (poll_loop qi_hw (Suc n) b s)" for b s
    by (simp add: r kVtdFaultStatusRegister_def kVtdGlobalStatusRegister_def) (simp add: qi_hw_def)
  show ?thesis
    using assms unfolding SubmitQueuedInvalidation_def n
    by (simp add: r qi_state_def null_vtd_def Let_def kVtdGlobalStatusRegister_def VtdInvalidationQueueTailRegister_def
        VtdInvalidationQueueHeadRegister_def VtdGlobalStatusQueuedInvalidation_def poll del: poll_loop.simps)
qed

theorem AllocatePciInterrupt_entry_witness:
  "\<exists>m s'. AllocatePciInterrupt qi_hw (Some qi_device) 5 0x41 qi_state = (True, m, s') \<and>
     message_index (im_address m) = unat (im_handle m) - 1 \<and>
     irte_vector (pages s' 0x9000 (2 * (unat (im_handle m) - 1))) = 0x41"
proof -
  let ?a = "AllocatePciInterrupt qi_hw (Some qi_device) 5 0x41 qi_state"
  have f: "free_irte (interrupt_remapping_allocated (vtd_state qi_state)) = 0"
    by (simp add: free_irte_def qi_state_def null_vtd_def VtdInterruptRemappingTableCapacity_def upt_conv_Cons)
  have sub: "fst (SubmitInterruptCacheInvalidation qi_hw i mk True s)" if "vtd_state s = vtd_state qi_state" for i mk s
    by (simp add: SubmitInterruptCacheInvalidation_def qi_submit[OF that])
  have e: "interrupt_remapping_enabled (vtd_state qi_state)" "segment (vtd_state qi_state) = 0"
    "interrupt_remapping_table (vtd_state qi_state) = 0x9000"
    "\<not> extended_interrupt_mode (vtd_state qi_state)" by (simp_all add: qi_state_def null_vtd_def)
  have "fst ?a"
    using e by (simp add: AllocatePciInterrupt_def f Let_def split_beta VtdInterruptRemappingTableCapacity_def
        qi_device_def sub set_word_def)
  then obtain m s' where a: "?a = (True, m, s')" by (cases ?a) auto
  from AllocatePciInterrupt_entry[OF a] e(3) a show ?thesis by auto
qed

section \<open>The invalidation queue\<close>

lemma iqueue_ReadRegister32: "iqueue (snd (ReadRegister32 D b off s)) = iqueue s"
  by (simp add: ReadRegister32_def split_beta Let_def)

lemma iqueue_poll_loop: "iqueue (snd (poll_loop D n b s)) = iqueue s"
  by (induction n arbitrary: s) (simp_all add: split_beta Let_def iqueue_ReadRegister32)

lemma unat_and_mask: "unat ((x :: uint32) AND mask n) = unat x mod 2 ^ n"
proof -
  have "x AND mask n = take_bit n x" by (simp add: take_bit_eq_mask)
  then have "unat (x AND mask n) = take_bit n (unat x)" by (simp only: unsigned_take_bit_eq)
  then show ?thesis by (simp add: take_bit_eq_mod)
qed

lemma put_descriptor_bounds:
  "16 \<le> len \<Longrightarrow> put_descriptor off len a b q x \<noteq> q x \<Longrightarrow> off \<le> x \<and> x < off + len"
  by (auto simp: put_descriptor_def split: if_splits)

lemma slot_bound:
  fixes off :: nat
  assumes "2 ^ k dvd off" and "off < 2 ^ (8 + k)"
  shows "off + 2 ^ k \<le> 2 ^ (8 + k)"
proof -
  obtain j where j: "off = 2 ^ k * j" using assms(1) by blast
  with assms(2) have "j < 256" by (simp add: power_add)
  then have "2 ^ k * (j + 1) \<le> 2 ^ k * (256 :: nat)" by (intro mult_le_mono2) simp
  with j show ?thesis by (simp add: power_add algebra_simps)
qed

lemma SubmitQueuedInvalidation_iqueue:
  fixes s :: "'h iommu"
  defines "dl \<equiv> push_bit (invalidation_queue_shift (vtd_state s)) (1 :: uint64)"
    and "qm \<equiv> ucast (invalidation_queue_length (vtd_state s) - 1) :: uint32"
  shows "iqueue (snd (SubmitQueuedInvalidation D a b s)) = iqueue s \<or>
    (\<exists>t c d. ucast (t AND qm) AND (dl - 1) = 0 \<and> iqueue (snd (SubmitQueuedInvalidation D a b s)) =
       put_descriptor (unat (((t AND qm) + ucast dl) AND qm)) (unat dl) c d
         (put_descriptor (unat (t AND qm)) (unat dl) a b (iqueue s)))"
proof -
  define r where "r = SubmitQueuedInvalidation D a b s"
  let ?v = "vtd_state s" and ?regs = "registers (vtd_state s)"
  obtain st s1 where r1: "ReadRegister32 D ?regs kVtdGlobalStatusRegister s = (st, s1)" by (metis surj_pair)
  obtain t s2 where r2: "ReadRegister32 D ?regs VtdInvalidationQueueTailRegister s1 = (t, s2)" by (metis surj_pair)
  obtain h s3 where r3: "ReadRegister32 D ?regs VtdInvalidationQueueHeadRegister s2 = (h, s3)" by (metis surj_pair)
  have iq: "iqueue s1 = iqueue s" "iqueue s2 = iqueue s" "iqueue s3 = iqueue s"
    using iqueue_ReadRegister32[of D ?regs] r1 r2 r3 by (metis snd_conv)+
  have w: "iqueue (WriteRegister32 D b' o' v' s') = iqueue s'" for b' o' v' and s' :: "'h iommu"
    by (simp add: WriteRegister32_def)
  have "iqueue (snd r) = iqueue s \<or> ucast (t AND qm) AND (dl - 1) = 0 \<and> (\<exists>c d. iqueue (snd r) =
       put_descriptor (unat (((t AND qm) + ucast dl) AND qm)) (unat dl) c d
         (put_descriptor (unat (t AND qm)) (unat dl) a b (iqueue s)))"
    unfolding r_def SubmitQueuedInvalidation_def Let_def r1 r2 r3 dl_def [symmetric] qm_def [symmetric] prod.case
    by (auto simp: iq iqueue_poll_loop w)
  then show ?thesis unfolding r_def by blast
qed

text \<open>C29: A queued invalidation writes only inside the invalidation queue, whatever the unit's tail and
  head registers read: both descriptors lie within the queue's length, for the 16-byte and the 32-byte
  descriptors that the set-up code chooses.\<close>

theorem SubmitQueuedInvalidation_in_queue:
  assumes "invalidation_queue_shift (vtd_state s) = k" and "k \<in> {4, 5}"
    and "invalidation_queue_length (vtd_state s) = push_bit k VtdInvalidationQueueLength"
    and "iqueue (snd (SubmitQueuedInvalidation D a b s)) x \<noteq> iqueue s x"
  shows "x < unat (invalidation_queue_length (vtd_state s))"
proof -
  let ?dl = "push_bit k (1 :: uint64)" and ?qm = "ucast (push_bit k VtdInvalidationQueueLength - 1) :: uint32"
  have k: "unat ?dl = 2 ^ k" "?qm = mask (8 + k)" "unat (push_bit k VtdInvalidationQueueLength) = 2 ^ (8 + k)"
    "16 \<le> (2 :: nat) ^ k" "ucast ?dl = (2 ^ k :: uint32)" "?dl - 1 = mask k"
    using assms(2) by (auto simp: VtdInvalidationQueueLength_def mask_eq_exp_minus_1)
  obtain t c d where al: "ucast (t AND ?qm) AND (?dl - 1) = 0" and q: "iqueue (snd (SubmitQueuedInvalidation D a b s)) =
      put_descriptor (unat (((t AND ?qm) + ucast ?dl) AND ?qm)) (unat ?dl) c d
         (put_descriptor (unat (t AND ?qm)) (unat ?dl) a b (iqueue s))"
    using SubmitQueuedInvalidation_iqueue[of D a b s] assms(1,3,4) by auto
  let ?t = "unat (t AND mask (8 + k))" and ?w = "unat (((t AND mask (8 + k)) + 2 ^ k) AND mask (8 + k))"
  have t: "?t < 2 ^ (8 + k)" by (simp add: unat_and_mask)
  have w: "?w < 2 ^ (8 + k)" by (simp add: unat_and_mask)
  have dt: "2 ^ k dvd ?t"
  proof -
    have "take_bit k (ucast (t AND mask (8 + k)) :: uint64) = 0"
      using al unfolding k take_bit_eq_mask .
    then have "take_bit k (unat (ucast (t AND mask (8 + k)) :: uint64)) = 0"
      by (metis unsigned_0 unsigned_take_bit_eq)
    moreover have "unat (ucast y :: uint64) = unat y" for y :: uint32
    proof -
      have "unat y < 2 ^ 32" using unsigned_less[of y] by simp
      then have "unat y < 2 ^ 64" by simp
      then show ?thesis by (simp add: unsigned_ucast_eq take_bit_nat_eq_self)
    qed
    ultimately have "take_bit k ?t = 0" by simp
    then show ?thesis by (simp add: take_bit_eq_mod dvd_eq_mod_eq_0)
  qed
  have dw: "2 ^ k dvd ?w"
  proof -
    have "?t + 2 ^ k < 2 ^ 32" using t assms(2) by auto
    then have "unat ((t AND mask (8 + k)) + 2 ^ k) = ?t + 2 ^ k"
      using assms(2) by (auto simp: unat_word_ariths)
    then have "?w = (?t + 2 ^ k) mod 2 ^ (8 + k)" by (simp add: unat_and_mask)
    moreover have "(2 :: nat) ^ k dvd 2 ^ (8 + k)" by (simp add: le_imp_power_dvd)
    ultimately show ?thesis using dt by (simp add: dvd_mod)
  qed
  have "?t \<le> x \<and> x < ?t + 2 ^ k \<or> ?w \<le> x \<and> x < ?w + 2 ^ k"
    using assms(4) put_descriptor_bounds[OF k(4)] unfolding q k by metis
  then show ?thesis
    using slot_bound[OF dt t] slot_bound[OF dw w] assms(3) k(3) by auto
qed

theorem SubmitQueuedInvalidation_in_queue_witness:
  "iqueue (snd (SubmitQueuedInvalidation qi_hw 1 0 qi_state)) 0 \<noteq> iqueue qi_state 0 \<and>
    0 < unat (invalidation_queue_length (vtd_state qi_state))"
proof -
  have r: "ReadRegister32 qi_hw b off s = (if off = kVtdGlobalStatusRegister then VtdGlobalStatusQueuedInvalidation else 0, s)"
    for b off s by (simp add: ReadRegister32_def qi_hw_def)
  have ne: "iqueue (snd (SubmitQueuedInvalidation qi_hw 1 0 qi_state)) 0 \<noteq> iqueue qi_state 0"
    by (simp add: SubmitQueuedInvalidation_def r qi_state_def null_vtd_def Let_def kVtdGlobalStatusRegister_def
        VtdInvalidationQueueTailRegister_def VtdInvalidationQueueHeadRegister_def VtdGlobalStatusQueuedInvalidation_def
        iqueue_poll_loop WriteRegister32_def put_descriptor_def)
  moreover have "0 < unat (invalidation_queue_length (vtd_state qi_state))"
    by (rule SubmitQueuedInvalidation_in_queue[where k = 4, OF _ _ _ ne])
       (simp_all add: qi_state_def VtdInvalidationQueueLength_def)
  ultimately show ?thesis by blast
qed

end
