(* ===== verification/Page_Registry.thy ===== *)
theory Page_Registry
  imports Prelude
begin

text \<open>
  The registry of physical mappings of \<^verbatim>\<open>src/mecocoa/memoman-page.cpp\<close>: half-open address ranges,
  the compatibility of memory types, the mapping records with their two-phase update (reserve nodes,
  then commit without allocating) and the operations \<open>MapPages\<close>, \<open>UnmapPages\<close>,
  \<open>ReleasePagingMappings\<close> and \<open>MapFramebufferPages\<close>, in the x86-64 build.

  The page-table library is a parameter, the record \<open>page_lib\<close>: its constants, its checks of page
  properties, and \<open>Paging::Map\<close> and \<open>Paging::Unmap\<close> on page tables of any type \<open>'h\<close>. The allocator is
  a parameter too: \<open>mempool_results\<close> holds the addresses its next calls return (an exhausted list is a
  call that fails), \<open>mempool_freed\<close> the addresses given back. A failing \<open>KASSERT\<close> is \<open>None\<close>.
\<close>

section \<open>The page-table library\<close>

record 'h page_lib =
  NormalizePageProperties :: "stduint \<Rightarrow> stduint option"
  PageTypeSupported :: "stduint \<Rightarrow> bool"
  isSupportedSize :: "stduint \<Rightarrow> bool"
  PagingPATEnabled :: bool
  PAGESIZE_ANY :: stduint
  PAGESIZE_4KB :: stduint
  PAGESIZE_2MB :: stduint
  PGPROP_present :: stduint
  PGPROP_writable :: stduint
  PGPROP_user_access :: stduint
  PGPROP_global :: stduint
  PGPROP_nonexecutable :: stduint
  PGPROP_weak :: stduint
  PGPROP_MASK_TYPE :: stduint
  PGOPTS_omit_warnings :: stduint
  PGTYPE_default :: stduint
  PGTYPE_writeback :: stduint
  PGTYPE_writethrough :: stduint
  PGTYPE_uncacheable :: stduint
  PGTYPE_writecombine :: stduint
  PGTYPE_device :: stduint
  PGTYPE_noncacheable :: stduint
  kernel_paging :: ptr
  Paging_Map :: "ptr \<Rightarrow> stduint \<Rightarrow> stduint \<Rightarrow> stduint \<Rightarrow> stduint \<Rightarrow> stduint \<Rightarrow> 'h \<Rightarrow> bool \<times> 'h"
  Paging_Unmap :: "ptr \<Rightarrow> stduint \<Rightarrow> stduint \<Rightarrow> 'h \<Rightarrow> bool \<times> 'h"
  Paging_getEntry :: "ptr \<Rightarrow> stduint \<Rightarrow> 'h \<Rightarrow> stduint option option"
  Paging_physical :: "ptr \<Rightarrow> stduint \<Rightarrow> 'h \<Rightarrow> stduint"

text \<open>
  \<open>Paging_getEntry p va\<close> is \<open>None\<close> where \<open>getEntry\<close> finds no leaf, and \<open>Some\<close> of the result of
  \<open>DecodeLeafProperties\<close> on the leaf otherwise; \<open>Paging_physical\<close> is \<open>Paging::operator[]\<close>.
\<close>

section \<open>Ranges\<close>

record PhysicalRange =
  pr_begin :: stduint
  pr_end :: stduint

definition MakePhysicalRange :: "stduint \<Rightarrow> stduint \<Rightarrow> PhysicalRange option" where
  "MakePhysicalRange beg len =
     (if len = 0 \<or> len > NOT 0 - beg then None
      else Some \<lparr>pr_begin = beg, pr_end = beg + len\<rparr>)"

definition PhysicalRangesEqual :: "PhysicalRange \<Rightarrow> PhysicalRange \<Rightarrow> bool" where
  "PhysicalRangesEqual left right \<longleftrightarrow> pr_begin left = pr_begin right \<and> pr_end left = pr_end right"

definition PhysicalRangesOverlap :: "PhysicalRange \<Rightarrow> PhysicalRange \<Rightarrow> bool" where
  "PhysicalRangesOverlap left right \<longleftrightarrow> pr_begin left < pr_end right \<and> pr_begin right < pr_end left"

definition PhysicalRangeContains :: "PhysicalRange \<Rightarrow> PhysicalRange \<Rightarrow> bool" where
  "PhysicalRangeContains outer inner \<longleftrightarrow>
     pr_begin outer \<le> pr_begin inner \<and> pr_end inner \<le> pr_end outer"

definition PhysicalRangesPartiallyOverlap :: "PhysicalRange \<Rightarrow> PhysicalRange \<Rightarrow> bool" where
  "PhysicalRangesPartiallyOverlap left right \<longleftrightarrow>
     PhysicalRangesOverlap left right \<and> \<not> PhysicalRangeContains left right \<and>
     \<not> PhysicalRangeContains right left"

definition PhysicalRangesAdjacent :: "PhysicalRange \<Rightarrow> PhysicalRange \<Rightarrow> bool" where
  "PhysicalRangesAdjacent left right \<longleftrightarrow>
     pr_end left = pr_begin right \<or> pr_end right = pr_begin left"

text \<open>The remainder is the array \<open>ranges\<close> up to \<open>count\<close>.\<close>

definition SubtractPhysicalRange :: "PhysicalRange \<Rightarrow> PhysicalRange \<Rightarrow> PhysicalRange list option" where
  "SubtractPhysicalRange source removed =
     (if pr_begin source \<ge> pr_end source \<or> pr_begin removed \<ge> pr_end removed then None
      else if \<not> PhysicalRangesOverlap source removed then Some [source]
      else Some
        ((if pr_begin source < pr_begin removed
          then [\<lparr>pr_begin = pr_begin source, pr_end = pr_begin removed\<rparr>] else []) @
         (if pr_end removed < pr_end source
          then [\<lparr>pr_begin = pr_end removed, pr_end = pr_end source\<rparr>] else [])))"

section \<open>Memory types\<close>

definition known_page_type :: "'h page_lib \<Rightarrow> stduint \<Rightarrow> bool" where
  "known_page_type L type \<longleftrightarrow> type \<in> {PGTYPE_default L, PGTYPE_writeback L, PGTYPE_writethrough L,
     PGTYPE_uncacheable L, PGTYPE_writecombine L, PGTYPE_device L, PGTYPE_noncacheable L}"

definition PhysicalPageTypesCompatible :: "'h page_lib \<Rightarrow> stduint \<Rightarrow> stduint \<Rightarrow> bool" where
  "PhysicalPageTypesCompatible L existing_type requested_type =
     (if \<not> known_page_type L existing_type then False
      else if \<not> known_page_type L requested_type then False
      else if requested_type = PGTYPE_default L then False
      else if existing_type = PGTYPE_default L \<or> existing_type = PGTYPE_writeback L then True
      else
        (let existing_type = (if existing_type = PGTYPE_device L then PGTYPE_uncacheable L
                              else existing_type);
             requested_type = (if requested_type = PGTYPE_device L then PGTYPE_uncacheable L
                               else requested_type)
         in existing_type = requested_type))"

section \<open>Mapping records\<close>

record PhysicalMappingRecord =
  mr_paging :: ptr
  mr_virtual_range :: PhysicalRange
  mr_physical_range :: PhysicalRange
  mr_type :: stduint
  mr_permissions :: stduint

text \<open>A chain of records is the list of its nodes, each with its address.\<close>

type_synonym node = "uint64 \<times> PhysicalMappingRecord"

record 'h memory =
  physical_mapping_records :: "node list"
  mempool_results :: "uint64 list"
  mempool_freed :: "uint64 list"
  page_tables :: 'h

definition mempool_allocate :: "'h memory \<Rightarrow> uint64 \<times> 'h memory" where
  "mempool_allocate m =
     (case mempool_results m of
        [] \<Rightarrow> (0, m)
      | a # rest \<Rightarrow> (a, m\<lparr>mempool_results := rest\<rparr>))"

definition mempool_deallocate :: "uint64 \<Rightarrow> 'h memory \<Rightarrow> 'h memory" where
  "mempool_deallocate a m = m\<lparr>mempool_freed := a # mempool_freed m\<rparr>"

definition AllocatePhysicalMappingRecord :: "'h memory \<Rightarrow> uint64 option \<times> 'h memory" where
  "AllocatePhysicalMappingRecord m =
     (let (a, m) = mempool_allocate m in (if a = 0 \<or> a = NOT 0 then None else Some a, m))"

primrec ReleasePhysicalMappingRecords :: "uint64 list \<Rightarrow> 'h memory \<Rightarrow> 'h memory" where
  "ReleasePhysicalMappingRecords [] m = m"
| "ReleasePhysicalMappingRecords (a # records) m =
     ReleasePhysicalMappingRecords records (mempool_deallocate a m)"

primrec reserve_loop :: "nat \<Rightarrow> uint64 list \<Rightarrow> 'h memory \<Rightarrow> uint64 list option \<times> 'h memory" where
  "reserve_loop 0 records m = (Some records, m)"
| "reserve_loop (Suc count) records m =
     (case AllocatePhysicalMappingRecord m of
        (None, m) \<Rightarrow> (None, ReleasePhysicalMappingRecords records m)
      | (Some a, m) \<Rightarrow> reserve_loop count (a # records) m)"

definition ReservePhysicalMappingRecords :: "nat \<Rightarrow> 'h memory \<Rightarrow> uint64 list option \<times> 'h memory" where
  "ReservePhysicalMappingRecords count m = reserve_loop count [] m"

fun TakePhysicalMappingRecord :: "uint64 list \<Rightarrow> (uint64 \<times> uint64 list) option" where
  "TakePhysicalMappingRecord [] = None"
| "TakePhysicalMappingRecord (a # records) = Some (a, records)"

text \<open>\<open>shift\<close> is the page shift of the request; \<open>_IMM1 << shift\<close> is used only below 64.\<close>

definition NormalizeMapRequest ::
  "'h page_lib \<Rightarrow> ptr \<Rightarrow> stduint \<Rightarrow> stduint \<Rightarrow> stduint \<Rightarrow> stduint \<Rightarrow> stduint \<Rightarrow>
   PhysicalMappingRecord option" where
  "NormalizeMapRequest L paging linear_address physical_address len page_size properties =
     (case NormalizePageProperties L properties of
        None \<Rightarrow> None
      | Some normalized \<Rightarrow>
          if normalized AND PGPROP_present L = 0 \<or> normalized AND PGPROP_weak L \<noteq> 0 then None
          else
            let type = normalized AND PGPROP_MASK_TYPE L in
            if type = PGTYPE_default L then None
            else if page_size \<noteq> PAGESIZE_ANY L \<and> \<not> isSupportedSize L page_size then None
            else
              let shift = (if page_size \<noteq> PAGESIZE_ANY L then page_size else PAGESIZE_4KB L) in
              if shift \<ge> 64 then None
              else
                let mask = push_bit (unat shift) 1 - 1;
                    virtual_offset = linear_address AND mask
                in
                if page_size = PAGESIZE_ANY L \<and> virtual_offset \<noteq> (physical_address AND mask) then None
                else
                  let linear_address = linear_address - virtual_offset;
                      physical_address = physical_address AND NOT mask
                  in
                  if len > NOT 0 - virtual_offset then None
                  else
                    let len = len + virtual_offset in
                    if len > NOT 0 - mask then None
                    else
                      let len = (len + mask) AND NOT mask in
                      do {
                        v \<leftarrow> MakePhysicalRange linear_address len;
                        p \<leftarrow> MakePhysicalRange physical_address len;
                        Some \<lparr>mr_paging = paging, mr_virtual_range = v, mr_physical_range = p,
                          mr_type = type,
                          mr_permissions = normalized AND (PGPROP_writable L OR PGPROP_user_access L OR
                            PGPROP_global L OR PGPROP_nonexecutable L)\<rparr>
                      })"

definition NormalizeUnmapRequest :: "'h page_lib \<Rightarrow> stduint \<Rightarrow> stduint \<Rightarrow> PhysicalRange option" where
  "NormalizeUnmapRequest L linear_address len =
     (if len = 0 then None
      else
        let mask = push_bit (unat (PAGESIZE_4KB L)) 1 - 1;
            offset = linear_address AND mask;
            linear_address = linear_address - offset
        in
        if len > NOT 0 - offset then None
        else
          let len = len + offset in
          if len > NOT 0 - mask then None
          else MakePhysicalRange linear_address ((len + mask) AND NOT mask))"

text \<open>The loop over the remainder; the fragments are the array up to \<open>count\<close>.\<close>

primrec split_fragments ::
  "PhysicalMappingRecord \<Rightarrow> PhysicalRange list \<Rightarrow> PhysicalMappingRecord list option" where
  "split_fragments source [] = Some []"
| "split_fragments source (r # remainder) =
     (let offset = pr_begin r - pr_begin (mr_virtual_range source);
          len = pr_end r - pr_begin r
      in do {
        p \<leftarrow> MakePhysicalRange (pr_begin (mr_physical_range source) + offset) len;
        fragments \<leftarrow> split_fragments source remainder;
        Some (source\<lparr>mr_virtual_range := r, mr_physical_range := p\<rparr> # fragments)
      })"

definition SplitPhysicalMappingRecord ::
  "PhysicalMappingRecord \<Rightarrow> PhysicalRange \<Rightarrow> PhysicalMappingRecord list option" where
  "SplitPhysicalMappingRecord source removed =
     do {
       remainder \<leftarrow> SubtractPhysicalRange (mr_virtual_range source) removed;
       split_fragments source remainder
     }"

definition MappingTypeConflicts ::
  "'h page_lib \<Rightarrow> PhysicalMappingRecord \<Rightarrow> PhysicalMappingRecord \<Rightarrow> bool" where
  "MappingTypeConflicts L existing requested \<longleftrightarrow>
     PhysicalRangesOverlap (mr_physical_range existing) (mr_physical_range requested) \<and>
     \<not> PhysicalPageTypesCompatible L (mr_type existing) (mr_type requested)"

section \<open>Two-phase updates\<close>

text \<open>\<open>reserve_count\<close> counts nodes of the chain, so it is a number.\<close>

fun prepare_map_loop ::
  "'h page_lib \<Rightarrow> PhysicalMappingRecord \<Rightarrow> node list \<Rightarrow> nat \<Rightarrow> nat option" where
  "prepare_map_loop L requested [] reserve_count = Some reserve_count"
| "prepare_map_loop L requested ((_, existing) # rest) reserve_count =
     (if mr_paging existing = mr_paging requested \<and>
         PhysicalRangesOverlap (mr_virtual_range existing) (mr_virtual_range requested)
      then
        case SplitPhysicalMappingRecord existing (mr_virtual_range requested) of
          None \<Rightarrow> None
        | Some fragments \<Rightarrow>
            if list_ex (\<lambda>f. MappingTypeConflicts L f requested) fragments then None
            else prepare_map_loop L requested rest
              (if length fragments = 2 then Suc reserve_count else reserve_count)
      else if MappingTypeConflicts L existing requested then None
      else prepare_map_loop L requested rest reserve_count)"

definition PrepareMapRecords ::
  "'h page_lib \<Rightarrow> PhysicalMappingRecord \<Rightarrow> 'h memory \<Rightarrow> uint64 list option \<times> 'h memory" where
  "PrepareMapRecords L requested m =
     (case prepare_map_loop L requested (physical_mapping_records m) 1 of
        None \<Rightarrow> (None, m)
      | Some reserve_count \<Rightarrow> ReservePhysicalMappingRecords reserve_count m)"

text \<open>
  The loop that \<open>CommitMapRecord\<close> and \<open>CommitUnmapRecords\<close> share: the new chain, the reserved nodes
  that are left, and the nodes given back.
\<close>

fun commit_loop ::
  "ptr \<Rightarrow> PhysicalRange \<Rightarrow> node list \<Rightarrow> uint64 list \<Rightarrow> (node list \<times> uint64 list \<times> uint64 list) option"
where
  "commit_loop paging removed [] reserved = Some ([], reserved, [])"
| "commit_loop paging removed ((a, existing) # rest) reserved =
     (if mr_paging existing \<noteq> paging \<or>
         \<not> PhysicalRangesOverlap (mr_virtual_range existing) removed
      then do {
        (chain, left, freed) \<leftarrow> commit_loop paging removed rest reserved;
        Some ((a, existing) # chain, left, freed)
      }
      else
        case SplitPhysicalMappingRecord existing removed of
          None \<Rightarrow> None
        | Some [] \<Rightarrow> do {
            (chain, left, freed) \<leftarrow> commit_loop paging removed rest reserved;
            Some (chain, left, a # freed)
          }
        | Some [f] \<Rightarrow> do {
            (chain, left, freed) \<leftarrow> commit_loop paging removed rest reserved;
            Some ((a, f) # chain, left, freed)
          }
        | Some (f # g # _) \<Rightarrow> do {
            (split, reserved) \<leftarrow> TakePhysicalMappingRecord reserved;
            (chain, left, freed) \<leftarrow> commit_loop paging removed rest reserved;
            Some ((a, f) # (split, g) # chain, left, freed)
          })"

definition CommitMapRecord ::
  "PhysicalMappingRecord \<Rightarrow> uint64 list \<Rightarrow> 'h memory \<Rightarrow> 'h memory option" where
  "CommitMapRecord requested reserved m =
     do {
       (chain, reserved, freed) \<leftarrow> commit_loop (mr_paging requested) (mr_virtual_range requested)
          (physical_mapping_records m) reserved;
       (added, reserved) \<leftarrow> TakePhysicalMappingRecord reserved;
       if reserved \<noteq> [] then None
       else Some (ReleasePhysicalMappingRecords freed
         (m\<lparr>physical_mapping_records := (added, requested) # chain\<rparr>))
     }"

fun prepare_unmap_loop :: "ptr \<Rightarrow> PhysicalRange \<Rightarrow> node list \<Rightarrow> nat \<Rightarrow> nat option" where
  "prepare_unmap_loop paging removed [] reserve_count = Some reserve_count"
| "prepare_unmap_loop paging removed ((_, existing) # rest) reserve_count =
     (if mr_paging existing \<noteq> paging \<or>
         \<not> PhysicalRangesOverlap (mr_virtual_range existing) removed
      then prepare_unmap_loop paging removed rest reserve_count
      else
        case SplitPhysicalMappingRecord existing removed of
          None \<Rightarrow> None
        | Some fragments \<Rightarrow> prepare_unmap_loop paging removed rest
            (if length fragments = 2 then Suc reserve_count else reserve_count))"

definition PrepareUnmapRecords ::
  "ptr \<Rightarrow> PhysicalRange \<Rightarrow> 'h memory \<Rightarrow> uint64 list option \<times> 'h memory" where
  "PrepareUnmapRecords paging removed m =
     (case prepare_unmap_loop paging removed (physical_mapping_records m) 0 of
        None \<Rightarrow> (None, m)
      | Some reserve_count \<Rightarrow> ReservePhysicalMappingRecords reserve_count m)"

definition CommitUnmapRecords ::
  "ptr \<Rightarrow> PhysicalRange \<Rightarrow> uint64 list \<Rightarrow> 'h memory \<Rightarrow> 'h memory option" where
  "CommitUnmapRecords paging removed reserved m =
     do {
       (chain, reserved, freed) \<leftarrow> commit_loop paging removed (physical_mapping_records m) reserved;
       if reserved \<noteq> [] then None
       else Some (ReleasePhysicalMappingRecords freed (m\<lparr>physical_mapping_records := chain\<rparr>))
     }"

section \<open>Operations\<close>

definition MapPages ::
  "'h page_lib \<Rightarrow> ptr \<Rightarrow> stduint \<Rightarrow> stduint \<Rightarrow> stduint \<Rightarrow> stduint \<Rightarrow> stduint \<Rightarrow> 'h memory \<Rightarrow>
   (bool \<times> 'h memory) option" where
  "MapPages L paging linear_address physical_address len page_size properties m =
     (if len = 0 then Some (True, m)
      else
        case NormalizeMapRequest L paging linear_address physical_address len page_size properties of
          None \<Rightarrow> Some (False, m)
        | Some requested \<Rightarrow>
            case PrepareMapRecords L requested m of
              (None, m) \<Rightarrow> Some (False, m)
            | (Some reserved, m) \<Rightarrow>
                let (mapped, tables) = Paging_Map L paging linear_address physical_address len
                      page_size properties (page_tables m);
                    m = m\<lparr>page_tables := tables\<rparr>
                in
                if \<not> mapped then Some (False, ReleasePhysicalMappingRecords reserved m)
                else do {
                  m \<leftarrow> CommitMapRecord requested reserved m;
                  Some (True, m)
                })"

definition UnmapPages ::
  "'h page_lib \<Rightarrow> ptr \<Rightarrow> stduint \<Rightarrow> stduint \<Rightarrow> 'h memory \<Rightarrow> (bool \<times> 'h memory) option" where
  "UnmapPages L paging linear_address len m =
     (if len = 0 then Some (True, m)
      else
        case NormalizeUnmapRequest L linear_address len of
          None \<Rightarrow> Some (False, m)
        | Some removed \<Rightarrow>
            case PrepareUnmapRecords paging removed m of
              (None, m) \<Rightarrow> Some (False, m)
            | (Some reserved, m) \<Rightarrow>
                let (unmapped, tables) = Paging_Unmap L paging (pr_begin removed)
                      (pr_end removed - pr_begin removed) (page_tables m);
                    m = m\<lparr>page_tables := tables\<rparr>
                in
                if \<not> unmapped then Some (False, ReleasePhysicalMappingRecords reserved m)
                else do {
                  m \<leftarrow> CommitUnmapRecords paging removed reserved m;
                  Some (True, m)
                })"

fun release_paging_loop :: "ptr \<Rightarrow> node list \<Rightarrow> node list \<times> uint64 list" where
  "release_paging_loop paging [] = ([], [])"
| "release_paging_loop paging ((a, record) # rest) =
     (let (chain, freed) = release_paging_loop paging rest in
      if mr_paging record \<noteq> paging then ((a, record) # chain, freed) else (chain, a # freed))"

definition ReleasePagingMappings :: "ptr \<Rightarrow> 'h memory \<Rightarrow> 'h memory" where
  "ReleasePagingMappings paging m =
     (let (chain, freed) = release_paging_loop paging (physical_mapping_records m) in
      ReleasePhysicalMappingRecords freed (m\<lparr>physical_mapping_records := chain\<rparr>))"

section \<open>Framebuffer mappings\<close>

definition framebuffer_range_supports_wc :: "'h page_lib \<Rightarrow> stduint \<Rightarrow> stduint \<Rightarrow> bool" where
  "framebuffer_range_supports_wc L beg fin \<longleftrightarrow> beg < fin \<and> PagingPATEnabled L"

definition high_mapping_base :: stduint where
  "high_mapping_base = 0x0000FFFFC0000000"

definition high_mapping_limit :: "'h page_lib \<Rightarrow> stduint" where
  "high_mapping_limit L = 0x40000000 - push_bit (unat (PAGESIZE_2MB L)) 1"

definition read_type :: "'h page_lib \<Rightarrow> stduint \<Rightarrow> stduint \<Rightarrow> 'h \<Rightarrow> stduint option" where
  "read_type L virtual_address physical h =
     (case Paging_getEntry L (kernel_paging L) virtual_address h of
        None \<Rightarrow> Some (PGTYPE_default L)
      | Some leaf \<Rightarrow>
          if Paging_physical L (kernel_paging L) virtual_address h \<noteq> physical then None
          else map_option (\<lambda>properties. properties AND PGPROP_MASK_TYPE L) leaf)"

definition select_type ::
  "'h page_lib \<Rightarrow> bool \<Rightarrow> stduint \<Rightarrow> stduint \<Rightarrow> 'h \<Rightarrow> stduint \<Rightarrow> stduint option" where
  "select_type L wc_supported physical_address len h address =
     (case read_type L address address h of
        None \<Rightarrow> None
      | Some _ \<Rightarrow>
          let full_resource_page = (address \<ge> physical_address \<and>
                physical_address + len - address \<ge> PAGE_SIZE);
              type = (if wc_supported \<and> full_resource_page then PGTYPE_writecombine L
                      else PGTYPE_device L)
          in
          if address < high_mapping_limit L then
            case read_type L (high_mapping_base + address) address h of
              None \<Rightarrow> None
            | Some alias_type \<Rightarrow>
                if alias_type \<noteq> PGTYPE_default L \<and> alias_type \<noteq> PGTYPE_writeback L \<and>
                   alias_type \<noteq> type \<and>
                   \<not> (type = PGTYPE_device L \<and> alias_type = PGTYPE_uncacheable L)
                then None else Some type
          else Some type)"

text \<open>
  The values of \<open>address\<close> in a loop from \<open>beg\<close> to \<open>fin\<close> in steps of a page. Both bounds are page
  aligned, so the loop meets \<open>fin\<close> exactly and never wraps.
\<close>

definition page_addresses :: "stduint \<Rightarrow> stduint \<Rightarrow> stduint list" where
  "page_addresses beg fin =
     map (\<lambda>i. beg + of_nat i * PAGE_SIZE) [0..<unat ((fin - beg) div PAGE_SIZE)]"

text \<open>
  The second loop, over the remaining addresses, with the run \<open>run_begin\<close>, \<open>run_type\<close> that is
  collected. The last argument but one is \<open>end\<close>; the call after the loop maps the last run.
\<close>

definition map_run :: "'h page_lib \<Rightarrow> stduint \<Rightarrow> stduint \<Rightarrow> stduint \<Rightarrow> 'h memory \<Rightarrow> (bool \<times> 'h memory) option"
where
  "map_run L run_begin fin run_type m =
     MapPages L (kernel_paging L) run_begin run_begin (fin - run_begin) (PAGESIZE_ANY L)
       (PGPROP_present L OR PGPROP_writable L OR run_type OR PGOPTS_omit_warnings L) m"

primrec framebuffer_runs ::
  "'h page_lib \<Rightarrow> bool \<Rightarrow> stduint \<Rightarrow> stduint \<Rightarrow> stduint list \<Rightarrow> stduint \<Rightarrow> stduint \<Rightarrow> stduint \<Rightarrow>
   'h memory \<Rightarrow> (bool \<times> 'h memory) option" where
  "framebuffer_runs L wc physical_address len [] run_begin run_type fin m =
     map_run L run_begin fin run_type m"
| "framebuffer_runs L wc physical_address len (address # rest) run_begin run_type fin m =
     (case select_type L wc physical_address len (page_tables m) address of
        None \<Rightarrow> Some (False, m)
      | Some type \<Rightarrow>
          let run_type = (if run_type = PGTYPE_default L then type else run_type) in
          if type = run_type then
            framebuffer_runs L wc physical_address len rest run_begin run_type fin m
          else
            case map_run L run_begin address run_type m of
              None \<Rightarrow> None
            | Some (False, m) \<Rightarrow> Some (False, m)
            | Some (True, m) \<Rightarrow>
                framebuffer_runs L wc physical_address len rest address type fin m)"

definition MapFramebufferPages ::
  "'h page_lib \<Rightarrow> stduint \<Rightarrow> stduint \<Rightarrow> 'h memory \<Rightarrow> (bool \<times> 'h memory) option" where
  "MapFramebufferPages L physical_address len m =
     (if physical_address = 0 \<or> len = 0 \<or> len > NOT 0 - physical_address \<or>
         physical_address + len > NOT 0 - (PAGE_SIZE - 1)
      then Some (False, m)
      else
        let page_mask = PAGE_SIZE - 1;
            beg = physical_address AND NOT page_mask;
            fin = (physical_address + len + PAGE_SIZE - 1) AND NOT page_mask
        in
        if fin \<le> beg then Some (False, m)
        else
          let wc = framebuffer_range_supports_wc L beg fin;
              addresses = page_addresses beg fin
          in
          if list_ex (\<lambda>a. select_type L wc physical_address len (page_tables m) a = None) addresses
          then Some (False, m)
          else framebuffer_runs L wc physical_address len addresses beg (PGTYPE_default L) fin m)"

end
