(* ===== verification/Page_Plan.thy ===== *)
theory Page_Plan
  imports Page_Registry
begin

text \<open>
  The plan of the initial mappings in \<^verbatim>\<open>src/mecocoa/memoman-page.cpp\<close>: the overlay of regions on
  an ordered plan, the plan of the UEFI build from the firmware's memory map, and its mapping at the
  identity and at the high alias.

  A plan is the array up to \<open>plan_count\<close>. The environment of the UEFI build, the record \<open>uefi_env\<close>,
  is what the loader and the PCI library hand over: the descriptors in memory, the configuration
  windows (\<open>None\<close> for an index without one) and the frame buffer.
\<close>

section \<open>Regions\<close>

record InitialPageRegion =
  ir_begin :: stduint
  ir_end :: stduint
  ir_type :: stduint
  ir_permissions :: stduint

definition NormalizeInitialPageRegion ::
  "'h page_lib \<Rightarrow> InitialPageRegion \<Rightarrow> InitialPageRegion option" where
  "NormalizeInitialPageRegion L source =
     (let page_mask = push_bit (unat (PAGESIZE_4KB L)) 1 - 1;
          permission_mask = PGPROP_present L OR PGPROP_writable L OR PGPROP_user_access L OR
            PGPROP_global L OR PGPROP_nonexecutable L
      in
      if ir_begin source \<ge> ir_end source \<or> ir_begin source AND page_mask \<noteq> 0 \<or>
         ir_end source AND page_mask \<noteq> 0 \<or> ir_type source = PGTYPE_default L \<or>
         \<not> PageTypeSupported L (ir_type source) \<or>
         ir_permissions source AND NOT permission_mask \<noteq> 0
      then None
      else
        case NormalizePageProperties L (ir_permissions source OR ir_type source) of
          None \<Rightarrow> None
        | Some properties \<Rightarrow>
            if properties AND PGPROP_present L = 0 \<or> properties AND PGPROP_weak L \<noteq> 0 \<or>
               properties AND PGPROP_MASK_TYPE L \<noteq> ir_type source
            then None
            else Some (source\<lparr>ir_permissions := properties AND NOT (PGPROP_MASK_TYPE L)\<rparr>))"

definition InitialPageRegionAttributesEqual :: "InitialPageRegion \<Rightarrow> InitialPageRegion \<Rightarrow> bool" where
  "InitialPageRegionAttributesEqual left right \<longleftrightarrow>
     ir_type left = ir_type right \<and> ir_permissions left = ir_permissions right"

section \<open>Overlay\<close>

definition region_apart :: "InitialPageRegion \<Rightarrow> InitialPageRegion \<Rightarrow> bool" where
  "region_apart existing added \<longleftrightarrow>
     ir_end existing \<le> ir_begin added \<or> ir_end added \<le> ir_begin existing"

primrec overlay_required :: "InitialPageRegion \<Rightarrow> InitialPageRegion list \<Rightarrow> nat \<Rightarrow> nat" where
  "overlay_required added [] required = required"
| "overlay_required added (existing # rest) required =
     overlay_required added rest
       (if region_apart existing added then required + 1
        else required + (if ir_begin existing < ir_begin added then 1 else 0)
                      + (if ir_end added < ir_end existing then 1 else 0))"

text \<open>
  The loop over \<open>index\<close> that removes the added range. Moving the tail of the array up or down by one
  is an insertion into, or a removal from, the list.
\<close>

function overlay_cut :: "InitialPageRegion \<Rightarrow> nat \<Rightarrow> InitialPageRegion list \<Rightarrow> InitialPageRegion list" where
  "overlay_cut added index plan =
     (if index \<ge> length plan then plan
      else
        let existing = plan ! index in
        if region_apart existing added then overlay_cut added (index + 1) plan
        else
          let keep_left = (ir_begin existing < ir_begin added);
              keep_right = (ir_end added < ir_end existing)
          in
          if keep_left \<and> keep_right then
            overlay_cut added (index + 2)
              (take index plan @ existing\<lparr>ir_end := ir_begin added\<rparr> #
               existing\<lparr>ir_begin := ir_end added\<rparr> # drop (index + 1) plan)
          else if keep_left then
            overlay_cut added (index + 1) (plan[index := existing\<lparr>ir_end := ir_begin added\<rparr>])
          else if keep_right then
            overlay_cut added (index + 1) (plan[index := existing\<lparr>ir_begin := ir_end added\<rparr>])
          else overlay_cut added index (take index plan @ drop (index + 1) plan))"
  by pat_completeness auto
termination by (relation "measure (\<lambda>(added, index, plan). length plan - index)") auto

primrec insert_position :: "InitialPageRegion \<Rightarrow> InitialPageRegion list \<Rightarrow> nat" where
  "insert_position added [] = 0"
| "insert_position added (r # rest) =
     (if ir_begin r < ir_begin added then Suc (insert_position added rest) else 0)"

definition overlay_insert :: "InitialPageRegion \<Rightarrow> InitialPageRegion list \<Rightarrow> InitialPageRegion list" where
  "overlay_insert added plan =
     (let insert = insert_position added plan in take insert plan @ added # drop insert plan)"

text \<open>The merging loop: \<open>output\<close> is the array up to \<open>output\<close>, the last argument the inputs to come.\<close>

fun overlay_merge :: "InitialPageRegion list \<Rightarrow> InitialPageRegion list \<Rightarrow> InitialPageRegion list" where
  "overlay_merge output [] = output"
| "overlay_merge output (r # rest) =
     (if output \<noteq> [] \<and> ir_end (last output) = ir_begin r \<and>
         InitialPageRegionAttributesEqual (last output) r
      then overlay_merge (butlast output @ [(last output)\<lparr>ir_end := ir_end r\<rparr>]) rest
      else overlay_merge (output @ [r]) rest)"

definition OverlayInitialPageRegion ::
  "InitialPageRegion list \<Rightarrow> nat \<Rightarrow> InitialPageRegion \<Rightarrow> InitialPageRegion list option" where
  "OverlayInitialPageRegion plan plan_capacity added =
     (if overlay_required added plan 1 > plan_capacity then None
      else Some (overlay_merge [] (overlay_insert added (overlay_cut added 0 plan))))"

section \<open>Plans\<close>

primrec plan_loop ::
  "'h page_lib \<Rightarrow> InitialPageRegion list \<Rightarrow> InitialPageRegion list \<Rightarrow> nat \<Rightarrow> InitialPageRegion list option"
where
  "plan_loop L [] plan plan_capacity = Some plan"
| "plan_loop L (r # source) plan plan_capacity =
     do {
       normalized \<leftarrow> NormalizeInitialPageRegion L r;
       plan \<leftarrow> OverlayInitialPageRegion plan plan_capacity normalized;
       plan_loop L source plan plan_capacity
     }"

text \<open>The arguments \<open>source\<close> and \<open>plan\<close> are not null in any call.\<close>

definition build_initial_page_plan ::
  "'h page_lib \<Rightarrow> InitialPageRegion list \<Rightarrow> nat \<Rightarrow> InitialPageRegion list option" where
  "build_initial_page_plan L source plan_capacity = plan_loop L source [] plan_capacity"

fun plan_valid :: "'h page_lib \<Rightarrow> InitialPageRegion option \<Rightarrow> InitialPageRegion list \<Rightarrow> bool" where
  "plan_valid L previous [] = True"
| "plan_valid L previous (r # rest) =
     (case NormalizeInitialPageRegion L r of
        None \<Rightarrow> False
      | Some normalized \<Rightarrow>
          if ir_begin normalized \<noteq> ir_begin r \<or> ir_end normalized \<noteq> ir_end r \<or>
             ir_type normalized \<noteq> ir_type r \<or> ir_permissions normalized \<noteq> ir_permissions r
          then False
          else
            case previous of
              None \<Rightarrow> plan_valid L (Some r) rest
            | Some p \<Rightarrow>
                if ir_end p > ir_begin r \<or>
                   (ir_end p = ir_begin r \<and> InitialPageRegionAttributesEqual p r)
                then False else plan_valid L (Some r) rest)"

primrec map_regions ::
  "'h page_lib \<Rightarrow> ptr \<Rightarrow> InitialPageRegion list \<Rightarrow> 'h memory \<Rightarrow> (bool \<times> 'h memory) option" where
  "map_regions L paging [] m = Some (True, m)"
| "map_regions L paging (r # rest) m =
     (case MapPages L paging (ir_begin r) (ir_begin r) (ir_end r - ir_begin r) (PAGESIZE_ANY L)
        (ir_permissions r OR ir_type r OR PGOPTS_omit_warnings L) m of
        None \<Rightarrow> None
      | Some (False, m) \<Rightarrow> Some (False, m)
      | Some (True, m) \<Rightarrow> map_regions L paging rest m)"

definition map_initial_page_regions ::
  "'h page_lib \<Rightarrow> ptr \<Rightarrow> InitialPageRegion list \<Rightarrow> 'h memory \<Rightarrow> (bool \<times> 'h memory) option" where
  "map_initial_page_regions L paging plan m =
     (if plan_valid L None plan then map_regions L paging plan m else Some (False, m))"

primrec map_high_aliases ::
  "'h page_lib \<Rightarrow> ptr \<Rightarrow> InitialPageRegion list \<Rightarrow> 'h memory \<Rightarrow> (bool \<times> 'h memory) option" where
  "map_high_aliases L paging [] m = Some (True, m)"
| "map_high_aliases L paging (r # rest) m =
     (if ir_begin r \<ge> high_mapping_limit L then map_high_aliases L paging rest m
      else
        let fin = min (ir_end r) (high_mapping_limit L) in
        case MapPages L paging (high_mapping_base + ir_begin r) (ir_begin r) (fin - ir_begin r)
          (PAGESIZE_ANY L) (ir_permissions r OR ir_type r OR PGOPTS_omit_warnings L) m of
          None \<Rightarrow> None
        | Some (False, m) \<Rightarrow> Some (False, m)
        | Some (True, m) \<Rightarrow> map_high_aliases L paging rest m)"

text \<open>\<open>has_root\<close> tells whether \<open>paging.root_level_page\<close> is set.\<close>

definition MapInitialPagePlan ::
  "'h page_lib \<Rightarrow> bool \<Rightarrow> ptr \<Rightarrow> InitialPageRegion list \<Rightarrow> 'h memory \<Rightarrow> (bool \<times> 'h memory) option" where
  "MapInitialPagePlan L has_root paging plan m =
     (if \<not> has_root then Some (False, m)
      else
        case map_initial_page_regions L paging plan m of
          None \<Rightarrow> None
        | Some (False, m) \<Rightarrow> Some (False, m)
        | Some (True, m) \<Rightarrow> map_high_aliases L paging plan m)"

section \<open>The plan of the UEFI build\<close>

datatype MemoryType =
  EfiReservedMemoryType | EfiLoaderCode | EfiLoaderData | EfiBootServicesCode | EfiBootServicesData |
  EfiRuntimeServicesCode | EfiRuntimeServicesData | EfiConventionalMemory | EfiUnusableMemory |
  EfiACPIReclaimMemory | EfiACPIMemoryNVS | EfiMemoryMappedIO | EfiMemoryMappedIOPortSpace |
  EfiPalCode | EfiPersistentMemory | EfiMaxMemoryType

text \<open>The enumeration as a list in order: the number of a type is its position.\<close>

definition MemoryTypes :: "MemoryType list" where
  "MemoryTypes =
     [EfiReservedMemoryType, EfiLoaderCode, EfiLoaderData, EfiBootServicesCode, EfiBootServicesData,
      EfiRuntimeServicesCode, EfiRuntimeServicesData, EfiConventionalMemory, EfiUnusableMemory,
      EfiACPIReclaimMemory, EfiACPIMemoryNVS, EfiMemoryMappedIO, EfiMemoryMappedIOPortSpace,
      EfiPalCode, EfiPersistentMemory, EfiMaxMemoryType]"

definition memory_type_of :: "uint32 \<Rightarrow> MemoryType option" where
  "memory_type_of n =
     (if unat n < length MemoryTypes then Some (MemoryTypes ! unat n) else None)"

record MemoryDescriptor =
  md_type :: uint32
  md_physical_start :: uint64
  md_virtual_start :: uint64
  md_number_of_pages :: uint64
  md_attribute :: uint64

definition MemoryDescriptor_size :: stduint where "MemoryDescriptor_size = 40"
definition InitialPageRegion_size :: stduint where "InitialPageRegion_size = 32"
definition UEFIPageSize :: stduint where "UEFIPageSize = 0x1000"

record MemoryMap =
  mm_buffer_size :: stduint
  mm_buffer :: stduint
  mm_map_size :: stduint
  mm_map_key :: stduint
  mm_descriptor_size :: stduint
  mm_descriptor_version :: uint32

record ConfigSpaceAccess =
  ecam_base :: uint64
  start_bus :: uint8
  end_bus :: uint8

record uefi_env =
  descriptor_at :: "stduint \<Rightarrow> MemoryDescriptor"
  GetConfigSpaceAccess :: "ConfigSpaceAccess option list"
  fb_frame_buffer :: uint64
  fb_pixels_per_scan_line :: uint32
  fb_vertical_resolution :: uint32

definition append_initial_page_source ::
  "nat \<Rightarrow> stduint \<Rightarrow> stduint \<Rightarrow> stduint \<Rightarrow> stduint \<Rightarrow> InitialPageRegion list \<Rightarrow>
   InitialPageRegion list option" where
  "append_initial_page_source capacity beg fin type permissions source =
     (if length source \<ge> capacity \<or> beg \<ge> fin then None
      else Some (source @ [\<lparr>ir_begin = beg, ir_end = fin, ir_type = type,
        ir_permissions = permissions\<rparr>]))"

definition descriptor_page_type :: "'h page_lib \<Rightarrow> uint32 \<Rightarrow> stduint option" where
  "descriptor_page_type L n =
     (case memory_type_of n of
        None \<Rightarrow> None
      | Some t \<Rightarrow>
          if t \<in> {EfiLoaderCode, EfiLoaderData, EfiBootServicesCode, EfiBootServicesData,
                  EfiConventionalMemory}
          then Some (PGTYPE_writeback L)
          else if t \<in> {EfiACPIReclaimMemory, EfiACPIMemoryNVS, EfiMemoryMappedIO,
                       EfiMemoryMappedIOPortSpace}
          then Some (PGTYPE_device L)
          else None)"

text \<open>
  The loop over the descriptors. \<open>map_size\<close> is a multiple of \<open>descriptor_size\<close> and the map does not
  wrap, so \<open>iter\<close> takes one value for each of the \<open>n\<close> descriptors.
\<close>

primrec descriptor_loop ::
  "'h page_lib \<Rightarrow> uefi_env \<Rightarrow> nat \<Rightarrow> stduint \<Rightarrow> stduint \<Rightarrow> nat \<Rightarrow> stduint \<Rightarrow> InitialPageRegion list \<Rightarrow>
   InitialPageRegion list option" where
  "descriptor_loop L E capacity permissions descriptor_size 0 iter source = Some source"
| "descriptor_loop L E capacity permissions descriptor_size (Suc n) iter source =
     (let desc = descriptor_at E iter;
          beg = md_physical_start desc;
          len = md_number_of_pages desc * UEFIPageSize
      in
      if md_number_of_pages desc > NOT 0 div UEFIPageSize \<or> len = 0 \<or> len > NOT 0 - beg
      then descriptor_loop L E capacity permissions descriptor_size n (iter + descriptor_size) source
      else
        case descriptor_page_type L (md_type desc) of
          None \<Rightarrow>
            descriptor_loop L E capacity permissions descriptor_size n (iter + descriptor_size) source
        | Some type \<Rightarrow> do {
            source \<leftarrow> append_initial_page_source capacity beg (beg + len) type permissions source;
            descriptor_loop L E capacity permissions descriptor_size n (iter + descriptor_size) source
          })"

primrec ecam_loop ::
  "'h page_lib \<Rightarrow> nat \<Rightarrow> stduint \<Rightarrow> ConfigSpaceAccess option list \<Rightarrow> InitialPageRegion list \<Rightarrow>
   InitialPageRegion list option" where
  "ecam_loop L capacity permissions [] source = Some source"
| "ecam_loop L capacity permissions (access # rest) source =
     (case access of
        None \<Rightarrow> ecam_loop L capacity permissions rest source
      | Some a \<Rightarrow>
          let ecam_begin = ecam_base a + push_bit 20 (ucast (start_bus a));
              ecam_end = ecam_base a + push_bit 20 (ucast (end_bus a) + 1)
          in
          if ecam_begin < ecam_base a \<or> ecam_end \<le> ecam_begin then None
          else do {
            source \<leftarrow> append_initial_page_source capacity ecam_begin ecam_end (PGTYPE_device L)
              permissions source;
            ecam_loop L capacity permissions rest source
          })"

definition framebuffer_source ::
  "'h page_lib \<Rightarrow> uefi_env \<Rightarrow> nat \<Rightarrow> stduint \<Rightarrow> InitialPageRegion list \<Rightarrow> InitialPageRegion list option"
where
  "framebuffer_source L E capacity permissions source =
     (let beg = fb_frame_buffer E;
          pitch = ucast (fb_pixels_per_scan_line E) * 4;
          height = ucast (fb_vertical_resolution E)
      in
      if beg = 0 \<or> pitch = 0 \<or> height = 0 \<or> pitch > NOT 0 div height then None
      else
        let len = pitch * height in
        if len > NOT 0 - beg then None
        else
          let end_raw = beg + len in
          if end_raw > NOT 0 - (PAGE_SIZE - 1) \<or> beg AND (PAGE_SIZE - 1) \<noteq> 0 then None
          else
            let fin = (end_raw + PAGE_SIZE - 1) AND NOT (PAGE_SIZE - 1);
                type = (if framebuffer_range_supports_wc L beg fin then PGTYPE_writecombine L
                        else PGTYPE_device L)
            in append_initial_page_source capacity beg fin type permissions source)"

text \<open>Everything between the two allocations and their release; \<open>None\<close> is the lambda \<open>fail\<close>.\<close>

definition uefi_plan ::
  "'h page_lib \<Rightarrow> uefi_env \<Rightarrow> MemoryMap \<Rightarrow> nat \<Rightarrow> InitialPageRegion list option" where
  "uefi_plan L E memory_map source_capacity =
     (let permissions = PGPROP_present L OR PGPROP_writable L;
          map_begin = mm_buffer memory_map
      in
      if mm_map_size memory_map > NOT 0 - map_begin then None
      else do {
        source \<leftarrow> descriptor_loop L E source_capacity permissions (mm_descriptor_size memory_map)
          (unat (mm_map_size memory_map div mm_descriptor_size memory_map)) map_begin [];
        source \<leftarrow> append_initial_page_source source_capacity 0xFEC00000 0xFEC01000
          (PGTYPE_device L) permissions source;
        source \<leftarrow> append_initial_page_source source_capacity 0xFEE00000 0xFEE01000
          (PGTYPE_device L) permissions source;
        source \<leftarrow> ecam_loop L source_capacity permissions (GetConfigSpaceAccess E) source;
        source \<leftarrow> framebuffer_source L E source_capacity permissions source;
        build_initial_page_plan L source (source_capacity * 2)
      })"

text \<open>The result is the address of the plan, the plan and the size of its storage.\<close>

definition build_uefi_initial_page_plan ::
  "'h page_lib \<Rightarrow> uefi_env \<Rightarrow> MemoryMap \<Rightarrow> 'h memory \<Rightarrow>
   (uint64 \<times> InitialPageRegion list \<times> stduint) option \<times> 'h memory" where
  "build_uefi_initial_page_plan L E memory_map m =
     (if mm_buffer memory_map = 0 \<or> mm_descriptor_size memory_map < MemoryDescriptor_size \<or>
         mm_map_size memory_map = 0 \<or> mm_map_size memory_map mod mm_descriptor_size memory_map \<noteq> 0
      then (None, m)
      else
        let descriptor_count = mm_map_size memory_map div mm_descriptor_size memory_map;
            ecam_count = of_nat (length (GetConfigSpaceAccess E))
        in
        if ecam_count > NOT 0 - 3 \<or> descriptor_count > NOT 0 - 3 - ecam_count \<or>
           descriptor_count + 3 + ecam_count > NOT 0 div 2
        then (None, m)
        else
          let source_capacity = descriptor_count + 3 + ecam_count;
              plan_capacity = source_capacity * 2
          in
          if source_capacity > NOT 0 div InitialPageRegion_size \<or>
             plan_capacity > NOT 0 div InitialPageRegion_size
          then (None, m)
          else
            let (source, m) = mempool_allocate m;
                (plan, m) = mempool_allocate m;
                valid = (\<lambda>a. a \<noteq> 0 \<and> a \<noteq> NOT 0)
            in
            if \<not> valid source \<or> \<not> valid plan then
              let m = (if valid source then mempool_deallocate source m else m);
                  m = (if valid plan then mempool_deallocate plan m else m)
              in (None, m)
            else
              case uefi_plan L E memory_map (unat source_capacity) of
                None \<Rightarrow> (None, mempool_deallocate plan (mempool_deallocate source m))
              | Some regions \<Rightarrow>
                  (Some (plan, regions, plan_capacity * InitialPageRegion_size),
                   mempool_deallocate source m))"

text \<open>\<open>'UEFI'\<close> is the multi-character constant; \<open>boot_info\<close> is \<open>None\<close> for a null pointer.\<close>

definition boot_magic_UEFI :: stduint where
  "boot_magic_UEFI = 0x55454649"

definition BuildInitialPagePlan ::
  "'h page_lib \<Rightarrow> uefi_env \<Rightarrow> stduint \<Rightarrow> MemoryMap option \<Rightarrow> 'h memory \<Rightarrow>
   (uint64 \<times> InitialPageRegion list \<times> stduint) option \<times> 'h memory" where
  "BuildInitialPagePlan L E boot_magic boot_info m =
     (case boot_info of
        None \<Rightarrow> (None, m)
      | Some memory_map \<Rightarrow>
          if boot_magic \<noteq> boot_magic_UEFI then (None, m)
          else build_uefi_initial_page_plan L E memory_map m)"

end
