(* ===== verification/Address_Map.thy ===== *)
theory Address_Map
  imports Prelude
begin

text \<open>
  The interface that the mapping registry and the plan of initial mappings share: a map from keys
  that a request overrides on the keys it covers, or refuses. What a sequence of requests leaves is
  proved once, here: the last request that covers a key decides its value.
\<close>

section \<open>Sequences of requests\<close>

primrec foldo :: "('r \<Rightarrow> 'm \<Rightarrow> 'm option) \<Rightarrow> 'r list \<Rightarrow> 'm \<Rightarrow> 'm option" where
  "foldo f [] m = Some m"
| "foldo f (r # rs) m = do { m \<leftarrow> f r m; foldo f rs m }"

text \<open>The last element of a list that satisfies a predicate.\<close>

definition find_last :: "('r \<Rightarrow> bool) \<Rightarrow> 'r list \<Rightarrow> 'r option" where
  "find_last P rs = List.find P (rev rs)"

lemma find_last_simps [simp]:
  "find_last P [] = None"
  "find_last P (r # rs) = (case find_last P rs of None \<Rightarrow> if P r then Some r else None | Some q \<Rightarrow> Some q)"
  by (auto simp: find_last_def find_append split: option.splits)

section \<open>The interface\<close>

locale address_map =
  fixes ok :: "'m \<Rightarrow> bool"
    and look :: "'m \<Rightarrow> 'k \<Rightarrow> 'v option"
    and good :: "'r \<Rightarrow> bool"
    and put :: "'r \<Rightarrow> 'm \<Rightarrow> 'm option"
    and covers :: "'r \<Rightarrow> 'k \<Rightarrow> bool"
    and val :: "'r \<Rightarrow> 'k \<Rightarrow> 'v"
  assumes put_ok: "ok m \<Longrightarrow> good r \<Longrightarrow> put r m = Some m' \<Longrightarrow> ok m'"
    and look_put: "ok m \<Longrightarrow> good r \<Longrightarrow> put r m = Some m' \<Longrightarrow>
      look m' k = (if covers r k then Some (val r k) else look m k)"
begin

lemma fold_ok:
  "ok m \<Longrightarrow> \<forall>r \<in> set rs. good r \<Longrightarrow> foldo put rs m = Some m' \<Longrightarrow> ok m'"
  by (induction rs arbitrary: m) (auto intro: put_ok)

lemma look_fold:
  assumes "ok m" "\<forall>r \<in> set rs. good r" "foldo put rs m = Some m'"
  shows "look m' k = (case find_last (\<lambda>r. covers r k) rs of
    None \<Rightarrow> look m k | Some r \<Rightarrow> Some (val r k))"
  using assms
proof (induction rs arbitrary: m)
  case (Cons r rs)
  then obtain m1 where m1: "put r m = Some m1" "foldo put rs m1 = Some m'" by auto
  then have "ok m1" "look m1 k = (if covers r k then Some (val r k) else look m k)"
    using Cons.prems put_ok look_put by auto
  then show ?case using Cons.IH [OF _ _ m1(2)] Cons.prems by (simp split: option.splits)
qed simp

text \<open>Requests that do not cover a key leave it alone.\<close>

lemma look_fold_outside:
  assumes "ok m" "\<forall>r \<in> set rs. good r \<and> \<not> covers r k" "foldo put rs m = Some m'"
  shows "look m' k = look m k"
proof -
  have "find_last (\<lambda>r. covers r k) rs = None" using assms(2) by (auto simp: find_last_def find_eq_None)
  then show ?thesis using look_fold [OF assms(1) _ assms(3)] assms(2) by simp
qed

end

end
