(* ===== verification/Plan_Props.thy ===== *)
theory Plan_Props
  imports Page_Plan Address_Map
begin

text \<open>
  Lemmas on plans of initial mappings: a plan as a map from addresses to attributes, the overlay as
  an override of that map, the order and the merging of regions, and the room an overlay needs.
\<close>

declare overlay_cut.simps [simp del]

section \<open>Plans as maps\<close>

definition region_has :: "InitialPageRegion \<Rightarrow> stduint \<Rightarrow> bool" where
  "region_has r x \<longleftrightarrow> ir_begin r \<le> x \<and> x < ir_end r"

definition region_attrs :: "InitialPageRegion \<Rightarrow> stduint \<times> stduint" where
  "region_attrs r = (ir_type r, ir_permissions r)"

fun plan_at :: "InitialPageRegion list \<Rightarrow> stduint \<Rightarrow> (stduint \<times> stduint) option" where
  "plan_at [] x = None"
| "plan_at (r # rest) x = (if region_has r x then Some (region_attrs r) else plan_at rest x)"

abbreviation before :: "InitialPageRegion \<Rightarrow> InitialPageRegion \<Rightarrow> bool" where
  "before a b \<equiv> ir_end a \<le> ir_begin b"

definition mergeable :: "InitialPageRegion \<Rightarrow> InitialPageRegion \<Rightarrow> bool" where
  "mergeable a b \<longleftrightarrow> ir_end a = ir_begin b \<and> InitialPageRegionAttributesEqual a b"

definition plan_sorted :: "InitialPageRegion list \<Rightarrow> bool" where
  "plan_sorted plan \<longleftrightarrow> (\<forall>r \<in> set plan. ir_begin r < ir_end r) \<and> sorted_wrt before plan"

definition plan_ok :: "InitialPageRegion list \<Rightarrow> bool" where
  "plan_ok plan \<longleftrightarrow> plan_sorted plan \<and> successively (\<lambda>a b. \<not> mergeable a b) plan"

lemma plan_sorted_simps [simp]:
  "plan_sorted []"
  "plan_sorted (r # plan) \<longleftrightarrow>
     ir_begin r < ir_end r \<and> (\<forall>q \<in> set plan. before r q) \<and> plan_sorted plan"
  by (auto simp: plan_sorted_def)

lemma plan_sorted_append:
  "plan_sorted (xs @ ys) \<longleftrightarrow> plan_sorted xs \<and> plan_sorted ys \<and> (\<forall>a \<in> set xs. \<forall>b \<in> set ys. before a b)"
  by (auto simp: plan_sorted_def sorted_wrt_append)

lemma plan_at_append:
  "plan_at (xs @ ys) x = (case plan_at xs x of None \<Rightarrow> plan_at ys x | Some v \<Rightarrow> Some v)"
  by (induction xs) auto

lemma plan_at_None: "plan_at xs x = None \<longleftrightarrow> (\<forall>r \<in> set xs. \<not> region_has r x)"
  by (induction xs) auto

section \<open>Cutting out the added range\<close>

definition pieces :: "InitialPageRegion \<Rightarrow> InitialPageRegion \<Rightarrow> InitialPageRegion list" where
  "pieces added existing =
     (if region_apart existing added then [existing]
      else (if ir_begin existing < ir_begin added then [existing\<lparr>ir_end := ir_begin added\<rparr>] else []) @
           (if ir_end added < ir_end existing then [existing\<lparr>ir_begin := ir_end added\<rparr>] else []))"

definition cut_out :: "InitialPageRegion \<Rightarrow> InitialPageRegion list \<Rightarrow> InitialPageRegion list" where
  "cut_out added plan = concat (map (pieces added) plan)"

lemma cut_out_simps [simp]:
  "cut_out added [] = []" "cut_out added (r # plan) = pieces added r @ cut_out added plan"
  by (simp_all add: cut_out_def)

lemma overlay_cut_eq:
  "index \<le> length plan \<Longrightarrow> overlay_cut added index plan = take index plan @ cut_out added (drop index plan)"
proof (induction added index plan rule: overlay_cut.induct)
  case (1 added index plan)
  show ?case
  proof (cases "index = length plan")
    case True
    then show ?thesis by (subst overlay_cut.simps) simp
  next
    case False
    then have lt: "index < length plan" using 1 by simp
    then have d: "drop index plan = plan ! index # drop (Suc index) plan" by (rule Cons_nth_drop_Suc [symmetric])
    have t: "take (Suc index) plan = take index plan @ [plan ! index]" using lt by (rule take_Suc_conv_app_nth)
    let ?e = "plan ! index"
    note step = overlay_cut.simps [of added index plan]
    consider (apart) "region_apart ?e added"
      | (both) "\<not> region_apart ?e added" "ir_begin ?e < ir_begin added" "ir_end added < ir_end ?e"
      | (left) "\<not> region_apart ?e added" "ir_begin ?e < ir_begin added" "\<not> ir_end added < ir_end ?e"
      | (right) "\<not> region_apart ?e added" "\<not> ir_begin ?e < ir_begin added" "ir_end added < ir_end ?e"
      | (neither) "\<not> region_apart ?e added" "\<not> ir_begin ?e < ir_begin added" "\<not> ir_end added < ir_end ?e"
      by blast
    then show ?thesis
    proof cases
      case apart
      then show ?thesis using 1(1) lt by (simp add: step pieces_def d t)
    next
      case both
      then show ?thesis using 1(2) lt by (simp add: step pieces_def d Let_def)
    next
      case left
      then show ?thesis using 1(3) lt by (simp add: step pieces_def d t Let_def take_update_swap list_update_append)
    next
      case right
      then show ?thesis using 1(4) lt by (simp add: step pieces_def d t Let_def take_update_swap list_update_append)
    next
      case neither
      then show ?thesis using 1(5) lt by (simp add: step pieces_def d Let_def)
    qed
  qed
qed

lemma overlay_required_eq: "overlay_required added plan n = n + length (cut_out added plan)"
  by (induction plan arbitrary: n) (auto simp: pieces_def)

lemma pieces_within:
  assumes "ir_begin added < ir_end added" "ir_begin r < ir_end r" "q \<in> set (pieces added r)"
  shows "ir_begin r \<le> ir_begin q" "ir_begin q < ir_end q" "ir_end q \<le> ir_end r"
    "region_apart q added" "region_attrs q = region_attrs r"
  using assms
  by (auto simp: pieces_def region_apart_def region_attrs_def not_le split: if_splits)

lemma plan_at_pieces:
  assumes "ir_begin added < ir_end added" "ir_begin r < ir_end r"
  shows "plan_at (pieces added r) x =
    (if region_has r x \<and> \<not> region_has added x then Some (region_attrs r) else None)"
proof (cases "region_apart r added")
  case True
  then have "\<not> (region_has r x \<and> region_has added x)"
    by (auto simp: region_apart_def region_has_def not_less dest: le_less_trans less_le_trans)
  then show ?thesis using True by (auto simp: pieces_def)
next
  case False
  then have ov: "ir_begin added < ir_end r" "ir_begin r < ir_end added" by (auto simp: region_apart_def not_le)
  have "region_has r x \<and> \<not> region_has added x \<longleftrightarrow>
      ir_begin r \<le> x \<and> x < ir_begin added \<or> ir_end added \<le> x \<and> x < ir_end r"
    using ov by (auto simp: region_has_def not_le not_less dest: less_trans less_imp_le order_trans)
  then show ?thesis using False assms
    by (auto simp: pieces_def region_has_def region_attrs_def not_less dest: le_less_trans less_le_trans)
qed

lemma plan_at_cut:
  assumes "ir_begin added < ir_end added" "\<forall>r \<in> set plan. ir_begin r < ir_end r"
  shows "plan_at (cut_out added plan) x = (if region_has added x then None else plan_at plan x)"
  using assms by (induction plan) (auto simp: plan_at_append plan_at_pieces)

lemma cut_apart:
  assumes "ir_begin added < ir_end added" "plan_sorted plan" "q \<in> set (cut_out added plan)"
  shows "region_apart q added" "\<exists>r \<in> set plan. ir_begin r \<le> ir_begin q \<and> ir_end q \<le> ir_end r \<and>
    region_attrs q = region_attrs r"
  using assms pieces_within [OF assms(1)] unfolding cut_out_def plan_sorted_def by (auto, blast+)

lemma pieces_sorted:
  assumes "ir_begin added < ir_end added" "ir_begin r < ir_end r"
  shows "plan_sorted (pieces added r)"
  using assms by (auto simp: pieces_def region_apart_def not_le)

lemma cut_sorted:
  assumes "ir_begin added < ir_end added" "plan_sorted plan"
  shows "plan_sorted (cut_out added plan)"
  using assms(2)
proof (induction plan)
  case (Cons r plan)
  have "before a b" if ab: "a \<in> set (pieces added r)" "b \<in> set (cut_out added plan)" for a b
  proof -
    have "ir_end a \<le> ir_end r" using pieces_within [OF assms(1)] Cons.prems ab(1) by auto
    moreover obtain q where "q \<in> set plan" "ir_begin q \<le> ir_begin b"
      using cut_apart(2) [OF assms(1) _ ab(2)] Cons.prems by auto
    ultimately show ?thesis using Cons.prems by (auto intro: order_trans)
  qed
  then show ?case using Cons pieces_sorted [OF assms(1)] by (auto simp: plan_sorted_append)
qed simp

section \<open>Inserting the added region\<close>

lemma insert_position_eq:
  "overlay_insert added plan = takeWhile (\<lambda>r. ir_begin r < ir_begin added) plan @
     added # dropWhile (\<lambda>r. ir_begin r < ir_begin added) plan"
proof -
  have "insert_position added plan = length (takeWhile (\<lambda>r. ir_begin r < ir_begin added) plan)"
    by (induction plan) auto
  then show ?thesis
    by (simp add: overlay_insert_def takeWhile_eq_take [symmetric] dropWhile_eq_drop [symmetric] Let_def)
qed

lemma dropWhile_sorted:
  assumes "plan_sorted plan" "q \<in> set (dropWhile (\<lambda>r. ir_begin r < k) plan)"
  shows "k \<le> ir_begin q"
  using assms
proof (induction plan)
  case (Cons r plan)
  show ?case
  proof (cases "ir_begin r < k")
    case False
    then have "q \<in> set (r # plan)" using Cons.prems by simp
    moreover have "k \<le> ir_begin r" using False by (simp add: not_less)
    moreover have "ir_begin r \<le> ir_begin b" if "b \<in> set plan" for b
      using Cons.prems(1) that by (auto intro: order_trans less_imp_le)
    ultimately show ?thesis by (auto intro: order_trans)
  qed (use Cons in simp)
qed simp

lemma insert_sorted:
  assumes "ir_begin added < ir_end added" "plan_sorted plan" "\<forall>q \<in> set plan. region_apart q added"
  shows "plan_sorted (overlay_insert added plan)"
proof -
  let ?P = "\<lambda>r. ir_begin r < ir_begin added"
  let ?t = "takeWhile ?P plan" and ?d = "dropWhile ?P plan"
  have split: "plan_sorted ?t" "plan_sorted ?d" "\<forall>a \<in> set ?t. \<forall>b \<in> set ?d. before a b"
    using assms(2) plan_sorted_append [of ?t ?d] by auto
  have t: "before a added" if "a \<in> set ?t" for a
  proof -
    have "?P a" "region_apart a added" using that assms(3) by (auto dest: set_takeWhileD)
    then show ?thesis using assms(1) by (auto simp: region_apart_def dest: less_le_trans less_trans)
  qed
  have d: "before added b" if "b \<in> set ?d" for b
  proof -
    have "region_apart b added" "ir_begin b < ir_end b" "ir_begin added \<le> ir_begin b"
      using that assms(2,3) dropWhile_sorted [OF assms(2) that]
      by (auto simp: plan_sorted_def dest: set_dropWhileD)
    then show ?thesis by (auto simp: region_apart_def dest: less_le_trans)
  qed
  show ?thesis unfolding insert_position_eq using assms(1) split t d by (auto simp: plan_sorted_append)
qed

lemma plan_at_insert:
  assumes "\<forall>q \<in> set plan. region_apart q added"
  shows "plan_at (overlay_insert added plan) x =
    (if region_has added x then Some (region_attrs added) else plan_at plan x)"
proof -
  let ?t = "takeWhile (\<lambda>r. ir_begin r < ir_begin added) plan"
  have "plan_at ?t x = None" if "region_has added x"
    using that assms unfolding plan_at_None
    by (auto simp: region_apart_def region_has_def not_less dest!: set_takeWhileD dest: le_less_trans less_le_trans)
  moreover have "plan_at plan x = plan_at (?t @ dropWhile (\<lambda>r. ir_begin r < ir_begin added) plan) x" by simp
  ultimately show ?thesis unfolding insert_position_eq plan_at_append by (auto split: option.splits)
qed

section \<open>Merging\<close>

lemma mergeable_end [simp]: "mergeable a (b\<lparr>ir_end := e\<rparr>) = mergeable a b"
  by (simp add: mergeable_def InitialPageRegionAttributesEqual_def)

lemma merge_region:
  assumes "mergeable l r" "ir_begin l < ir_end l" "ir_begin r < ir_end r"
  shows "region_has (l\<lparr>ir_end := ir_end r\<rparr>) x \<longleftrightarrow> region_has l x \<or> region_has r x"
    "region_attrs (l\<lparr>ir_end := ir_end r\<rparr>) = region_attrs l" "region_attrs r = region_attrs l"
  using assms
  by (auto simp: mergeable_def region_has_def region_attrs_def InitialPageRegionAttributesEqual_def
    not_le not_less dest: less_le_trans less_trans le_less_trans less_imp_le)

lemma merge_step:
  assumes "mergeable l r" "plan_sorted (init @ l # r # rest)" "successively (\<lambda>a b. \<not> mergeable a b) (init @ [l])"
  defines "l' \<equiv> l\<lparr>ir_end := ir_end r\<rparr>"
  shows "plan_sorted (init @ l' # rest)" "successively (\<lambda>a b. \<not> mergeable a b) (init @ [l'])"
    "plan_at (init @ l' # rest) x = plan_at (init @ l # r # rest) x"
proof -
  have l: "ir_begin l < ir_end l" "ir_begin r < ir_end r" "ir_end l = ir_begin r"
    using assms(1,2) by (auto simp: plan_sorted_append mergeable_def)
  then show "plan_sorted (init @ l' # rest)" using assms(2) unfolding l'_def
    by (auto simp: plan_sorted_append dest: less_trans)
  show "successively (\<lambda>a b. \<not> mergeable a b) (init @ [l'])"
    using assms(3) unfolding l'_def by (simp add: successively_append_iff)
  show "plan_at (init @ l' # rest) x = plan_at (init @ l # r # rest) x"
    unfolding l'_def plan_at_append using merge_region [OF assms(1) l(1,2)] by (simp split: option.splits)
qed

lemma merge_spec:
  assumes "plan_sorted (outs @ ins)" "successively (\<lambda>a b. \<not> mergeable a b) outs"
  shows "plan_ok (overlay_merge outs ins) \<and>
    plan_at (overlay_merge outs ins) x = plan_at (outs @ ins) x \<and>
    length (overlay_merge outs ins) \<le> length outs + length ins"
  using assms
proof (induction outs ins rule: overlay_merge.induct)
  case (2 outs r rest)
  show ?case
  proof (cases "outs \<noteq> [] \<and> mergeable (last outs) r")
    case True
    then obtain init l where o: "outs = init @ [l]" by (metis rev_exhaust)
    then have m: "mergeable l r" using True by simp
    note step = merge_step [OF m, of init rest]
    have "overlay_merge outs (r # rest) = overlay_merge (init @ [l\<lparr>ir_end := ir_end r\<rparr>]) rest"
      using True o by (simp add: mergeable_def)
    then show ?thesis using 2(1) 2(3,4) True step o by (simp add: mergeable_def)
  next
    case False
    then have "overlay_merge outs (r # rest) = overlay_merge (outs @ [r]) rest"
      by (auto simp: mergeable_def)
    moreover have "successively (\<lambda>a b. \<not> mergeable a b) (outs @ [r])"
      using 2(4) False by (auto simp: successively_append_iff)
    ultimately show ?thesis using 2(2) 2(3) False by (simp add: mergeable_def)
  qed
qed (simp add: plan_ok_def)

text \<open>Every property of regions that merging two regions keeps holds of the merged plan.\<close>

lemma merge_regions:
  assumes "\<forall>r \<in> set (outs @ ins). P r"
    and "\<And>l r. P l \<Longrightarrow> P r \<Longrightarrow> mergeable l r \<Longrightarrow> P (l\<lparr>ir_end := ir_end r\<rparr>)"
  shows "\<forall>r \<in> set (overlay_merge outs ins). P r"
  using assms(1)
proof (induction outs ins rule: overlay_merge.induct)
  case (2 outs r rest)
  show ?case
  proof (cases "outs \<noteq> [] \<and> mergeable (last outs) r")
    case True
    then have "P ((last outs)\<lparr>ir_end := ir_end r\<rparr>)" using assms(2) 2(3) by simp
    moreover have "\<forall>q \<in> set (butlast outs). P q" using 2(3) by (auto dest: in_set_butlastD)
    ultimately show ?thesis using 2(1) 2(3) True by (simp add: mergeable_def ball_Un)
  next
    case False
    then show ?thesis using 2(2) 2(3) by (auto simp: mergeable_def)
  qed
qed simp

section \<open>The overlay\<close>

lemma overlay_eq:
  "OverlayInitialPageRegion plan cap added =
     (if Suc (length (cut_out added plan)) > cap then None
      else Some (overlay_merge [] (overlay_insert added (cut_out added plan))))"
  by (simp add: OverlayInitialPageRegion_def overlay_required_eq overlay_cut_eq)

lemma overlay_sorted:
  assumes "plan_ok plan" "ir_begin added < ir_end added"
  shows "plan_sorted (overlay_insert added (cut_out added plan))"
  using assms cut_sorted [OF assms(2)] cut_apart(1) [OF assms(2)] unfolding plan_ok_def
  by (intro insert_sorted) auto

lemma overlay_spec:
  assumes "plan_ok plan" "ir_begin added < ir_end added" "OverlayInitialPageRegion plan cap added = Some plan'"
  shows "plan_ok plan'" "plan_at plan' x =
      (if region_has added x then Some (region_attrs added) else plan_at plan x)"
    "length plan' \<le> Suc (length (cut_out added plan))"
proof -
  let ?c = "cut_out added plan"
  have p: "plan' = overlay_merge [] (overlay_insert added ?c)" using assms(3) by (simp add: overlay_eq split: if_splits)
  note m = merge_spec [of "[]" "overlay_insert added ?c", simplified, OF overlay_sorted [OF assms(1,2)]]
  have ps: "plan_sorted plan" using assms(1) by (simp add: plan_ok_def)
  show "plan_ok plan'" using m p by simp
  show "plan_at plan' x = (if region_has added x then Some (region_attrs added) else plan_at plan x)"
    using m p plan_at_insert [of ?c added x] cut_apart(1) [OF assms(2) ps] plan_at_cut [OF assms(2), of plan x] ps
    by (simp add: plan_sorted_def)
  have "length (overlay_insert added ?c) = Suc (length ?c)"
    by (simp add: overlay_insert_def Let_def min_def)
  then show "length plan' \<le> Suc (length ?c)" using m p by simp
qed

section \<open>Room for the plan\<close>

lemma cut_of_later:
  assumes "\<forall>q \<in> set plan. ir_end added \<le> ir_begin q"
  shows "length (cut_out added plan) = length plan"
  using assms by (induction plan) (auto simp: pieces_def region_apart_def)

text \<open>At most one region of an ordered plan is split in two.\<close>

lemma cut_length:
  assumes "plan_sorted plan"
  shows "length (cut_out added plan) \<le> Suc (length plan)"
  using assms
proof (induction plan)
  case (Cons r plan)
  show ?case
  proof (cases "length (pieces added r) \<le> 1")
    case True
    then show ?thesis using Cons by simp
  next
    case False
    then have "ir_end added < ir_end r" by (auto simp: pieces_def split: if_splits)
    then have "\<forall>q \<in> set plan. before added q" using Cons.prems by (auto intro: order_trans less_imp_le)
    moreover have "length (pieces added r) \<le> 2" by (simp add: pieces_def)
    ultimately show ?thesis using cut_of_later [of plan added] by simp
  qed
qed simp

lemma overlay_room:
  assumes "plan_ok plan" "length plan + 2 \<le> cap"
  shows "\<exists>plan'. OverlayInitialPageRegion plan cap added = Some plan'"
  using assms cut_length [of plan added] by (simp add: overlay_eq plan_ok_def)

lemma overlay_length:
  assumes "plan_ok plan" "ir_begin added < ir_end added" "OverlayInitialPageRegion plan cap added = Some plan'"
  shows "length plan' \<le> length plan + 2" "length plan' \<le> cap"
  using overlay_spec(3) [OF assms] cut_length [of plan added] assms(1,3)
  by (auto simp: plan_ok_def overlay_eq split: if_splits)

section \<open>Normal regions\<close>

lemma Normalize_region:
  assumes "NormalizeInitialPageRegion L r = Some q"
  shows "ir_begin q = ir_begin r" "ir_end q = ir_end r" "ir_type q = ir_type r" "ir_begin q < ir_end q"
  using assms by (auto simp: NormalizeInitialPageRegion_def Let_def split: option.splits if_splits)

definition normal_region :: "'h page_lib \<Rightarrow> InitialPageRegion \<Rightarrow> bool" where
  "normal_region L r \<longleftrightarrow> NormalizeInitialPageRegion L r = Some r"

text \<open>
  What \<open>map_initial_page_regions\<close> relies on in the library: a property word that
  \<open>NormalizePageProperties\<close> returns is its own normal form and has no bits but a memory type and the
  five access permissions.
\<close>

definition access_mask :: "'h page_lib \<Rightarrow> stduint" where
  "access_mask L = PGPROP_present L OR PGPROP_writable L OR PGPROP_user_access L OR PGPROP_global L OR
     PGPROP_nonexecutable L"

definition normalize_stable :: "'h page_lib \<Rightarrow> bool" where
  "normalize_stable L \<longleftrightarrow> (\<forall>p q. NormalizePageProperties L p = Some q \<longrightarrow>
     NormalizePageProperties L q = Some q \<and>
     (q AND NOT (PGPROP_MASK_TYPE L)) AND NOT (access_mask L) = 0)"

lemma type_split: "(p AND NOT m) OR (p AND m) = (p :: stduint)"
  by (simp add: bit_eq_iff bit_simps) blast

lemma normal_of_normalized:
  assumes "normalize_stable L" "NormalizeInitialPageRegion L r = Some q"
  shows "normal_region L q"
proof -
  obtain properties where p: "NormalizePageProperties L (ir_permissions r OR ir_type r) = Some properties"
    "q = r\<lparr>ir_permissions := properties AND NOT (PGPROP_MASK_TYPE L)\<rparr>"
    "properties AND PGPROP_MASK_TYPE L = ir_type r"
    using assms(2) by (auto simp: NormalizeInitialPageRegion_def Let_def split: option.splits if_splits)
  have "ir_permissions q OR ir_type q = properties" using p(2) type_split [of properties] by (simp flip: p(3))
  moreover have "NormalizePageProperties L properties = Some properties"
    "ir_permissions q AND NOT (access_mask L) = 0"
    using assms(1) p(1,2) by (auto simp: normalize_stable_def)
  ultimately show ?thesis using assms(2) p unfolding normal_region_def NormalizeInitialPageRegion_def
    by (auto simp: Let_def access_mask_def split: option.splits if_splits)
qed

text \<open>A region keeps its normal form when its bounds become other page-aligned bounds.\<close>

definition aligned_4k :: "'h page_lib \<Rightarrow> stduint \<Rightarrow> bool" where
  "aligned_4k L a \<longleftrightarrow> a AND (push_bit (unat (PAGESIZE_4KB L)) 1 - 1) = 0"

lemma normal_bounds:
  "normal_region L r \<Longrightarrow> ir_begin r < ir_end r \<and> aligned_4k L (ir_begin r) \<and> aligned_4k L (ir_end r)"
  unfolding normal_region_def NormalizeInitialPageRegion_def aligned_4k_def
  by (auto simp: Let_def split: option.splits if_splits)

lemma same_permissions: "(r\<lparr>ir_permissions := v\<rparr> = r) = (v = ir_permissions r)"
  by (cases r) auto

lemma normal_cut:
  assumes "normal_region L r" "ir_begin r' < ir_end r'" "aligned_4k L (ir_begin r')" "aligned_4k L (ir_end r')"
    "region_attrs r' = region_attrs r"
  shows "normal_region L r'"
  using assms unfolding normal_region_def NormalizeInitialPageRegion_def aligned_4k_def region_attrs_def
  by (auto simp: Let_def same_permissions split: option.splits if_splits)

lemma overlay_normal:
  assumes "plan_ok plan" "\<forall>r \<in> set plan. normal_region L r" "normal_region L added"
    "OverlayInitialPageRegion plan cap added = Some plan'"
  shows "\<forall>r \<in> set plan'. normal_region L r"
proof -
  note b = normal_bounds [OF assms(3)]
  have ps: "plan_sorted plan" using assms(1) by (simp add: plan_ok_def)
  have piece: "normal_region L q" if q: "q \<in> set (pieces added r)" "normal_region L r" for q r
  proof -
    note r = normal_bounds [OF q(2)]
    note w = pieces_within [OF _ _ q(1)]
    have "aligned_4k L (ir_begin q)" "aligned_4k L (ir_end q)"
      using q(1) r b by (auto simp: pieces_def split: if_splits)
    then show ?thesis using w(2,5) r b by (intro normal_cut [OF q(2)]) auto
  qed
  have "normal_region L q" if "q \<in> set (cut_out added plan)" for q
    using that piece assms(2) unfolding cut_out_def by auto
  then have "normal_region L q" if "q \<in> set (overlay_insert added (cut_out added plan))" for q
    using that assms(3) by (auto simp: insert_position_eq dest!: set_takeWhileD set_dropWhileD)
  moreover have "normal_region L (l\<lparr>ir_end := ir_end r\<rparr>)"
    if "normal_region L l" "normal_region L r" "mergeable l r" for l r
    using normal_bounds [OF that(1)] normal_bounds [OF that(2)] that(3)
    by (intro normal_cut [OF that(1)]) (auto simp: mergeable_def region_attrs_def)
  ultimately have "\<forall>r \<in> set (overlay_merge [] (overlay_insert added (cut_out added plan))). normal_region L r"
    by (intro merge_regions) auto
  then show ?thesis using assms(4) by (simp add: overlay_eq split: if_splits)
qed

section \<open>The plan as an address map\<close>

interpretation plan_map: address_map plan_ok plan_at "\<lambda>r. ir_begin r < ir_end r"
  "\<lambda>r plan. OverlayInitialPageRegion plan cap r" region_has "\<lambda>r x. region_attrs r"
  for cap
  by unfold_locales (auto simp: overlay_spec)

end
