(* ===== verification/Registry_Props.thy ===== *)
theory Registry_Props
  imports Page_Registry "HOL-Library.Multiset"
begin

text \<open>
  Lemmas on the mapping registry: the addresses of a range, what a record maps, the registry as a
  map from an address space and a virtual address to a physical address with its attributes, and the
  effect of the two-phase updates on that map, on the nodes of the chain and on the invariant.
\<close>

section \<open>Ranges without wrap-around\<close>

definition addrs :: "PhysicalRange \<Rightarrow> stduint set" where
  "addrs r = {x. pr_begin r \<le> x \<and> x < pr_end r}"

lemma mem_addrs [simp]: "x \<in> addrs r \<longleftrightarrow> pr_begin r \<le> x \<and> x < pr_end r"
  by (simp add: addrs_def)

lemma no_overflow_iff: "(len :: stduint) \<le> - 1 - beg \<longleftrightarrow> beg \<le> beg + len"
proof -
  have "unat (- 1 :: stduint) = 2 ^ 64 - 1"
    by (simp add: unsigned_minus_1_eq_mask mask_eq_exp_minus_1)
  moreover have "unat (- 1 - beg) = unat (- 1 :: stduint) - unat beg" by (rule unat_sub) simp
  ultimately have A: "len \<le> - 1 - beg \<longleftrightarrow> unat len \<le> 2 ^ 64 - 1 - unat beg"
    unfolding word_le_nat_alt by (simp only:)
  have B: "beg \<le> beg + len \<longleftrightarrow> unat beg + unat len < 2 ^ 64"
    using no_olen_add_nat [of beg len] by simp
  have "unat beg < 2 ^ 64" using unsigned_less [where ?w = beg and ?'a = nat] by simp
  then show ?thesis unfolding A B by arith
qed

lemma MakePhysicalRange_iff:
  "MakePhysicalRange beg len = Some r \<longleftrightarrow>
     beg < beg + len \<and> r = \<lparr>pr_begin = beg, pr_end = beg + len\<rparr>"
proof -
  have "\<not> (len = 0 \<or> len > NOT 0 - beg) \<longleftrightarrow> beg < beg + len"
    using no_overflow_iff [of len beg] by (auto simp: order_less_le not_less)
  then show ?thesis unfolding MakePhysicalRange_def by (metis option.distinct(1) option.inject)
qed

text \<open>Moving a range that does not wrap keeps the order of its addresses.\<close>

lemma shifted_unat:
  assumes "(v :: stduint) \<le> x" "x \<le> w" "p \<le> p + (w - v)"
  shows "unat (p + (x - v)) = unat p + (unat x - unat v)"
proof -
  have "unat (w - v) = unat w - unat v" "unat (x - v) = unat x - unat v"
    using assms(1,2) by (simp_all add: unat_sub)
  moreover have "unat p + unat (w - v) < 2 ^ 64" using assms(3) no_olen_add_nat [of p "w - v"] by simp
  moreover have "unat x \<le> unat w" using assms(2) by (simp add: word_le_nat_alt)
  ultimately show ?thesis by (simp add: unat_word_ariths)
qed

lemma shifted_less:
  assumes "(v :: stduint) \<le> x" "x < y" "y \<le> w" "p \<le> p + (w - v)"
  shows "p + (x - v) < p + (y - v)"
  using assms shifted_unat [of v x w p] shifted_unat [of v y w p]
  by (auto simp: word_less_nat_alt word_le_nat_alt)

lemma shifted_le:
  assumes "(v :: stduint) \<le> x" "x \<le> y" "y \<le> w" "p \<le> p + (w - v)"
  shows "p + (x - v) \<le> p + (y - v)"
  using assms shifted_less [of v x y w p] by (cases "x = y") (auto simp: order_less_le)

section \<open>Subtraction and splitting\<close>

text \<open>The reference: the fragments hold the addresses of the source outside the removed range.\<close>

lemma Subtract_set:
  assumes "SubtractPhysicalRange s r = Some rs"
  shows "(\<exists>q \<in> set rs. x \<in> addrs q) \<longleftrightarrow> x \<in> addrs s \<and> x \<notin> addrs r"
proof (cases "PhysicalRangesOverlap s r")
  case False
  then have "rs = [s]" using assms by (auto simp: SubtractPhysicalRange_def split: if_splits)
  then show ?thesis using False by (auto simp: PhysicalRangesOverlap_def dest: less_le_trans le_less_trans)
next
  case True
  then have rs: "set rs = (if pr_begin s < pr_begin r
      then {\<lparr>pr_begin = pr_begin s, pr_end = pr_begin r\<rparr>} else {}) \<union>
     (if pr_end r < pr_end s then {\<lparr>pr_begin = pr_end r, pr_end = pr_end s\<rparr>} else {})"
    using assms by (auto simp: SubtractPhysicalRange_def split: if_splits)
  have ov: "pr_begin s < pr_end r" "pr_begin r < pr_end s"
    using True by (auto simp: PhysicalRangesOverlap_def)
  have "(\<exists>q \<in> set rs. x \<in> addrs q) \<longleftrightarrow>
    pr_begin s \<le> x \<and> x < pr_begin r \<or> pr_end r \<le> x \<and> x < pr_end s"
    unfolding rs by (auto dest: le_less_trans)
  also have "\<dots> \<longleftrightarrow> x \<in> addrs s \<and> x \<notin> addrs r"
    using ov by (auto simp: not_le not_less dest: less_trans less_imp_le order_trans)
  finally show ?thesis .
qed

lemma Subtract_parts:
  assumes "SubtractPhysicalRange s r = Some rs" "q \<in> set rs"
  shows "pr_begin s \<le> pr_begin q \<and> pr_begin q < pr_end q \<and> pr_end q \<le> pr_end s"
  using assms
  by (auto simp: SubtractPhysicalRange_def PhysicalRangesOverlap_def not_le split: if_splits)

lemma Subtract_shape:
  assumes "SubtractPhysicalRange s r = Some rs"
  shows "length rs \<le> 2 \<and> sorted_wrt (\<lambda>p q. pr_end p \<le> pr_begin q) rs"
  using assms by (auto simp: SubtractPhysicalRange_def not_le split: if_splits)

lemma Subtract_total:
  "pr_begin s < pr_end s \<Longrightarrow> pr_begin r < pr_end r \<Longrightarrow> \<exists>rs. SubtractPhysicalRange s r = Some rs"
  by (auto simp: SubtractPhysicalRange_def)

definition target :: "PhysicalMappingRecord \<Rightarrow> stduint \<Rightarrow> stduint \<times> stduint \<times> stduint" where
  "target e x = (pr_begin (mr_physical_range e) + (x - pr_begin (mr_virtual_range e)), mr_type e,
     mr_permissions e)"

text \<open>A well-formed record: two non-empty ranges of the same length.\<close>

definition rec_ok :: "PhysicalMappingRecord \<Rightarrow> bool" where
  "rec_ok e \<longleftrightarrow>
     pr_begin (mr_virtual_range e) < pr_end (mr_virtual_range e) \<and>
     pr_begin (mr_physical_range e) < pr_end (mr_physical_range e) \<and>
     pr_end (mr_physical_range e) = pr_begin (mr_physical_range e) +
       (pr_end (mr_virtual_range e) - pr_begin (mr_virtual_range e))"

text \<open>A fragment of a record: part of its range with the same translation.\<close>

definition part_of :: "PhysicalMappingRecord \<Rightarrow> PhysicalMappingRecord \<Rightarrow> bool" where
  "part_of f e \<longleftrightarrow> rec_ok f \<and> mr_paging f = mr_paging e \<and> mr_type f = mr_type e \<and>
     addrs (mr_virtual_range f) \<subseteq> addrs (mr_virtual_range e) \<and>
     addrs (mr_physical_range f) \<subseteq> addrs (mr_physical_range e) \<and> (\<forall>x. target f x = target e x)"

lemma fragment_part_of:
  assumes "rec_ok e" and r: "pr_begin (mr_virtual_range e) \<le> pr_begin r" "pr_begin r < pr_end r"
    "pr_end r \<le> pr_end (mr_virtual_range e)"
  obtains p where "MakePhysicalRange (pr_begin (mr_physical_range e) +
      (pr_begin r - pr_begin (mr_virtual_range e))) (pr_end r - pr_begin r) = Some p"
    and "part_of (e\<lparr>mr_virtual_range := r, mr_physical_range := p\<rparr>) e"
proof -
  let ?v = "pr_begin (mr_virtual_range e)" and ?w = "pr_end (mr_virtual_range e)"
  let ?p = "pr_begin (mr_physical_range e)"
  let ?b = "?p + (pr_begin r - ?v)" and ?q = "?p + (pr_end r - ?v)"
  have e: "?v < ?w" "?p < ?p + (?w - ?v)" "pr_end (mr_physical_range e) = ?p + (?w - ?v)"
    using assms(1) by (auto simp: rec_ok_def)
  have less: "?b < ?q" using shifted_less [of ?v "pr_begin r" "pr_end r" ?w ?p] r e by auto
  have eq: "?b + (pr_end r - pr_begin r) = ?q" by simp
  have "pr_begin r \<le> ?w" using r by (metis less_imp_le order_trans)
  then have lo: "?p \<le> ?b" using shifted_le [of ?v ?v "pr_begin r" ?w ?p] r(1) e(2) by simp
  have "?v \<le> pr_end r" using r by (metis less_imp_le order_trans)
  then have hi: "?q \<le> ?p + (?w - ?v)" using shifted_le [of ?v "pr_end r" ?w ?w ?p] r(3) e(2) by simp
  show ?thesis
    using less r e lo hi
    by (intro that [of "\<lparr>pr_begin = ?b, pr_end = ?q\<rparr>"])
      (auto simp: MakePhysicalRange_iff eq part_of_def rec_ok_def target_def)
qed

lemma split_fragments_cases:
  assumes "rec_ok e"
    and "\<And>q. q \<in> set rs \<Longrightarrow> pr_begin (mr_virtual_range e) \<le> pr_begin q \<and> pr_begin q < pr_end q \<and>
      pr_end q \<le> pr_end (mr_virtual_range e)"
  shows "\<exists>fs. split_fragments e rs = Some fs \<and> map mr_virtual_range fs = rs \<and>
    (\<forall>f \<in> set fs. part_of f e)"
  using assms(2)
proof (induction rs)
  case (Cons r rs)
  obtain p where "MakePhysicalRange (pr_begin (mr_physical_range e) +
      (pr_begin r - pr_begin (mr_virtual_range e))) (pr_end r - pr_begin r) = Some p"
    and "part_of (e\<lparr>mr_virtual_range := r, mr_physical_range := p\<rparr>) e"
    using fragment_part_of [OF assms(1), of r] Cons.prems [of r] by auto
  moreover obtain fs where "split_fragments e rs = Some fs" "map mr_virtual_range fs = rs"
    "\<forall>f \<in> set fs. part_of f e"
    using Cons by force
  ultimately show ?case by simp
qed simp

lemma Split_cases:
  assumes "rec_ok e" "pr_begin r < pr_end r"
  obtains fs where "SplitPhysicalMappingRecord e r = Some fs" "length fs \<le> 2"
    and "\<And>f. f \<in> set fs \<Longrightarrow> part_of f e"
    and "\<And>x. (\<exists>f \<in> set fs. x \<in> addrs (mr_virtual_range f)) \<longleftrightarrow>
      x \<in> addrs (mr_virtual_range e) \<and> x \<notin> addrs r"
    and "sorted_wrt (\<lambda>f g. pr_end (mr_virtual_range f) \<le> pr_begin (mr_virtual_range g)) fs"
proof -
  obtain rs where rs: "SubtractPhysicalRange (mr_virtual_range e) r = Some rs"
    using Subtract_total assms by (auto simp: rec_ok_def)
  obtain fs where fs: "split_fragments e rs = Some fs" "map mr_virtual_range fs = rs"
    "\<forall>f \<in> set fs. part_of f e"
    using split_fragments_cases [OF assms(1), of rs] Subtract_parts [OF rs] by blast
  have "(\<exists>f \<in> set fs. x \<in> addrs (mr_virtual_range f)) \<longleftrightarrow>
      x \<in> addrs (mr_virtual_range e) \<and> x \<notin> addrs r" for x
    using Subtract_set [OF rs, of x] unfolding fs(2) [symmetric] by (simp del: mem_addrs)
  moreover have "length fs \<le> 2" "sorted_wrt (\<lambda>f g. pr_end (mr_virtual_range f) \<le>
      pr_begin (mr_virtual_range g)) fs"
    using Subtract_shape [OF rs] unfolding fs(2) [symmetric] by (simp_all add: sorted_wrt_map)
  ultimately show ?thesis using that [of fs] rs fs by (simp add: SplitPhysicalMappingRecord_def)
qed

section \<open>The registry as a map\<close>

definition hits :: "ptr \<Rightarrow> stduint \<Rightarrow> PhysicalMappingRecord \<Rightarrow> bool" where
  "hits q x e \<longleftrightarrow> mr_paging e = q \<and> x \<in> addrs (mr_virtual_range e)"

fun reg_at :: "node list \<Rightarrow> ptr \<Rightarrow> stduint \<Rightarrow> (stduint \<times> stduint \<times> stduint) option" where
  "reg_at [] q x = None"
| "reg_at ((a, e) # rest) q x = (if hits q x e then Some (target e x) else reg_at rest q x)"

definition recs_ok :: "node list \<Rightarrow> bool" where
  "recs_ok chain \<longleftrightarrow> (\<forall>(a, e) \<in> set chain. rec_ok e)"

lemma recs_ok_simps [simp]:
  "recs_ok []" "recs_ok ((a, e) # chain) \<longleftrightarrow> rec_ok e \<and> recs_ok chain"
  by (auto simp: recs_ok_def)

text \<open>Whether two records of one address space claim a virtual address twice.\<close>

definition rec_apart :: "PhysicalMappingRecord \<Rightarrow> PhysicalMappingRecord \<Rightarrow> bool" where
  "rec_apart e f \<longleftrightarrow> mr_paging e = mr_paging f \<longrightarrow>
     addrs (mr_virtual_range e) \<inter> addrs (mr_virtual_range f) = {}"

definition chain_apart :: "node list \<Rightarrow> bool" where
  "chain_apart chain \<longleftrightarrow> sorted_wrt (\<lambda>n n'. rec_apart (snd n) (snd n')) chain"

lemma chain_apart_simps [simp]:
  "chain_apart []"
  "chain_apart ((a, e) # chain) \<longleftrightarrow> (\<forall>n \<in> set chain. rec_apart e (snd n)) \<and> chain_apart chain"
  by (auto simp: chain_apart_def)

lemma part_of_ok: "part_of f e \<Longrightarrow> rec_ok f" by (simp add: part_of_def)

lemma part_of_target: "part_of f e \<Longrightarrow> target f x = target e x" by (simp add: part_of_def)

lemma part_of_hits: "part_of f e \<Longrightarrow> hits q x f \<Longrightarrow> hits q x e \<and> target f x = target e x"
  by (auto simp: part_of_def hits_def simp del: mem_addrs)

lemma part_of_apart: "part_of f e \<Longrightarrow> rec_apart e g \<Longrightarrow> rec_apart f g"
  by (auto simp: part_of_def rec_apart_def simp del: mem_addrs)

section \<open>Commit\<close>

text \<open>
  The step of \<open>commit_loop\<close> at a record, as a relation: the record is outside, or it is replaced by
  its fragments, each of which is a part of it.
\<close>

definition cut_of :: "ptr \<Rightarrow> PhysicalRange \<Rightarrow> PhysicalMappingRecord \<Rightarrow> PhysicalMappingRecord list \<Rightarrow> bool" where
  "cut_of p r e fs \<longleftrightarrow> (\<forall>f \<in> set fs. part_of f e) \<and>
     (\<forall>q x. (\<exists>f \<in> set fs. hits q x f) \<longleftrightarrow> hits q x e \<and> \<not> (q = p \<and> x \<in> addrs r)) \<and>
     sorted_wrt rec_apart fs"

lemma touched_cut:
  assumes "rec_ok e" "pr_begin r < pr_end r" "mr_paging e = p"
  obtains fs where "SplitPhysicalMappingRecord e r = Some fs" "length fs \<le> 2" "cut_of p r e fs"
proof -
  obtain fs where fs: "SplitPhysicalMappingRecord e r = Some fs" "length fs \<le> 2"
    "\<And>f. f \<in> set fs \<Longrightarrow> part_of f e"
    "\<And>x. (\<exists>f \<in> set fs. x \<in> addrs (mr_virtual_range f)) \<longleftrightarrow>
      x \<in> addrs (mr_virtual_range e) \<and> x \<notin> addrs r"
    "sorted_wrt (\<lambda>f g. pr_end (mr_virtual_range f) \<le> pr_begin (mr_virtual_range g)) fs"
    using Split_cases [OF assms(1,2)] by blast
  have pag: "mr_paging f = p" if "f \<in> set fs" for f using fs(3) [OF that] assms(3) by (simp add: part_of_def)
  have "(\<exists>f \<in> set fs. hits q x f) \<longleftrightarrow> hits q x e \<and> \<not> (q = p \<and> x \<in> addrs r)" for q x
  proof (cases "q = p")
    case True
    then show ?thesis using fs(4) [of x] pag assms(3) by (auto simp: hits_def simp del: mem_addrs)
  next
    case False
    then show ?thesis using pag assms(3) by (auto simp: hits_def)
  qed
  moreover have "sorted_wrt rec_apart fs"
    using fs(5) by (rule sorted_wrt_mono_rel [rotated]) (auto simp: rec_apart_def dest: less_le_trans)
  ultimately show ?thesis using that fs by (auto simp: cut_of_def)
qed

lemma untouched_cut:
  assumes "rec_ok e" "\<not> (mr_paging e = p \<and> PhysicalRangesOverlap (mr_virtual_range e) r)"
    "pr_begin r < pr_end r"
  shows "cut_of p r e [e]"
proof -
  have "\<not> (x \<in> addrs (mr_virtual_range e) \<and> x \<in> addrs r)" if "mr_paging e = p" for x
    using that assms(2) by (auto simp: PhysicalRangesOverlap_def dest: le_less_trans)
  then show ?thesis using assms(1) unfolding cut_of_def hits_def part_of_def by auto
qed

lemma commit_loop_step:
  assumes "commit_loop p r ((a, e) # rest) res = Some (chain, left, freed)"
    and "rec_ok e" "pr_begin r < pr_end r"
  obtains ns res' freed0 chain' freed' where "cut_of p r e (map snd ns)"
    and "commit_loop p r rest res' = Some (chain', left, freed')"
    and "chain = ns @ chain'" "freed = freed0 @ freed'"
    and "mset (map fst ns) + mset freed0 + mset res' = {#a#} + mset res"
proof (cases "mr_paging e = p \<and> PhysicalRangesOverlap (mr_virtual_range e) r")
  case False
  then obtain chain' where "commit_loop p r rest res = Some (chain', left, freed)"
    "chain = (a, e) # chain'"
    using assms(1) by (auto split: if_splits)
  then show ?thesis using that [of "[(a, e)]" res chain' freed "[]"] untouched_cut [OF assms(2) False assms(3)]
    by simp
next
  case True
  then obtain fs where fs: "SplitPhysicalMappingRecord e r = Some fs" "length fs \<le> 2" "cut_of p r e fs"
    using touched_cut [OF assms(2,3)] by blast
  consider "fs = []" | f where "fs = [f]" | f g where "fs = [f, g]"
    using fs(2) by (cases fs rule: remdups_adj.cases) auto
  then show ?thesis
  proof cases
    case 1
    then obtain freed' where "commit_loop p r rest res = Some (chain, left, freed')" "freed = a # freed'"
      using assms(1) True fs(1) by auto
    then show ?thesis using that [of "[]" res chain freed' "[a]"] fs(3) 1 by simp
  next
    case (2 f)
    then obtain chain' where "commit_loop p r rest res = Some (chain', left, freed)" "chain = (a, f) # chain'"
      using assms(1) True fs(1) by auto
    then show ?thesis using that [of "[(a, f)]" res chain' freed "[]"] fs(3) 2 by simp
  next
    case (3 f g)
    then obtain b res' chain' where "res = b # res'"
      "commit_loop p r rest res' = Some (chain', left, freed)" "chain = (a, f) # (b, g) # chain'"
      using assms(1) True fs(1) by (cases res) auto
    then show ?thesis using that [of "[(a, f), (b, g)]" res' chain' freed "[]"] fs(3) 3 by simp
  qed
qed

lemma reg_at_append:
  "reg_at (xs @ ys) q x = (case reg_at xs q x of None \<Rightarrow> reg_at ys q x | Some v \<Rightarrow> Some v)"
  by (induction xs) auto

lemma reg_at_cut:
  assumes "cut_of p r e (map snd ns)"
  shows "reg_at ns q x = (if hits q x e \<and> \<not> (q = p \<and> x \<in> addrs r) then Some (target e x) else None)"
proof -
  have "reg_at ns q x = (if \<exists>n \<in> set ns. hits q x (snd n) then Some (target e x) else None)"
    if "\<forall>n \<in> set ns. part_of (snd n) e"
    using that
  proof (induction ns)
    case (Cons n ns)
    then show ?case by (cases n) (simp add: part_of_target)
  qed simp
  then show ?thesis using assms unfolding cut_of_def by simp
qed

lemma commit_loop_reg_at:
  assumes "recs_ok recs" "pr_begin r < pr_end r" "commit_loop p r recs res = Some (chain, left, freed)"
  shows "reg_at chain q x = (if q = p \<and> x \<in> addrs r then None else reg_at recs q x)"
  using assms(1,3)
proof (induction recs arbitrary: res chain freed)
  case (Cons n recs)
  obtain a e where n: "n = (a, e)" by (cases n)
  have "rec_ok e" using Cons.prems(1) n by simp
  then obtain ns res' freed0 chain' freed' where step: "cut_of p r e (map snd ns)"
    "commit_loop p r recs res' = Some (chain', left, freed')" "chain = ns @ chain'"
    "freed = freed0 @ freed'" "mset (map fst ns) + mset freed0 + mset res' = {#a#} + mset res"
    using commit_loop_step [OF Cons.prems(2) [unfolded n] _ assms(2)] by metis
  have "reg_at chain' q x = (if q = p \<and> x \<in> addrs r then None else reg_at recs q x)"
    using Cons.IH [OF _ step(2)] Cons.prems(1) n by simp
  then show ?case unfolding step(3) reg_at_append reg_at_cut [OF step(1)] n by auto
qed auto

text \<open>Every node of the new chain is part of a node of the old one.\<close>

lemma commit_loop_parts:
  assumes "recs_ok recs" "pr_begin r < pr_end r" "commit_loop p r recs res = Some (chain, left, freed)"
  shows "\<forall>f \<in> snd ` set chain. \<exists>e \<in> snd ` set recs. part_of f e \<and>
    (\<forall>q x. hits q x f \<longrightarrow> \<not> (q = p \<and> x \<in> addrs r))"
  using assms(1,3)
proof (induction recs arbitrary: res chain freed)
  case (Cons n recs)
  obtain a e where n: "n = (a, e)" by (cases n)
  have "rec_ok e" using Cons.prems(1) n by simp
  then obtain ns res' freed0 chain' freed' where step: "cut_of p r e (map snd ns)"
    "commit_loop p r recs res' = Some (chain', left, freed')" "chain = ns @ chain'"
    "freed = freed0 @ freed'" "mset (map fst ns) + mset freed0 + mset res' = {#a#} + mset res"
    using commit_loop_step [OF Cons.prems(2) [unfolded n] _ assms(2)] by metis
  have "\<forall>f \<in> snd ` set chain'. \<exists>e \<in> snd ` set recs. part_of f e \<and>
    (\<forall>q x. hits q x f \<longrightarrow> \<not> (q = p \<and> x \<in> addrs r))"
    using Cons.IH [OF _ step(2)] Cons.prems(1) n by simp
  moreover have "\<forall>f \<in> snd ` set ns. part_of f e \<and> (\<forall>q x. hits q x f \<longrightarrow> \<not> (q = p \<and> x \<in> addrs r))"
    using step(1) unfolding cut_of_def set_map by blast
  ultimately show ?case unfolding step(3) n image_Un set_append by auto
qed auto

lemma parts_ok: "\<forall>f \<in> snd ` set chain. \<exists>e \<in> snd ` set recs. part_of f e \<and> P f \<Longrightarrow> recs_ok chain"
  unfolding recs_ok_def using part_of_ok by fastforce

lemma apart_append:
  "chain_apart (xs @ ys) \<longleftrightarrow> chain_apart xs \<and> chain_apart ys \<and>
     (\<forall>m \<in> set xs. \<forall>n \<in> set ys. rec_apart (snd m) (snd n))"
  by (auto simp: chain_apart_def sorted_wrt_append)

lemma rec_apart_sym: "rec_apart e f \<Longrightarrow> rec_apart f e"
  by (auto simp: rec_apart_def simp del: mem_addrs)

lemma commit_loop_apart:
  assumes "recs_ok recs" "pr_begin r < pr_end r" "commit_loop p r recs res = Some (chain, left, freed)"
    and "chain_apart recs"
  shows "chain_apart chain"
  using assms(1,3,4)
proof (induction recs arbitrary: res chain freed)
  case (Cons n recs)
  obtain a e where n: "n = (a, e)" by (cases n)
  have "rec_ok e" using Cons.prems(1) n by simp
  then obtain ns res' freed0 chain' freed' where step: "cut_of p r e (map snd ns)"
    "commit_loop p r recs res' = Some (chain', left, freed')" "chain = ns @ chain'"
    "freed = freed0 @ freed'" "mset (map fst ns) + mset freed0 + mset res' = {#a#} + mset res"
    using commit_loop_step [OF Cons.prems(2) [unfolded n] _ assms(2)] by metis
  have ok: "recs_ok recs" "chain_apart recs" "\<forall>k \<in> set recs. rec_apart e (snd k)"
    using Cons.prems n by auto
  have "chain_apart ns" using step(1) by (simp add: cut_of_def chain_apart_def sorted_wrt_map)
  moreover have "rec_apart (snd m) (snd k)" if mk: "m \<in> set ns" "k \<in> set chain'" for m k
  proof -
    have "part_of (snd m) e" using step(1) mk(1) by (auto simp: cut_of_def)
    moreover obtain k' where "k' \<in> set recs" "part_of (snd k) (snd k')"
      using commit_loop_parts [OF ok(1) assms(2) step(2)] mk(2) by fastforce
    ultimately show ?thesis using ok(3) by (metis part_of_apart rec_apart_sym)
  qed
  ultimately show ?case using Cons.IH [OF ok(1) step(2) ok(2)] by (auto simp: step(3) apart_append)
qed auto

lemma commit_loop_nodes:
  assumes "recs_ok recs" "pr_begin r < pr_end r" "commit_loop p r recs res = Some (chain, left, freed)"
  shows "mset (map fst chain) + mset freed + mset left = mset (map fst recs) + mset res"
  using assms(1,3)
proof (induction recs arbitrary: res chain freed)
  case (Cons n recs)
  obtain a e where n: "n = (a, e)" by (cases n)
  have "rec_ok e" using Cons.prems(1) n by simp
  then obtain ns res' freed0 chain' freed' where step: "cut_of p r e (map snd ns)"
    "commit_loop p r recs res' = Some (chain', left, freed')" "chain = ns @ chain'"
    "freed = freed0 @ freed'" "mset (map fst ns) + mset freed0 + mset res' = {#a#} + mset res"
    using commit_loop_step [OF Cons.prems(2) [unfolded n] _ assms(2)] by metis
  have "mset (map fst chain') + mset freed' + mset left = mset (map fst recs) + mset res'"
    using Cons.IH [OF _ step(2)] Cons.prems(1) n by simp
  then have "mset (map fst ns) + mset freed0 + (mset (map fst chain') + mset freed' + mset left) =
      mset (map fst ns) + mset freed0 + mset res' + mset (map fst recs)"
    by (simp only: ac_simps)
  then show ?case unfolding step(3-5) n by (simp add: ac_simps)
qed auto

end
