(* ===== verification/Registry_Ops.thy ===== *)
theory Registry_Ops
  imports Registry_Props Address_Map
begin

text \<open>
  The operations on the mapping registry. The preparation reserves exactly the nodes that the commit
  takes, so no assertion of the commit fails; every node from the allocator is in the chain, or is
  given back, once; and the three operations are the expected updates of the map \<open>reg_at\<close>.
\<close>

section \<open>Counting nodes\<close>

fun needed :: "ptr \<Rightarrow> PhysicalRange \<Rightarrow> node list \<Rightarrow> nat" where
  "needed p r [] = 0"
| "needed p r ((a, e) # rest) =
     (if mr_paging e = p \<and> PhysicalRangesOverlap (mr_virtual_range e) r \<and>
         map_option length (SplitPhysicalMappingRecord e r) = Some 2
      then Suc (needed p r rest) else needed p r rest)"

lemma Split_total:
  assumes "rec_ok e" "pr_begin r < pr_end r"
  shows "\<exists>fs. SplitPhysicalMappingRecord e r = Some fs \<and> length fs \<le> 2"
  using Split_cases [OF assms] by metis

lemma prepare_unmap_needed:
  "recs_ok recs \<Longrightarrow> pr_begin r < pr_end r \<Longrightarrow>
   prepare_unmap_loop p r recs n = Some (n + needed p r recs)"
proof (induction recs arbitrary: n)
  case (Cons node recs)
  obtain a e where n: "node = (a, e)" by (cases node)
  show ?case
  proof (cases "mr_paging e = p \<and> PhysicalRangesOverlap (mr_virtual_range e) r")
    case True
    then obtain fs where "SplitPhysicalMappingRecord e r = Some fs"
      using Split_total [of e r] Cons.prems n by auto
    then show ?thesis using Cons True n by auto
  next
    case False
    then show ?thesis using Cons n by auto
  qed
qed simp

lemma prepare_map_needed:
  "prepare_map_loop L req recs n = Some k \<Longrightarrow>
   k = n + needed (mr_paging req) (mr_virtual_range req) recs"
proof (induction recs arbitrary: n)
  case (Cons node recs)
  then show ?case using Cons.IH [of n] Cons.IH [of "Suc n"]
    by (cases node) (auto split: if_splits option.splits)
qed simp

lemma commit_total:
  "recs_ok recs \<Longrightarrow> pr_begin r < pr_end r \<Longrightarrow> needed p r recs \<le> length res \<Longrightarrow>
   \<exists>chain freed. commit_loop p r recs res = Some (chain, drop (needed p r recs) res, freed)"
proof (induction recs arbitrary: res)
  case (Cons node recs)
  obtain a e where n: "node = (a, e)" by (cases node)
  have ok: "rec_ok e" "recs_ok recs" using Cons.prems n by auto
  show ?case
  proof (cases "mr_paging e = p \<and> PhysicalRangesOverlap (mr_virtual_range e) r")
    case False
    then show ?thesis using Cons.IH [OF ok(2) Cons.prems(2), of res] Cons.prems(3) n by auto
  next
    case True
    then obtain fs where fs: "SplitPhysicalMappingRecord e r = Some fs" "length fs \<le> 2"
      using Split_total [OF ok(1) Cons.prems(2)] by auto
    consider "fs = []" | f where "fs = [f]" | f g where "fs = [f, g]"
      using fs(2) by (cases fs rule: remdups_adj.cases) auto
    then show ?thesis
    proof cases
      case 3
      then obtain b res' where "res = b # res'" using Cons.prems(3) True fs n by (cases res) auto
      then show ?thesis using Cons.IH [OF ok(2) Cons.prems(2), of res'] Cons.prems(3) True fs n 3 by auto
    qed (use Cons.IH [OF ok(2) Cons.prems(2), of res] Cons.prems(3) True fs n in auto)
  qed
qed simp

section \<open>Accounting of nodes\<close>

text \<open>
  All addresses the allocator can hand out, wherever they are: in the chain, given back, or still to
  be handed out.
\<close>

definition valid_node :: "uint64 \<Rightarrow> bool" where
  "valid_node a \<longleftrightarrow> a \<noteq> 0 \<and> a \<noteq> NOT 0"

definition balance :: "'h memory \<Rightarrow> uint64 multiset" where
  "balance m = mset (map fst (physical_mapping_records m)) + mset (mempool_freed m) +
     mset (filter valid_node (mempool_results m))"

lemma Release_fields [simp]:
  "physical_mapping_records (ReleasePhysicalMappingRecords rs m) = physical_mapping_records m"
  "page_tables (ReleasePhysicalMappingRecords rs m) = page_tables m"
  "mempool_results (ReleasePhysicalMappingRecords rs m) = mempool_results m"
  "mempool_freed (ReleasePhysicalMappingRecords rs m) = rev rs @ mempool_freed m"
  by (induction rs arbitrary: m) (simp_all add: mempool_deallocate_def)

lemma balance_Release [simp]:
  "balance (ReleasePhysicalMappingRecords rs m) = balance m + mset rs"
  by (simp add: balance_def ac_simps)

lemma Allocate_cases:
  assumes "AllocatePhysicalMappingRecord m = (out, m')"
  shows "physical_mapping_records m' = physical_mapping_records m \<and> page_tables m' = page_tables m \<and>
    balance m = balance m' + (case out of None \<Rightarrow> {#} | Some a \<Rightarrow> {#a#})"
  using assms
  by (auto simp: AllocatePhysicalMappingRecord_def mempool_allocate_def balance_def valid_node_def
    split: list.splits prod.splits if_splits)

lemma reserve_cases:
  assumes "reserve_loop n acc m = (out, m')"
  shows "physical_mapping_records m' = physical_mapping_records m \<and> page_tables m' = page_tables m \<and>
    (case out of None \<Rightarrow> balance m' = balance m + mset acc
     | Some rs \<Rightarrow> length rs = n + length acc \<and> balance m' + mset rs = balance m + mset acc)"
  using assms
proof (induction n arbitrary: acc m)
  case (Suc n)
  obtain o1 m1 where al: "AllocatePhysicalMappingRecord m = (o1, m1)" by fastforce
  note a = Allocate_cases [OF al]
  show ?case
  proof (cases o1)
    case None
    then show ?thesis using Suc.prems al a by auto
  next
    case (Some x)
    then have "reserve_loop n (x # acc) m1 = (out, m')" using Suc.prems al by simp
    from Suc.IH [OF this] show ?thesis using a Some by (auto split: option.splits)
  qed
qed auto

section \<open>Operations\<close>

definition mem_ok :: "'h memory \<Rightarrow> bool" where
  "mem_ok m \<longleftrightarrow> recs_ok (physical_mapping_records m) \<and> chain_apart (physical_mapping_records m)"

abbreviation reg :: "'h memory \<Rightarrow> ptr \<Rightarrow> stduint \<Rightarrow> (stduint \<times> stduint \<times> stduint) option" where
  "reg m \<equiv> reg_at (physical_mapping_records m)"

text \<open>Effects that leave the registry alone, and the accounting, in one relation.\<close>

definition same_registry :: "'h memory \<Rightarrow> 'h memory \<Rightarrow> bool" where
  "same_registry m m' \<longleftrightarrow> physical_mapping_records m' = physical_mapping_records m \<and>
     balance m' = balance m"

lemma Normalize_rec_ok:
  assumes "NormalizeMapRequest L p la pa len ps props = Some req"
  shows "rec_ok req \<and> mr_paging req = p"
  using assms unfolding NormalizeMapRequest_def
  by (auto simp: Let_def MakePhysicalRange_iff rec_ok_def split: option.splits if_splits)

lemma NormalizeUnmap_ok:
  assumes "NormalizeUnmapRequest L la len = Some r"
  shows "pr_begin r < pr_end r"
  using assms unfolding NormalizeUnmapRequest_def
  by (auto simp: Let_def MakePhysicalRange_iff split: if_splits)

lemma Prepare_map_cases:
  assumes "PrepareMapRecords L req m = (out, m')"
  shows "physical_mapping_records m' = physical_mapping_records m \<and> page_tables m' = page_tables m \<and>
    (case out of None \<Rightarrow> balance m' = balance m
     | Some rs \<Rightarrow> balance m' + mset rs = balance m \<and>
         length rs = Suc (needed (mr_paging req) (mr_virtual_range req) (physical_mapping_records m)))"
proof (cases "prepare_map_loop L req (physical_mapping_records m) 1")
  case None
  then show ?thesis using assms by (auto simp: PrepareMapRecords_def)
next
  case (Some k)
  then have "reserve_loop k [] m = (out, m')"
    using assms by (simp add: PrepareMapRecords_def ReservePhysicalMappingRecords_def)
  from reserve_cases [OF this] prepare_map_needed [OF Some] show ?thesis by (auto split: option.splits)
qed

lemma Prepare_unmap_cases:
  assumes "PrepareUnmapRecords p r m = (out, m')" "mem_ok m" "pr_begin r < pr_end r"
  shows "physical_mapping_records m' = physical_mapping_records m \<and> page_tables m' = page_tables m \<and>
    (case out of None \<Rightarrow> balance m' = balance m
     | Some rs \<Rightarrow> balance m' + mset rs = balance m \<and>
         length rs = needed p r (physical_mapping_records m))"
proof -
  have "reserve_loop (needed p r (physical_mapping_records m)) [] m = (out, m')"
    using assms prepare_unmap_needed [of "physical_mapping_records m" r p 0]
    by (simp add: PrepareUnmapRecords_def ReservePhysicalMappingRecords_def mem_ok_def)
  from reserve_cases [OF this] show ?thesis by (auto split: option.splits)
qed

text \<open>The abstract updates of the map: a request overrides its addresses, a range is removed.\<close>

definition reg_put ::
  "PhysicalMappingRecord \<Rightarrow> (ptr \<Rightarrow> stduint \<Rightarrow> 'v option) \<Rightarrow> (stduint \<Rightarrow> 'v) \<Rightarrow> ptr \<Rightarrow> stduint \<Rightarrow> 'v option"
where
  "reg_put req f v q x = (if hits q x req then Some (v x) else f q x)"

definition reg_remove ::
  "ptr \<Rightarrow> PhysicalRange \<Rightarrow> (ptr \<Rightarrow> stduint \<Rightarrow> 'v option) \<Rightarrow> ptr \<Rightarrow> stduint \<Rightarrow> 'v option" where
  "reg_remove p r f q x = (if q = p \<and> x \<in> addrs r then None else f q x)"

lemma hits_iff: "hits q x e \<longleftrightarrow> q = mr_paging e \<and> x \<in> addrs (mr_virtual_range e)"
  by (auto simp: hits_def)

lemma rec_ok_range: "rec_ok e \<Longrightarrow> pr_begin (mr_virtual_range e) < pr_end (mr_virtual_range e)"
  by (simp add: rec_ok_def)

lemma take_last: "length rs = Suc n \<Longrightarrow> \<exists>a. drop n rs = [a]"
  by (metis Cons_nth_drop_Suc drop_eq_Nil le_refl lessI)

lemma CommitMapRecord_spec:
  assumes "mem_ok m" "rec_ok req"
    and "length rs = Suc (needed (mr_paging req) (mr_virtual_range req) (physical_mapping_records m))"
  obtains m' where "CommitMapRecord req rs m = Some m'" "mem_ok m'" "page_tables m' = page_tables m"
    "balance m' = balance m + mset rs" "reg m' = reg_put req (reg m) (target req)"
    "\<forall>n \<in> set (tl (physical_mapping_records m')). \<exists>e \<in> snd ` set (physical_mapping_records m). part_of (snd n) e"
    "snd (hd (physical_mapping_records m')) = req" "physical_mapping_records m' \<noteq> []"
proof -
  let ?p = "mr_paging req" and ?r = "mr_virtual_range req" and ?recs = "physical_mapping_records m"
  have ok: "recs_ok ?recs" "chain_apart ?recs" using assms(1) by (auto simp: mem_ok_def)
  note r = rec_ok_range [OF assms(2)]
  obtain chain freed where c: "commit_loop ?p ?r ?recs rs = Some (chain, drop (needed ?p ?r ?recs) rs, freed)"
    using commit_total [OF ok(1) r, of ?p rs] assms(3) by auto
  obtain a where a: "drop (needed ?p ?r ?recs) rs = [a]" using take_last [OF assms(3)] by blast
  let ?m' = "ReleasePhysicalMappingRecords freed (m\<lparr>physical_mapping_records := (a, req) # chain\<rparr>)"
  have eq: "CommitMapRecord req rs m = Some ?m'" using c a by (simp add: CommitMapRecord_def)
  note parts = commit_loop_parts [OF ok(1) r c]
  have "rec_apart req (snd n)" if "n \<in> set chain" for n
  proof -
    have "\<not> (q = ?p \<and> x \<in> addrs ?r)" if "hits q x (snd n)" for q x using parts \<open>n \<in> set chain\<close> that by blast
    then show ?thesis by (auto simp: rec_apart_def hits_def simp del: mem_addrs)
  qed
  then have "mem_ok ?m'"
    using assms(2) parts_ok [OF parts] commit_loop_apart [OF ok(1) r c ok(2)] by (simp add: mem_ok_def)
  moreover have "balance ?m' = balance m + mset rs"
    using commit_loop_nodes [OF ok(1) r c] by (simp add: balance_def a)
  moreover have "reg ?m' = reg_put req (reg m) (target req)"
    using commit_loop_reg_at [OF ok(1) r c]
    by (intro ext) (simp add: reg_put_def hits_iff del: mem_addrs)
  ultimately show ?thesis using that [OF eq] parts by fastforce
qed

lemma CommitUnmapRecords_spec:
  assumes "mem_ok m" "pr_begin r < pr_end r" "length rs = needed p r (physical_mapping_records m)"
  obtains m' where "CommitUnmapRecords p r rs m = Some m'" "mem_ok m'" "page_tables m' = page_tables m"
    "balance m' = balance m + mset rs" "reg m' = reg_remove p r (reg m)"
proof -
  let ?recs = "physical_mapping_records m"
  have ok: "recs_ok ?recs" "chain_apart ?recs" using assms(1) by (auto simp: mem_ok_def)
  obtain chain freed where c: "commit_loop p r ?recs rs = Some (chain, [], freed)"
    using commit_total [OF ok(1) assms(2), of p rs] assms(3) by auto
  let ?m' = "ReleasePhysicalMappingRecords freed (m\<lparr>physical_mapping_records := chain\<rparr>)"
  have eq: "CommitUnmapRecords p r rs m = Some ?m'" using c by (simp add: CommitUnmapRecords_def)
  have "mem_ok ?m'"
    using parts_ok [OF commit_loop_parts [OF ok(1) assms(2) c]]
      commit_loop_apart [OF ok(1) assms(2) c ok(2)] by (simp add: mem_ok_def)
  moreover have "balance ?m' = balance m + mset rs"
    using commit_loop_nodes [OF ok(1) assms(2) c] by (simp add: balance_def ac_simps)
  moreover have "reg ?m' = reg_remove p r (reg m)"
    using commit_loop_reg_at [OF ok(1) assms(2) c] by (intro ext) (simp add: reg_remove_def del: mem_addrs)
  ultimately show ?thesis using that [OF eq] by simp
qed

section \<open>Map, unmap and release\<close>

text \<open>The preparation has checked the type of every record that the commit leaves.\<close>

lemma commit_loop_compatible:
  assumes "prepare_map_loop L req recs n \<noteq> None"
    and "commit_loop (mr_paging req) (mr_virtual_range req) recs res = Some (chain, left, freed)"
  shows "\<forall>k \<in> set chain. \<not> MappingTypeConflicts L (snd k) req"
  using assms
proof (induction recs arbitrary: n res chain freed)
  case (Cons node recs)
  obtain a e where node: "node = (a, e)" by (cases node)
  show ?case
  proof (cases "mr_paging e = mr_paging req \<and>
      PhysicalRangesOverlap (mr_virtual_range e) (mr_virtual_range req)")
    case False
    then obtain chain' where "commit_loop (mr_paging req) (mr_virtual_range req) recs res =
        Some (chain', left, freed)" "chain = (a, e) # chain'"
      using Cons.prems(2) node by (auto split: if_splits)
    moreover have "\<not> MappingTypeConflicts L e req" "prepare_map_loop L req recs n \<noteq> None"
      using Cons.prems(1) False node by (auto split: if_splits)
    ultimately show ?thesis using Cons.IH by auto
  next
    case True
    then obtain fs k where fs: "SplitPhysicalMappingRecord e (mr_virtual_range req) = Some fs"
      "\<forall>f \<in> set fs. \<not> MappingTypeConflicts L f req" "prepare_map_loop L req recs k \<noteq> None"
      using Cons.prems(1) node by (auto split: option.splits if_splits simp: list_ex_iff)
    show ?thesis using Cons.prems(2) True node fs(1,2)
      by (auto split: list.splits dest!: Cons.IH [OF fs(3)])
  qed
qed simp

lemma CommitMapRecord_compatible:
  assumes "prepare_map_loop L req (physical_mapping_records m) n \<noteq> None"
    and "CommitMapRecord req rs m = Some m'"
  shows "\<forall>k \<in> set (tl (physical_mapping_records m')). \<not> MappingTypeConflicts L (snd k) req"
proof -
  obtain chain left freed a where "commit_loop (mr_paging req) (mr_virtual_range req)
      (physical_mapping_records m) rs = Some (chain, left, freed)"
    and "m' = ReleasePhysicalMappingRecords freed (m\<lparr>physical_mapping_records := (a, req) # chain\<rparr>)"
    using assms(2) by (auto simp: CommitMapRecord_def split: if_splits)
  then show ?thesis using commit_loop_compatible [OF assms(1)] by simp
qed

text \<open>What every call of \<open>MapPages\<close> does: it returns, and either fails or makes the update.\<close>

lemma MapPages_cases:
  assumes "mem_ok m"
  obtains (zero) "len = 0" "MapPages L p la pa len ps props m = Some (True, m)"
  | (fail) m' where "MapPages L p la pa len ps props m = Some (False, m')" "same_registry m m'" "len \<noteq> 0"
  | (ok) req m' where "MapPages L p la pa len ps props m = Some (True, m')" "len \<noteq> 0"
      "NormalizeMapRequest L p la pa len ps props = Some req"
      "mem_ok m'" "balance m' = balance m" "reg m' = reg_put req (reg m) (target req)"
      "\<forall>k \<in> set (tl (physical_mapping_records m')). \<not> MappingTypeConflicts L (snd k) req"
proof (cases "len = 0 \<or> NormalizeMapRequest L p la pa len ps props = None")
  case True
  then show ?thesis using zero fail [of m]
    by (cases "len = 0") (auto simp: MapPages_def same_registry_def)
next
  case False
  then obtain req where n: "len \<noteq> 0" "NormalizeMapRequest L p la pa len ps props = Some req" by auto
  obtain out m1 where prep: "PrepareMapRecords L req m = (out, m1)" by fastforce
  note P = Prepare_map_cases [OF prep]
  obtain mapped h where map: "Paging_Map L p la pa len ps props (page_tables m1) = (mapped, h)" by fastforce
  let ?m2 = "m1\<lparr>page_tables := h\<rparr>"
  show ?thesis
  proof (cases out)
    case None
    then show ?thesis using n prep P by (intro fail [of m1]) (auto simp: MapPages_def same_registry_def)
  next
    case (Some rs)
    have b: "balance ?m2 + mset rs = balance m" "physical_mapping_records ?m2 = physical_mapping_records m"
      using P Some by (auto simp: balance_def)
    show ?thesis
    proof (cases mapped)
      case False
      then show ?thesis using n prep map Some b
        by (intro fail [of "ReleasePhysicalMappingRecords rs ?m2"]) (auto simp: MapPages_def same_registry_def)
    next
      case True
      have ok: "mem_ok ?m2" "rec_ok req" using assms b(2) Normalize_rec_ok [OF n(2)] by (auto simp: mem_ok_def)
      have prepared: "prepare_map_loop L req (physical_mapping_records ?m2) 1 \<noteq> None"
        using prep Some b(2) by (auto simp: PrepareMapRecords_def split: option.splits)
      obtain m' where m': "CommitMapRecord req rs ?m2 = Some m'" "mem_ok m'"
        "balance m' = balance ?m2 + mset rs" "reg m' = reg_put req (reg ?m2) (target req)"
        using CommitMapRecord_spec [OF ok, of rs] P Some b(2) by auto
      have "\<forall>k \<in> set (tl (physical_mapping_records m')). \<not> MappingTypeConflicts L (snd k) req"
        by (rule CommitMapRecord_compatible [OF prepared m'(1)])
      then show ?thesis using n prep map Some True m' b by (intro that(3)) (auto simp: MapPages_def)
    qed
  qed
qed

lemma UnmapPages_cases:
  assumes "mem_ok m"
  obtains (zero) "len = 0" "UnmapPages L p la len m = Some (True, m)"
  | (fail) m' where "UnmapPages L p la len m = Some (False, m')" "same_registry m m'" "len \<noteq> 0"
  | (ok) r m' where "UnmapPages L p la len m = Some (True, m')" "len \<noteq> 0"
      "NormalizeUnmapRequest L la len = Some r" "mem_ok m'" "balance m' = balance m"
      "reg m' = reg_remove p r (reg m)"
proof (cases "len = 0 \<or> NormalizeUnmapRequest L la len = None")
  case True
  then show ?thesis using zero fail [of m]
    by (cases "len = 0") (auto simp: UnmapPages_def same_registry_def)
next
  case False
  then obtain r where n: "len \<noteq> 0" "NormalizeUnmapRequest L la len = Some r" by auto
  note r = NormalizeUnmap_ok [OF n(2)]
  obtain out m1 where prep: "PrepareUnmapRecords p r m = (out, m1)" by fastforce
  note P = Prepare_unmap_cases [OF prep assms r]
  obtain unmapped h where map: "Paging_Unmap L p (pr_begin r) (pr_end r - pr_begin r) (page_tables m1) =
    (unmapped, h)" by fastforce
  let ?m2 = "m1\<lparr>page_tables := h\<rparr>"
  show ?thesis
  proof (cases out)
    case None
    then show ?thesis using n prep P by (intro fail [of m1]) (auto simp: UnmapPages_def same_registry_def)
  next
    case (Some rs)
    have b: "balance ?m2 + mset rs = balance m" "physical_mapping_records ?m2 = physical_mapping_records m"
      using P Some by (auto simp: balance_def)
    show ?thesis
    proof (cases unmapped)
      case False
      then show ?thesis using n prep map Some b
        by (intro fail [of "ReleasePhysicalMappingRecords rs ?m2"]) (auto simp: UnmapPages_def same_registry_def)
    next
      case True
      have "mem_ok ?m2" using assms b(2) by (auto simp: mem_ok_def)
      then obtain m' where m': "CommitUnmapRecords p r rs ?m2 = Some m'" "mem_ok m'"
        "balance m' = balance ?m2 + mset rs" "reg m' = reg_remove p r (reg ?m2)"
        using CommitUnmapRecords_spec [OF _ r, of ?m2 rs p] P Some b(2) by auto
      then show ?thesis using n prep map Some True b by (intro that(3)) (auto simp: UnmapPages_def)
    qed
  qed
qed

section \<open>Normalised requests\<close>

text \<open>
  A request for any page size, with 4 KiB pages: its ranges are page aligned, the virtual one covers
  the bytes asked for, and the translation is the one asked for.
\<close>

lemma rounded_range:
  assumes "MakePhysicalRange (la AND NOT (mask 12)) ((len + (la AND mask 12) + mask 12) AND NOT (mask 12)) = Some r"
    and "(la AND mask 12) \<le> (la AND mask 12) + len" "mask 12 \<le> mask 12 + (len + (la AND mask 12))"
  shows "pr_begin r = la AND NOT (mask 12)" "pr_begin r \<le> la" "unat la + unat len \<le> unat (pr_end r)"
    "unat (pr_end r) < unat la + unat len + 4096"
proof -
  define off where "off = la AND mask 12"
  define len' where "len' = (len + off + mask 12) AND NOT (mask 12)"
  define beg where "beg = la AND NOT (mask 12)"
  note A = assms [folded off_def, folded len'_def beg_def]
  have r: "beg < beg + len'" "r = \<lparr>pr_begin = beg, pr_end = beg + len'\<rparr>"
    using A(1) unfolding MakePhysicalRange_iff by blast+
  have "len + off \<le> len + off + mask 12"
    unfolding add.commute [of "len + off" "mask 12"] by (rule iffD1 [OF olen_add_eqv A(3)])
  from round_up_le [OF this] have up: "unat (len + off) \<le> unat len'"
    by (simp only: len'_def word_le_nat_alt)
  have sum: "unat (len + off) = unat len + unat off"
    using iffD1 [OF unat_plus_simple A(2)] by (simp only: add.commute)
  have le: "unat (x + y) \<le> unat x + unat y" for x y :: stduint by (simp add: unat_word_ariths)
  have "unat len' \<le> unat (len + off + mask 12)"
    unfolding len'_def word_le_nat_alt [symmetric] by (rule word_and_le2)
  moreover have "unat (mask 12 :: stduint) = 4095" by (simp add: mask_eq_exp_minus_1)
  ultimately have down: "unat len' \<le> unat len + unat off + 4095"
    using le [of "len + off" "mask 12"] sum by linarith
  have "off \<le> la" unfolding off_def by (rule word_and_le2)
  then have beg: "unat beg = unat la - unat off" "unat off \<le> unat la"
    unfolding beg_def and_not_mask_minus off_def [symmetric] by (simp_all only: unat_sub word_le_nat_alt)
  have "unat (beg + len') = unat beg + unat len'"
    by (rule iffD1 [OF unat_plus_simple less_imp_le [OF r(1)]])
  then have "unat la + unat len \<le> unat (beg + len')" "unat beg \<le> unat la"
    "unat (beg + len') < unat la + unat len + 4096"
    using up sum beg down by linarith+
  then show "pr_begin r = la AND NOT (mask 12)" "pr_begin r \<le> la" "unat la + unat len \<le> unat (pr_end r)"
    "unat (pr_end r) < unat la + unat len + 4096"
    using r(2) by (simp_all add: word_le_nat_alt beg_def)
qed

lemma Normalize_ANY_shift:
  assumes "NormalizeMapRequest L p la pa len (PAGESIZE_ANY L) props = Some req" "unat (PAGESIZE_4KB L) = n"
  defines "off \<equiv> la AND mask n"
  defines "len' \<equiv> (len + off + mask n) AND NOT (mask n)"
  shows "off = pa AND mask n \<and> off \<le> off + len \<and> mask n \<le> mask n + (len + off) \<and>
    MakePhysicalRange (la AND NOT (mask n)) len' = Some (mr_virtual_range req) \<and>
    MakePhysicalRange (pa AND NOT (mask n)) len' = Some (mr_physical_range req)"
  using assms(1) unfolding NormalizeMapRequest_def Let_def imm_mask off_def len'_def no_overflow_iff [symmetric]
    and_not_mask_minus assms(2)
  by (auto simp: not_less assms(2) split: option.splits if_splits)

lemmas Normalize_ANY = Normalize_ANY_shift [where n = 12]

lemma Normalize_target:
  assumes "NormalizeMapRequest L p la pa len (PAGESIZE_ANY L) props = Some req" "PAGESIZE_4KB L = 12"
  shows "fst (target req x) = pa + (x - la)"
  using Normalize_ANY [OF assms(1)] assms(2) by (auto simp: MakePhysicalRange_iff target_def and_not_mask_minus)

lemma Normalize_aligned:
  assumes "NormalizeMapRequest L p la pa len (PAGESIZE_ANY L) props = Some req" "PAGESIZE_4KB L = 12"
    and "r = mr_virtual_range req \<or> r = mr_physical_range req"
  shows "pr_begin r AND mask 12 = 0 \<and> pr_end r AND mask 12 = 0 \<and> pr_begin r < pr_end r"
proof -
  obtain a b where "MakePhysicalRange (a AND NOT (mask 12)) (b AND NOT (mask 12)) = Some r"
    using Normalize_ANY [OF assms(1)] assms(2,3) by auto
  then show ?thesis
    using aligned_add [of 12 "a AND NOT (mask 12)" "b AND NOT (mask 12)"]
    by (auto simp: MakePhysicalRange_iff and_not_mask_aligned)
qed

lemma Normalize_range:
  assumes "NormalizeMapRequest L p la pa len (PAGESIZE_ANY L) props = Some req" "PAGESIZE_4KB L = 12"
  shows "pr_begin (mr_virtual_range req) = la AND NOT (mask 12)" "pr_begin (mr_virtual_range req) \<le> la"
    "unat la + unat len \<le> unat (pr_end (mr_virtual_range req))"
    "unat (pr_end (mr_virtual_range req)) < unat la + unat len + 4096"
proof -
  have "unat (PAGESIZE_4KB L) = 12" using assms(2) by simp
  from Normalize_ANY [OF assms(1) this]
  have "MakePhysicalRange (la AND NOT (mask 12)) ((len + (la AND mask 12) + mask 12) AND NOT (mask 12)) =
      Some (mr_virtual_range req)"
    "(la AND mask 12) \<le> (la AND mask 12) + len" "mask 12 \<le> mask 12 + (len + (la AND mask 12))" by blast+
  from rounded_range [OF this]
  show "pr_begin (mr_virtual_range req) = la AND NOT (mask 12)" "pr_begin (mr_virtual_range req) \<le> la"
    "unat la + unat len \<le> unat (pr_end (mr_virtual_range req))"
    "unat (pr_end (mr_virtual_range req)) < unat la + unat len + 4096" .
qed

lemma NormalizeUnmap_shift:
  assumes "NormalizeUnmapRequest L la len = Some r" "unat (PAGESIZE_4KB L) = n"
  defines "off \<equiv> la AND mask n"
  shows "off \<le> off + len \<and> mask n \<le> mask n + (len + off) \<and>
    MakePhysicalRange (la AND NOT (mask n)) ((len + off + mask n) AND NOT (mask n)) = Some r"
  using assms(1) unfolding NormalizeUnmapRequest_def Let_def imm_mask off_def no_overflow_iff [symmetric]
    and_not_mask_minus assms(2)
  by (auto simp: not_less split: if_splits)

lemma NormalizeUnmap_range:
  assumes "NormalizeUnmapRequest L la len = Some r" "PAGESIZE_4KB L = 12"
  shows "pr_begin r = la AND NOT (mask 12)" "pr_begin r \<le> la"
    "unat la + unat len \<le> unat (pr_end r)" "unat (pr_end r) < unat la + unat len + 4096"
proof -
  have "unat (PAGESIZE_4KB L) = 12" using assms(2) by simp
  note N = NormalizeUnmap_shift [OF assms(1) this]
  from rounded_range [OF conjunct2 [OF conjunct2 [OF N]] conjunct1 [OF N] conjunct1 [OF conjunct2 [OF N]]]
  show "pr_begin r = la AND NOT (mask 12)" "pr_begin r \<le> la"
    "unat la + unat len \<le> unat (pr_end r)" "unat (pr_end r) < unat la + unat len + 4096" .
qed

section \<open>Releasing an address space\<close>

lemma release_loop_spec:
  assumes "release_paging_loop p recs = (chain, freed)"
  shows "chain = filter (\<lambda>(a, e). mr_paging e \<noteq> p) recs \<and>
    mset (map fst chain) + mset freed = mset (map fst recs)"
  using assms
proof (induction recs arbitrary: chain freed)
  case (Cons n recs)
  obtain a e where n: "n = (a, e)" by (cases n)
  obtain c f where cf: "release_paging_loop p recs = (c, f)" by fastforce
  show ?case using Cons.IH [OF cf] Cons.prems cf n by (auto split: if_splits)
qed simp

lemma reg_at_filter:
  "reg_at (filter (\<lambda>(a, e). mr_paging e \<noteq> p) recs) q x = (if q = p then None else reg_at recs q x)"
  by (induction recs) (auto simp: hits_def)

lemma ReleasePagingMappings_spec:
  assumes "mem_ok m"
  shows "mem_ok (ReleasePagingMappings p m)" "balance (ReleasePagingMappings p m) = balance m"
    "reg (ReleasePagingMappings p m) q x = (if q = p then None else reg m q x)"
proof -
  obtain chain freed where r: "release_paging_loop p (physical_mapping_records m) = (chain, freed)" by fastforce
  note spec = release_loop_spec [OF r]
  have m': "ReleasePagingMappings p m =
      ReleasePhysicalMappingRecords freed (m\<lparr>physical_mapping_records := chain\<rparr>)"
    by (simp add: ReleasePagingMappings_def r)
  show "mem_ok (ReleasePagingMappings p m)"
    using assms conjunct1 [OF spec] unfolding m' mem_ok_def
    by (simp add: recs_ok_def chain_apart_def sorted_wrt_filter)
  show "balance (ReleasePagingMappings p m) = balance m"
    using conjunct2 [OF spec] unfolding m' by (simp add: balance_def)
  show "reg (ReleasePagingMappings p m) q x = (if q = p then None else reg m q x)"
    using conjunct1 [OF spec] reg_at_filter [of p] unfolding m' by simp
qed

section \<open>The registry as an address map\<close>

text \<open>A request for any page size; \<open>map_any\<close> is its \<open>MapPages\<close>, \<open>None\<close> where that fails.\<close>

record map_request =
  rq_paging :: ptr
  rq_linear :: stduint
  rq_physical :: stduint
  rq_length :: stduint
  rq_properties :: stduint

definition map_any :: "'h page_lib \<Rightarrow> map_request \<Rightarrow> 'h memory \<Rightarrow> 'h memory option" where
  "map_any L r m =
     (case MapPages L (rq_paging r) (rq_linear r) (rq_physical r) (rq_length r) (PAGESIZE_ANY L)
       (rq_properties r) m of
        Some (True, m') \<Rightarrow> Some m'
      | _ \<Rightarrow> None)"

definition request_record :: "'h page_lib \<Rightarrow> map_request \<Rightarrow> PhysicalMappingRecord option" where
  "request_record L r =
     (if rq_length r = 0 then None
      else NormalizeMapRequest L (rq_paging r) (rq_linear r) (rq_physical r) (rq_length r)
        (PAGESIZE_ANY L) (rq_properties r))"

definition request_covers :: "'h page_lib \<Rightarrow> map_request \<Rightarrow> ptr \<times> stduint \<Rightarrow> bool" where
  "request_covers L r k =
     (case request_record L r of None \<Rightarrow> False | Some e \<Rightarrow> hits (fst k) (snd k) e)"

definition request_value :: "'h page_lib \<Rightarrow> map_request \<Rightarrow> ptr \<times> stduint \<Rightarrow> stduint \<times> stduint \<times> stduint" where
  "request_value L r k = target (the (request_record L r)) (snd k)"

lemma map_any_spec:
  assumes "mem_ok m" "map_any L r m = Some m'"
  shows "mem_ok m'" "reg m' q x =
    (if request_covers L r (q, x) then Some (request_value L r (q, x)) else reg m q x)"
proof -
  let ?M = "MapPages L (rq_paging r) (rq_linear r) (rq_physical r) (rq_length r) (PAGESIZE_ANY L)
    (rq_properties r) m"
  have M: "?M = Some (True, m')"
    using assms(2) by (auto simp: map_any_def split: option.splits prod.splits bool.splits)
  have "mem_ok m' \<and> reg m' q x =
    (if request_covers L r (q, x) then Some (request_value L r (q, x)) else reg m q x)"
    using assms(1)
  proof (cases rule: MapPages_cases [where L = L and p = "rq_paging r" and la = "rq_linear r" and
        pa = "rq_physical r" and len = "rq_length r" and ps = "PAGESIZE_ANY L" and props = "rq_properties r"])
    case zero
    then show ?thesis using M assms(1) by (simp add: request_covers_def request_record_def)
  next
    case (fail m2)
    then show ?thesis using M by simp
  next
    case (ok req m2)
    then show ?thesis using M
      by (simp add: request_covers_def request_record_def request_value_def reg_put_def)
  qed
  then show "mem_ok m'" "reg m' q x =
    (if request_covers L r (q, x) then Some (request_value L r (q, x)) else reg m q x)" by auto
qed

interpretation registry_map: address_map mem_ok "\<lambda>m k. reg m (fst k) (snd k)" "\<lambda>r. True"
  "map_any L" "request_covers L" "request_value L"
  for L :: "'h page_lib"
  by unfold_locales (auto simp: map_any_spec)

section \<open>Runs of the registry\<close>

inductive memory_step :: "'h page_lib \<Rightarrow> 'h memory \<Rightarrow> 'h memory \<Rightarrow> bool" for L where
  map: "MapPages L p la pa len ps props m = Some (b, m') \<Longrightarrow> memory_step L m m'"
| unmap: "UnmapPages L p la len m = Some (b, m') \<Longrightarrow> memory_step L m m'"
| release: "memory_step L m (ReleasePagingMappings p m)"

inductive_cases memory_stepE: "memory_step L m m'"

lemma step_inv:
  assumes "mem_ok m" "memory_step L m m'"
  shows "mem_ok m' \<and> balance m' = balance m"
  using assms(2)
proof cases
  case (map p la pa len ps props b)
  show ?thesis
    by (rule MapPages_cases [OF assms(1), where L = L and p = p and la = la and pa = pa and len = len
          and ps = ps and props = props])
      (use map assms(1) in \<open>auto simp: same_registry_def mem_ok_def\<close>)
next
  case (unmap p la len b)
  show ?thesis
    by (rule UnmapPages_cases [OF assms(1), where L = L and p = p and la = la and len = len])
      (use unmap assms(1) in \<open>auto simp: same_registry_def mem_ok_def\<close>)
next
  case (release p)
  then show ?thesis using ReleasePagingMappings_spec [OF assms(1)] by simp
qed

lemma run_inv:
  assumes "(memory_step L)\<^sup>*\<^sup>* m m'" "mem_ok m"
  shows "mem_ok m' \<and> balance m' = balance m"
  using assms by (induction rule: rtranclp_induct) (auto dest: step_inv)

end
