(* ===== verification/Plan_Build.thy ===== *)
theory Plan_Build
  imports Plan_Props Registry_Ops
begin

text \<open>
  Building the plan and mapping it: the loop over the sources as a sequence of overlays, the check
  of \<open>map_initial_page_regions\<close> on the plans that are built, the room of the UEFI source array, and
  what the registry holds after \<open>MapInitialPagePlan\<close>.
\<close>

section \<open>Building\<close>

lemma plan_loop_fold:
  assumes "plan_loop L source plan cap = Some plan'"
  shows "\<exists>ns. map (NormalizeInitialPageRegion L) source = map Some ns \<and>
    foldo (\<lambda>r plan. OverlayInitialPageRegion plan cap r) ns plan = Some plan'"
  using assms
proof (induction source arbitrary: plan)
  case (Cons r source)
  then obtain n p where n: "NormalizeInitialPageRegion L r = Some n"
    "OverlayInitialPageRegion plan cap n = Some p" "plan_loop L source p cap = Some plan'" by auto
  then obtain ns where "map (NormalizeInitialPageRegion L) source = map Some ns"
    "foldo (\<lambda>r plan. OverlayInitialPageRegion plan cap r) ns p = Some plan'"
    using Cons.IH by blast
  then show ?case using n by (intro exI [of _ "n # ns"]) simp
qed simp

lemma plan_ok_Nil: "plan_ok []" by (simp add: plan_ok_def)

lemma normalized_nonempty:
  "map (NormalizeInitialPageRegion L) source = map Some ns \<Longrightarrow> \<forall>r \<in> set ns. ir_begin r < ir_end r"
  by (induction source arbitrary: ns) (auto dest: Normalize_region(4))

lemma find_last_normalized:
  assumes "map (NormalizeInitialPageRegion L) source = map Some ns"
  shows "find_last (\<lambda>r. region_has r x) ns =
    Option.bind (find_last (\<lambda>r. region_has r x) source) (NormalizeInitialPageRegion L)"
  using assms
proof (induction source arbitrary: ns)
  case (Cons r source)
  then obtain n ns' where n: "ns = n # ns'" "NormalizeInitialPageRegion L r = Some n"
    "map (NormalizeInitialPageRegion L) source = map Some ns'" by auto
  have has: "region_has n x = region_has r x" using Normalize_region(1,2) [OF n(2)] by (simp add: region_has_def)
  show ?case
  proof (cases "find_last (\<lambda>r. region_has r x) source")
    case None
    then show ?thesis using Cons.IH [OF n(3)] n has by simp
  next
    case (Some q)
    then have "q \<in> set source" by (auto simp: find_last_def dest: find_eq_SomeD)
    then have "NormalizeInitialPageRegion L q \<in> set (map Some ns')" by (simp flip: n(3))
    then show ?thesis using Cons.IH [OF n(3)] n Some by auto
  qed
qed simp

lemma plan_loop_room:
  assumes "plan_ok plan" "length plan + 2 * length source \<le> cap"
    "\<forall>r \<in> set source. NormalizeInitialPageRegion L r \<noteq> None"
  shows "\<exists>plan'. plan_loop L source plan cap = Some plan' \<and> length plan' \<le> length plan + 2 * length source"
  using assms
proof (induction source arbitrary: plan)
  case (Cons r source)
  then obtain n where n: "NormalizeInitialPageRegion L r = Some n" by auto
  then have ne: "ir_begin n < ir_end n" by (rule Normalize_region(4))
  obtain p where p: "OverlayInitialPageRegion plan cap n = Some p"
    using overlay_room [OF Cons.prems(1), of cap n] Cons.prems(2) by auto
  have "plan_ok p" "length p \<le> length plan + 2"
    using overlay_spec(1) [OF Cons.prems(1) ne p] overlay_length(1) [OF Cons.prems(1) ne p] by auto
  then show ?case using Cons.IH [of p] Cons.prems n p by auto
qed simp

lemma plan_loop_normal:
  assumes "normalize_stable L" "plan_ok plan" "\<forall>r \<in> set plan. normal_region L r"
    "plan_loop L source plan cap = Some plan'"
  shows "plan_ok plan' \<and> (\<forall>r \<in> set plan'. normal_region L r)"
  using assms(2-)
proof (induction source arbitrary: plan)
  case (Cons r source)
  then obtain n p where n: "NormalizeInitialPageRegion L r = Some n"
    "OverlayInitialPageRegion plan cap n = Some p" "plan_loop L source p cap = Some plan'" by auto
  have "normal_region L n" using assms(1) n(1) by (rule normal_of_normalized)
  then have "plan_ok p" "\<forall>r \<in> set p. normal_region L r"
    using overlay_normal [OF Cons.prems(1,2) _ n(2)] overlay_spec(1) [OF Cons.prems(1) _ n(2)]
      Normalize_region(4) [OF n(1)] by auto
  then show ?case using Cons.IH n(3) by blast
qed simp

section \<open>The check before mapping\<close>

lemma plan_valid_iff:
  "plan_valid L prev plan \<longleftrightarrow> (\<forall>r \<in> set plan. normal_region L r) \<and>
     successively (\<lambda>a b. before a b \<and> \<not> mergeable a b) (case prev of None \<Rightarrow> plan | Some p \<Rightarrow> p # plan)"
proof (induction plan arbitrary: prev)
  case (Cons r plan)
  have "(case NormalizeInitialPageRegion L r of None \<Rightarrow> False | Some n \<Rightarrow>
      ir_begin n = ir_begin r \<and> ir_end n = ir_end r \<and> ir_type n = ir_type r \<and>
      ir_permissions n = ir_permissions r) \<longleftrightarrow> normal_region L r"
    by (auto simp: normal_region_def split: option.splits)
  then show ?case using Cons [of "Some r"]
    by (cases prev) (auto simp: mergeable_def not_less split: option.splits if_splits)
qed (simp split: option.splits)

lemma successively_both:
  "successively (\<lambda>a b. P a b \<and> Q a b) xs \<longleftrightarrow> successively P xs \<and> successively Q xs"
  by (induction xs rule: induct_list012) auto

lemma successively_sorted:
  assumes "\<forall>r \<in> set plan. ir_begin r < ir_end r"
  shows "successively before plan \<longleftrightarrow> sorted_wrt before plan"
  using assms
proof (induction plan)
  case (Cons r plan)
  show ?case
  proof (cases plan)
    case (Cons q rest)
    have "before r b" if "before r q" "sorted_wrt before plan" "b \<in> set plan" for b
      using that Cons.prems \<open>plan = q # rest\<close> by (auto intro: order_trans less_imp_le)
    then show ?thesis using Cons.IH Cons.prems \<open>plan = q # rest\<close> by auto
  qed simp
qed simp

lemma plan_valid_ok:
  "plan_valid L None plan \<longleftrightarrow> plan_ok plan \<and> (\<forall>r \<in> set plan. normal_region L r)"
proof -
  have "\<forall>r \<in> set plan. ir_begin r < ir_end r" if "\<forall>r \<in> set plan. normal_region L r"
    using that normal_bounds by blast
  then show ?thesis
    unfolding plan_valid_iff plan_ok_def plan_sorted_def
    using successively_sorted [of plan] by (auto simp: successively_both)
qed

section \<open>Mapping\<close>

text \<open>What the mapping of a plan relies on in the library.\<close>

definition page_lib_ok :: "'h page_lib \<Rightarrow> bool" where
  "page_lib_ok L \<longleftrightarrow> PAGESIZE_4KB L = 12 \<and> PAGESIZE_2MB L = 21 \<and> normalize_stable L \<and>
     (\<forall>p. NormalizePageProperties L (p OR PGOPTS_omit_warnings L) = NormalizePageProperties L p)"

definition region_request :: "'h page_lib \<Rightarrow> ptr \<Rightarrow> InitialPageRegion \<Rightarrow> map_request" where
  "region_request L p r = \<lparr>rq_paging = p, rq_linear = ir_begin r, rq_physical = ir_begin r,
     rq_length = ir_end r - ir_begin r,
     rq_properties = ir_permissions r OR ir_type r OR PGOPTS_omit_warnings L\<rparr>"

definition alias_request :: "'h page_lib \<Rightarrow> ptr \<Rightarrow> InitialPageRegion \<Rightarrow> map_request" where
  "alias_request L p r = \<lparr>rq_paging = p, rq_linear = high_mapping_base + ir_begin r, rq_physical = ir_begin r,
     rq_length = min (ir_end r) (high_mapping_limit L) - ir_begin r,
     rq_properties = ir_permissions r OR ir_type r OR PGOPTS_omit_warnings L\<rparr>"

lemma map_regions_fold:
  "map_regions L p plan m = Some (True, m') \<longleftrightarrow>
     foldo (map_any L) (map (region_request L p) plan) m = Some m'"
  by (induction plan arbitrary: m)
    (auto simp: map_any_def region_request_def split: option.splits bool.splits prod.splits)

lemma map_high_aliases_fold:
  "map_high_aliases L p plan m = Some (True, m') \<longleftrightarrow> foldo (map_any L)
     (map (alias_request L p) (filter (\<lambda>r. ir_begin r < high_mapping_limit L) plan)) m = Some m'"
  by (induction plan arbitrary: m)
    (auto simp: map_any_def alias_request_def Let_def not_less [symmetric]
      split: option.splits bool.splits prod.splits)

lemma round_up_aligned:
  assumes "(y :: stduint) AND mask n = 0"
  shows "(y + mask n) AND NOT (mask n) = y"
proof -
  have "\<not> bit (y AND mask n) k" for k using assms by simp
  then have "y + mask n = y OR mask n" by (intro disjunctive_add) (simp only: bit_and_iff, blast)
  moreover have "(y OR mask n) AND NOT (mask n) = y AND NOT (mask n)"
    by (simp add: bit_eq_iff bit_simps) blast
  moreover have "y AND NOT (mask n) = y" using assms by (simp add: and_not_mask_minus)
  ultimately show ?thesis by simp
qed

text \<open>The record of a page-aligned request covers exactly the pages asked for.\<close>

lemma request_exact:
  assumes "NormalizeMapRequest L p la pa len (PAGESIZE_ANY L) props = Some e" "PAGESIZE_4KB L = 12"
    "la AND mask 12 = 0" "len AND mask 12 = 0"
  shows "mr_virtual_range e = \<lparr>pr_begin = la, pr_end = la + len\<rparr>" "la < la + len"
proof -
  have "unat (PAGESIZE_4KB L) = 12" using assms(2) by simp
  note N = Normalize_ANY [OF assms(1) this, unfolded assms(3)]
  have "(len + mask 12) AND NOT (mask 12) = len" by (rule round_up_aligned [OF assms(4)])
  moreover have "la AND NOT (mask 12) = la" using assms(3) by (simp add: and_not_mask_minus)
  ultimately show "mr_virtual_range e = \<lparr>pr_begin = la, pr_end = la + len\<rparr>" "la < la + len"
    using N by (auto simp: MakePhysicalRange_iff)
qed

lemma map_any_record:
  assumes "map_any L q m = Some m'" "rq_length q \<noteq> 0"
  obtains e where "request_record L q = Some e"
  using assms
  by (auto simp: map_any_def MapPages_def request_record_def split: option.splits prod.splits if_splits bool.splits)

lemma foldo_each:
  "foldo f rs m = Some m' \<Longrightarrow> r \<in> set rs \<Longrightarrow> \<exists>m1 m2. f r m1 = Some m2"
  by (induction rs arbitrary: m) auto

lemma normal_properties:
  assumes "normal_region L r"
  shows "NormalizePageProperties L (ir_permissions r OR ir_type r) = Some (ir_permissions r OR ir_type r)"
    "(ir_permissions r OR ir_type r) AND PGPROP_MASK_TYPE L = ir_type r"
proof -
  obtain p where p: "NormalizePageProperties L (ir_permissions r OR ir_type r) = Some p"
    "p AND PGPROP_MASK_TYPE L = ir_type r" "p AND NOT (PGPROP_MASK_TYPE L) = ir_permissions r"
    using assms unfolding normal_region_def NormalizeInitialPageRegion_def
    by (auto simp: Let_def same_permissions split: option.splits if_splits)
  then have "ir_permissions r OR ir_type r = p" using type_split [of p "PGPROP_MASK_TYPE L"] by simp
  then show "NormalizePageProperties L (ir_permissions r OR ir_type r) = Some (ir_permissions r OR ir_type r)"
    "(ir_permissions r OR ir_type r) AND PGPROP_MASK_TYPE L = ir_type r" using p by simp_all
qed

text \<open>The type recorded for a request with the properties of a region is the type of the region.\<close>

lemma record_type:
  assumes "page_lib_ok L" "normal_region L r" "request_record L q = Some e"
    "rq_properties q = ir_permissions r OR ir_type r OR PGOPTS_omit_warnings L"
  shows "mr_type e = ir_type r" "mr_paging e = rq_paging q"
proof -
  have "NormalizePageProperties L (rq_properties q) = Some (ir_permissions r OR ir_type r)"
    using assms(1,4) normal_properties(1) [OF assms(2)] by (simp add: page_lib_ok_def flip: or.assoc)
  then show "mr_type e = ir_type r" "mr_paging e = rq_paging q"
    using assms(3) normal_properties(2) [OF assms(2)]
    by (auto simp: request_record_def NormalizeMapRequest_def Let_def split: option.splits if_splits)
qed

text \<open>
  A request for aligned pages with the properties of a region that was granted: what it covers and
  what it records.
\<close>

lemma granted_request:
  assumes "page_lib_ok L" "normal_region L r" "map_any L q m = Some m'" "rq_length q \<noteq> 0"
    "rq_properties q = ir_permissions r OR ir_type r OR PGOPTS_omit_warnings L"
    "rq_linear q AND mask 12 = 0" "rq_length q AND mask 12 = 0"
  shows "request_covers L q (p, x) \<longleftrightarrow>
      p = rq_paging q \<and> rq_linear q \<le> x \<and> x < rq_linear q + rq_length q"
    and "\<exists>perm. request_value L q (p, x) = (rq_physical q + (x - rq_linear q), ir_type r, perm)"
    and "rq_linear q < rq_linear q + rq_length q"
proof -
  obtain e where e: "request_record L q = Some e" using map_any_record [OF assms(3,4)] .
  have N: "NormalizeMapRequest L (rq_paging q) (rq_linear q) (rq_physical q) (rq_length q) (PAGESIZE_ANY L)
      (rq_properties q) = Some e" and k: "PAGESIZE_4KB L = 12"
    using e assms(1,4) by (auto simp: request_record_def page_lib_ok_def)
  note ex = request_exact [OF N k assms(6,7)] and t = record_type [OF assms(1,2) e assms(5)]
  show "request_covers L q (p, x) \<longleftrightarrow>
      p = rq_paging q \<and> rq_linear q \<le> x \<and> x < rq_linear q + rq_length q"
    using e ex(1) t(2) by (auto simp: request_covers_def hits_iff)
  show "\<exists>perm. request_value L q (p, x) = (rq_physical q + (x - rq_linear q), ir_type r, perm)"
    using e t(1) Normalize_target [OF N k, of x] by (auto simp: request_value_def target_def)
  show "rq_linear q < rq_linear q + rq_length q" by (rule ex(2))
qed

lemma find_last_Some: "find_last P rs = Some r \<Longrightarrow> P r \<and> r \<in> set rs"
  by (auto simp: find_last_def dest: find_eq_SomeD)

lemma find_last_None: "find_last P rs = None \<longleftrightarrow> (\<forall>r \<in> set rs. \<not> P r)"
  by (auto simp: find_last_def find_eq_None)

lemma plan_sorted_unique:
  assumes "plan_sorted plan" "r \<in> set plan" "r' \<in> set plan" "region_has r x" "region_has r' x"
  shows "r = r'"
  using assms
proof (induction plan)
  case (Cons q plan)
  have "False" if "region_has q x" "k \<in> set plan" "region_has k x" for k
    using that Cons.prems(1) by (auto simp: region_has_def dest: less_le_trans)
  then show ?case using Cons by auto
qed simp

definition fair_request :: "'h page_lib \<Rightarrow> ptr \<Rightarrow> InitialPageRegion \<Rightarrow> map_request \<Rightarrow> bool" where
  "fair_request L p r q \<longleftrightarrow> normal_region L r \<and> rq_paging q = p \<and> rq_length q \<noteq> 0 \<and>
     rq_properties q = ir_permissions r OR ir_type r OR PGOPTS_omit_warnings L \<and>
     rq_linear q AND mask 12 = 0 \<and> rq_length q AND mask 12 = 0"

definition request_has :: "map_request \<Rightarrow> stduint \<Rightarrow> bool" where
  "request_has q x \<longleftrightarrow> rq_linear q \<le> x \<and> x < rq_linear q + rq_length q"

lemma fair_fold:
  assumes L: "page_lib_ok L" and m: "mem_ok m"
    and f: "foldo (map_any L) (map f rs) m = Some m'" "\<forall>r \<in> set rs. fair_request L p r (f r)"
  shows "mem_ok m'"
    and "r \<in> set rs \<Longrightarrow> request_has (f r) x \<Longrightarrow> \<forall>r' \<in> set rs. request_has (f r') x \<longrightarrow> r' = r \<Longrightarrow>
      \<exists>perm. reg m' p x = Some (rq_physical (f r) + (x - rq_linear (f r)), ir_type r, perm)"
    and "\<forall>r' \<in> set rs. \<not> request_has (f r') x \<Longrightarrow> reg m' p x = reg m p x"
proof -
  show "mem_ok m'" by (rule registry_map.fold_ok [OF m _ f(1)]) simp
  have granted: "request_covers L (f r) (p, x) \<longleftrightarrow> request_has (f r) x"
    "\<exists>perm. request_value L (f r) (p, x) = (rq_physical (f r) + (x - rq_linear (f r)), ir_type r, perm)"
    if r: "r \<in> set rs" for r
  proof -
    obtain m1 m2 where "map_any L (f r) m1 = Some m2" using foldo_each [OF f(1), of "f r"] r by auto
    note g = granted_request [OF L _ this]
    have fair: "fair_request L p r (f r)" using f(2) r by blast
    show "request_covers L (f r) (p, x) \<longleftrightarrow> request_has (f r) x"
      using g(1) [of r p x] fair by (simp add: fair_request_def request_has_def)
    show "\<exists>perm. request_value L (f r) (p, x) = (rq_physical (f r) + (x - rq_linear (f r)), ir_type r, perm)"
      using g(2) [of r p x] fair by (simp add: fair_request_def)
  qed
  have look: "reg m' p x = (case find_last (\<lambda>q. request_covers L q (p, x)) (map f rs) of
      None \<Rightarrow> reg m p x | Some q \<Rightarrow> Some (request_value L q (p, x)))"
    using registry_map.look_fold [OF m _ f(1), of "(p, x)"] unfolding fst_conv snd_conv by simp
  show "\<exists>perm. reg m' p x = Some (rq_physical (f r) + (x - rq_linear (f r)), ir_type r, perm)"
    if r: "r \<in> set rs" "request_has (f r) x" "\<forall>r' \<in> set rs. request_has (f r') x \<longrightarrow> r' = r"
  proof (cases "find_last (\<lambda>q. request_covers L q (p, x)) (map f rs)")
    case None
    then have "\<not> request_covers L (f r) (p, x)" using r(1) by (simp add: find_last_None)
    then show ?thesis using granted(1) [OF r(1)] r(2) by simp
  next
    case (Some q)
    from find_last_Some [OF this] obtain r' where r': "r' \<in> set rs" "q = f r'" "request_covers L (f r') (p, x)"
      by auto
    then have "q = f r" using granted(1) [OF r'(1)] r(3) by blast
    then show ?thesis using look Some granted(2) [OF r(1)] by simp
  qed
  show "reg m' p x = reg m p x" if "\<forall>r' \<in> set rs. \<not> request_has (f r') x"
  proof -
    have "find_last (\<lambda>q. request_covers L q (p, x)) (map f rs) = None"
      using that granted(1) unfolding find_last_None by auto
    then show ?thesis using look by simp
  qed
qed

section \<open>The two windows\<close>

lemma high_limit: "page_lib_ok L \<Longrightarrow> high_mapping_limit L = 0x3FE00000"
  by (simp add: page_lib_ok_def high_mapping_limit_def)

lemma high_order:
  assumes "a \<le> 0x3FE00000" "b \<le> 0x3FE00000"
  shows "high_mapping_base + a \<le> high_mapping_base + b \<longleftrightarrow> a \<le> b"
    and "high_mapping_base + a < high_mapping_base + b \<longleftrightarrow> a < b"
    and "high_mapping_base \<le> high_mapping_base + a"
proof -
  have u: "unat (high_mapping_base + x) = unat high_mapping_base + unat x" if "x \<le> 0x3FE00000" for x
    using that by (simp add: high_mapping_base_def unat_word_ariths word_le_nat_alt)
  show "high_mapping_base + a \<le> high_mapping_base + b \<longleftrightarrow> a \<le> b"
    and "high_mapping_base + a < high_mapping_base + b \<longleftrightarrow> a < b"
    and "high_mapping_base \<le> high_mapping_base + a"
    by (simp_all only: word_le_nat_alt word_less_nat_alt u [OF assms(1)] u [OF assms(2)]) simp_all
qed

lemma aligned_sub:
  assumes "(a :: stduint) AND mask n = 0" "b AND mask n = 0" "b \<le> a"
  shows "(a - b) AND mask n = 0"
  using assms unfolding aligned_iff by (simp add: unat_sub dvd_diff_nat)

lemma aligned_4k_mask: "page_lib_ok L \<Longrightarrow> aligned_4k L a \<longleftrightarrow> a AND mask 12 = 0"
  by (simp add: page_lib_ok_def aligned_4k_def mask_eq_exp_minus_1)

lemma region_fair:
  assumes "page_lib_ok L" "normal_region L r"
  shows "fair_request L p r (region_request L p r)"
    and "request_has (region_request L p r) x \<longleftrightarrow> region_has r x"
proof -
  note b = normal_bounds [OF assms(2)]
  have "ir_begin r AND mask 12 = 0" "ir_end r AND mask 12 = 0" using b aligned_4k_mask [OF assms(1)] by simp_all
  then have "(ir_end r - ir_begin r) AND mask 12 = 0" using b by (intro aligned_sub) auto
  then show "fair_request L p r (region_request L p r)"
    using assms(2) b \<open>ir_begin r AND mask 12 = 0\<close> by (auto simp: fair_request_def region_request_def)
  show "request_has (region_request L p r) x \<longleftrightarrow> region_has r x"
    by (simp add: request_has_def region_request_def region_has_def)
qed

lemma alias_fair:
  assumes "page_lib_ok L" "normal_region L r" "ir_begin r < high_mapping_limit L"
  shows "fair_request L p r (alias_request L p r)"
    and "x < high_mapping_limit L \<Longrightarrow> request_has (alias_request L p r) (high_mapping_base + x) \<longleftrightarrow> region_has r x"
    and "request_has (alias_request L p r) y \<Longrightarrow> high_mapping_base \<le> y"
proof -
  note b = normal_bounds [OF assms(2)] and lim = high_limit [OF assms(1)]
  let ?e = "min (ir_end r) (high_mapping_limit L)"
  have al: "ir_begin r AND mask 12 = 0" "ir_end r AND mask 12 = 0" using b aligned_4k_mask [OF assms(1)] by simp_all
  have "high_mapping_limit L AND mask 12 = 0" by (simp add: lim mask_eq_exp_minus_1)
  then have "?e AND mask 12 = 0" using al(2) by (simp add: min_def)
  then have len: "(?e - ir_begin r) AND mask 12 = 0" using al(1) b assms(3) by (intro aligned_sub) auto
  have hb: "(high_mapping_base :: stduint) AND mask 12 = 0"
    by (simp add: high_mapping_base_def mask_eq_exp_minus_1)
  have lin: "(high_mapping_base + ir_begin r) AND mask 12 = 0" by (rule aligned_add [OF _ hb al(1)]) simp
  show "fair_request L p r (alias_request L p r)"
    using assms(2,3) b len lin by (auto simp: fair_request_def alias_request_def min_def)
  have le: "ir_begin r \<le> 0x3FE00000" "?e \<le> 0x3FE00000" using assms(3) unfolding lim by simp_all
  have has: "request_has (alias_request L p r) z \<longleftrightarrow>
      high_mapping_base + ir_begin r \<le> z \<and> z < high_mapping_base + ?e" for z
    by (simp add: request_has_def alias_request_def)
  show "request_has (alias_request L p r) (high_mapping_base + x) \<longleftrightarrow> region_has r x" if "x < high_mapping_limit L"
  proof -
    have "x \<le> 0x3FE00000" using that lim by simp
    then show ?thesis unfolding has using high_order le that by (simp add: region_has_def)
  qed
  show "high_mapping_base \<le> y" if "request_has (alias_request L p r) y"
    using that high_order(3) [OF le(1) le(1)] unfolding has by (auto intro: order_trans)
qed

lemma MapInitial_steps:
  assumes "MapInitialPagePlan L has_root p plan m = Some (True, m')"
  obtains m1 where "plan_ok plan" "\<forall>r \<in> set plan. normal_region L r"
    "foldo (map_any L) (map (region_request L p) plan) m = Some m1"
    "foldo (map_any L) (map (alias_request L p) (filter (\<lambda>r. ir_begin r < high_mapping_limit L) plan)) m1 = Some m'"
proof -
  obtain m1 where "map_initial_page_regions L p plan m = Some (True, m1)"
    "map_high_aliases L p plan m1 = Some (True, m')"
    using assms by (auto simp: MapInitialPagePlan_def split: if_splits option.splits prod.splits bool.splits)
  moreover from this have "plan_valid L None plan" "map_regions L p plan m = Some (True, m1)"
    by (auto simp: map_initial_page_regions_def split: if_splits)
  ultimately show ?thesis using that plan_valid_ok map_regions_fold map_high_aliases_fold by metis
qed

lemma MapInitial_maps:
  assumes "page_lib_ok L" "mem_ok m" "MapInitialPagePlan L has_root p plan m = Some (True, m')"
    and r: "r \<in> set plan" "region_has r x"
  shows "x < high_mapping_base \<Longrightarrow> \<exists>perm. reg m' p x = Some (x, ir_type r, perm)"
    and "x < high_mapping_limit L \<Longrightarrow> \<exists>perm. reg m' p (high_mapping_base + x) = Some (x, ir_type r, perm)"
proof -
  let ?low = "filter (\<lambda>r. ir_begin r < high_mapping_limit L) plan"
  obtain m1 where m1: "plan_ok plan" "\<forall>r \<in> set plan. normal_region L r"
    "foldo (map_any L) (map (region_request L p) plan) m = Some m1"
    "foldo (map_any L) (map (alias_request L p) ?low) m1 = Some m'"
    using MapInitial_steps [OF assms(3)] by blast
  have unique: "r' = r" if "r' \<in> set plan" "region_has r' x" for r'
    using plan_sorted_unique [of plan] m1(1) r that by (auto simp: plan_ok_def)
  have fair: "\<forall>r \<in> set plan. fair_request L p r (region_request L p r)"
    "\<forall>r \<in> set ?low. fair_request L p r (alias_request L p r)"
    using m1(2) region_fair(1) [OF assms(1)] alias_fair(1) [OF assms(1)] by auto
  note F = fair_fold [OF assms(1,2) m1(3) fair(1)]
  note G = fair_fold [OF assms(1) F(1) m1(4) fair(2)]
  show "\<exists>perm. reg m' p x = Some (x, ir_type r, perm)" if "x < high_mapping_base"
  proof -
    have "\<not> request_has (alias_request L p r') x" if "r' \<in> set ?low" for r'
      using alias_fair(3) [OF assms(1), of r' p x] m1(2) that \<open>x < high_mapping_base\<close> by auto
    then have "reg m' p x = reg m1 p x" using G(3) by blast
    moreover have "\<exists>perm. reg m1 p x = Some (rq_physical (region_request L p r) +
        (x - rq_linear (region_request L p r)), ir_type r, perm)"
      using F(2) [OF r(1)] region_fair(2) [OF assms(1)] m1(2) r unique by blast
    ultimately show ?thesis by (simp add: region_request_def)
  qed
  show "\<exists>perm. reg m' p (high_mapping_base + x) = Some (x, ir_type r, perm)" if x: "x < high_mapping_limit L"
  proof -
    have "ir_begin r < high_mapping_limit L" using r(2) x by (auto simp: region_has_def)
    then have low: "r \<in> set ?low" using r(1) by simp
    have has: "request_has (alias_request L p r') (high_mapping_base + x) \<longleftrightarrow> region_has r' x"
      if "r' \<in> set ?low" for r' using alias_fair(2) [OF assms(1) _ _ x] m1(2) that by auto
    have "\<exists>perm. reg m' p (high_mapping_base + x) = Some (rq_physical (alias_request L p r) +
        (high_mapping_base + x - rq_linear (alias_request L p r)), ir_type r, perm)"
    proof (rule G(2) [OF low])
      show "request_has (alias_request L p r) (high_mapping_base + x)" using has [OF low] r(2) by simp
      show "\<forall>r' \<in> set ?low. request_has (alias_request L p r') (high_mapping_base + x) \<longrightarrow> r' = r"
      proof (intro ballI impI)
        fix r' assume "r' \<in> set ?low" "request_has (alias_request L p r') (high_mapping_base + x)"
        then show "r' = r" using has [of r'] unique [of r'] by simp
      qed
    qed
    then show ?thesis by (simp add: alias_request_def)
  qed
qed

section \<open>Room of the UEFI source array\<close>

lemma sum_above: "\<not> (len :: stduint) > NOT 0 - beg \<Longrightarrow> len \<noteq> 0 \<Longrightarrow> beg < beg + len"
  using no_overflow_iff [of len beg] by (auto simp: order_less_le not_less)

lemma append_source_room:
  "length source < cap \<Longrightarrow> beg < fin \<Longrightarrow> append_initial_page_source cap beg fin t perm source =
     Some (source @ [\<lparr>ir_begin = beg, ir_end = fin, ir_type = t, ir_permissions = perm\<rparr>])"
  by (simp add: append_initial_page_source_def)

lemma descriptor_loop_room:
  assumes "length source + n \<le> cap" "\<forall>r \<in> set source. ir_begin r < ir_end r"
  shows "\<exists>source'. descriptor_loop L E cap perm step n iter source = Some source' \<and>
    length source' \<le> length source + n \<and> (\<forall>r \<in> set source'. ir_begin r < ir_end r)"
  using assms
proof (induction n arbitrary: iter source)
  case (Suc n)
  let ?d = "descriptor_at E iter"
  let ?beg = "md_physical_start ?d" and ?len = "md_number_of_pages ?d * UEFIPageSize"
  have IH: "\<exists>source'. descriptor_loop L E cap perm step n (iter + step) s = Some source' \<and>
    length source' \<le> length s + n \<and> (\<forall>r \<in> set source'. ir_begin r < ir_end r)"
    if "length s \<le> Suc (length source)" "\<forall>r \<in> set s. ir_begin r < ir_end r" for s
    using Suc.IH [of s] Suc.prems(1) that by auto
  show ?case
  proof (cases "md_number_of_pages ?d > NOT 0 div UEFIPageSize \<or> ?len = 0 \<or> ?len > NOT 0 - ?beg \<or>
      descriptor_page_type L (md_type ?d) = None")
    case True
    then have "descriptor_loop L E cap perm step (Suc n) iter source =
        descriptor_loop L E cap perm step n (iter + step) source"
      by (auto simp: Let_def)
    then show ?thesis using IH [of source] Suc.prems(2) by auto
  next
    case False
    then obtain t where t: "descriptor_page_type L (md_type ?d) = Some t" by auto
    have lt: "?beg < ?beg + ?len" using False by (intro sum_above) auto
    let ?s = "source @ [\<lparr>ir_begin = ?beg, ir_end = ?beg + ?len, ir_type = t, ir_permissions = perm\<rparr>]"
    have "descriptor_loop L E cap perm step (Suc n) iter source =
        descriptor_loop L E cap perm step n (iter + step) ?s"
      using False t append_source_room [OF _ lt, of source cap t perm] Suc.prems(1) by (simp add: Let_def)
    then show ?thesis using IH [of ?s] Suc.prems(2) lt by auto
  qed
qed simp

end
