(* ===== verification/Framebuffer.thy ===== *)
theory Framebuffer
  imports Registry_Ops
begin

text \<open>
  What the registry holds after \<open>MapFramebufferPages\<close>: every byte of the frame buffer is mapped at its
  own address in the kernel's address space, whatever runs of equal memory type the loop formed.
\<close>

definition identity_at :: "'h page_lib \<Rightarrow> 'h memory \<Rightarrow> stduint \<Rightarrow> bool" where
  "identity_at L m y \<longleftrightarrow> (\<exists>t perm. reg m (kernel_paging L) y = Some (y, t, perm))"

lemma map_run_identity:
  assumes "mem_ok m" "map_run L a b t m = Some (True, m')" "PAGESIZE_4KB L = 12"
  shows "mem_ok m'" "identity_at L m y \<Longrightarrow> identity_at L m' y"
    "a \<le> y \<Longrightarrow> y < b \<Longrightarrow> identity_at L m' y"
proof -
  let ?props = "PGPROP_present L OR PGPROP_writable L OR t OR PGOPTS_omit_warnings L"
  have "mem_ok m' \<and> (identity_at L m y \<longrightarrow> identity_at L m' y) \<and> (a \<le> y \<and> y < b \<longrightarrow> identity_at L m' y)"
    using assms(1)
  proof (cases rule: MapPages_cases [where L = L and p = "kernel_paging L" and la = a and pa = a and
        len = "b - a" and ps = "PAGESIZE_ANY L" and props = ?props])
    case zero
    then show ?thesis using assms(1,2) by (auto simp: map_run_def dest: le_less_trans)
  next
    case (fail m2)
    then show ?thesis using assms(2) by (simp add: map_run_def)
  next
    case (ok req m2)
    then have m': "m' = m2" using assms(2) by (simp add: map_run_def)
    have p: "mr_paging req = kernel_paging L" using Normalize_rec_ok [OF ok(3)] by simp
    have new: "identity_at L m' y" if "y \<in> addrs (mr_virtual_range req)"
      using ok(6) that p Normalize_target [OF ok(3) assms(3), of y]
      by (auto simp: m' identity_at_def reg_put_def hits_iff target_def)
    have old: "reg m' (kernel_paging L) y = reg m (kernel_paging L) y" if "y \<notin> addrs (mr_virtual_range req)"
      using ok(6) that by (auto simp: m' reg_put_def hits_iff)
    note cov = Normalize_range(2,3) [OF ok(3) assms(3)]
    have "y \<in> addrs (mr_virtual_range req)" if y: "a \<le> y" "y < b"
    proof -
      have "a \<le> b" using y by (meson le_less_trans less_imp_le)
      then have "unat b = unat a + unat (b - a)" by (simp add: unat_sub word_le_nat_alt)
      then have "unat y < unat (pr_end (mr_virtual_range req))" using cov(2) y(2) by (simp add: word_less_nat_alt)
      then show ?thesis using cov(1) y(1) by (auto simp: word_less_nat_alt intro: order_trans)
    qed
    then show ?thesis using new old ok(4) m' by (cases "y \<in> addrs (mr_virtual_range req)") (auto simp: identity_at_def)
  qed
  then show "mem_ok m'" "identity_at L m y \<Longrightarrow> identity_at L m' y"
    "a \<le> y \<Longrightarrow> y < b \<Longrightarrow> identity_at L m' y" by auto
qed

lemma framebuffer_runs_identity:
  assumes "mem_ok m" "PAGESIZE_4KB L = 12"
    "framebuffer_runs L wc pa len addresses run_begin run_type fin m = Some (True, m')"
  shows "mem_ok m' \<and> (identity_at L m y \<or> run_begin \<le> y \<and> y < fin \<longrightarrow> identity_at L m' y)"
  using assms(1,3)
proof (induction addresses arbitrary: run_begin run_type m)
  case Nil
  then show ?case using map_run_identity [OF Nil(1) _ assms(2)] by auto
next
  case (Cons address rest)
  obtain t where t: "select_type L wc pa len (page_tables m) address = Some t"
    using Cons.prems(2) by (auto split: option.splits)
  let ?rt = "if run_type = PGTYPE_default L then t else run_type"
  show ?case
  proof (cases "t = ?rt")
    case True
    then have "framebuffer_runs L wc pa len rest run_begin ?rt fin m = Some (True, m')"
      using Cons.prems(2) t by (simp add: Let_def)
    then show ?thesis using Cons.IH [OF Cons.prems(1)] by blast
  next
    case False
    then obtain m1 where m1: "map_run L run_begin address ?rt m = Some (True, m1)"
      "framebuffer_runs L wc pa len rest address t fin m1 = Some (True, m')"
      using Cons.prems(2) t by (auto simp: Let_def split: option.splits prod.splits bool.splits if_splits)
    note r = map_run_identity [OF Cons.prems(1) m1(1) assms(2)]
    have "mem_ok m' \<and> (identity_at L m1 y \<or> address \<le> y \<and> y < fin \<longrightarrow> identity_at L m' y)"
      using Cons.IH [OF r(1) m1(2)] .
    then show ?thesis using r(2,3) [of y] by (cases "y < address") (auto simp: not_less)
  qed
qed

lemma MapFramebuffer_identity:
  assumes "mem_ok m" "PAGESIZE_4KB L = 12" "MapFramebufferPages L pa len m = Some (True, m')"
    "unat pa \<le> unat y" "unat y < unat pa + unat len"
  shows "mem_ok m' \<and> identity_at L m' y"
proof -
  let ?beg = "pa AND NOT (PAGE_SIZE - 1)" and ?fin = "(pa + len + PAGE_SIZE - 1) AND NOT (PAGE_SIZE - 1)"
  have g: "\<not> len > NOT 0 - pa" "\<not> pa + len > NOT 0 - (PAGE_SIZE - 1)"
    using assms(3) by (auto simp: MapFramebufferPages_def split: if_splits)
  obtain wc where runs: "framebuffer_runs L wc pa len (page_addresses ?beg ?fin) ?beg (PGTYPE_default L) ?fin m =
      Some (True, m')"
    using assms(3) by (auto simp: MapFramebufferPages_def Let_def split: if_splits)
  have mask: "PAGE_SIZE - 1 = (mask 12 :: stduint)" by (simp add: PAGE_SIZE_def mask_eq_exp_minus_1)
  have "?beg \<le> pa" by (rule word_and_le2)
  then have "?beg \<le> y" using assms(4) by (auto simp: word_le_nat_alt)
  moreover have "y < ?fin"
  proof -
    have "pa \<le> pa + len" using g(1) no_overflow_iff [of len pa] by (simp add: not_less)
    then have "unat (pa + len) = unat pa + unat len" by (rule iffD1 [OF unat_plus_simple])
    then have lt: "y < pa + len" using assms(5) by (simp add: word_less_nat_alt)
    have "mask 12 \<le> mask 12 + (pa + len)"
      using g(2) no_overflow_iff [of "pa + len" "mask 12"] unfolding mask by (simp add: not_less)
    then have "pa + len \<le> mask 12 + (pa + len)" by (rule iffD1 [OF olen_add_eqv])
    then have "pa + len \<le> pa + len + mask 12" by (simp only: add.commute)
    then have le: "pa + len \<le> (pa + len + mask 12) AND NOT (mask 12)" by (rule round_up_le)
    have e: "pa + len + PAGE_SIZE - 1 = pa + len + mask 12" by (simp add: mask flip: add_diff_eq)
    show ?thesis unfolding e mask by (rule order.strict_trans2 [OF lt le])
  qed
  ultimately show ?thesis using framebuffer_runs_identity [OF assms(1,2) runs, of y] by blast
qed

end
