(* ===== verification/Page_Claims.thy ===== *)
theory Page_Claims
  imports Plan_Build Framebuffer
begin

text \<open>
  The properties of the mapping registry and of the plan of initial mappings. The witnesses use a
  library in which every mapping succeeds, with one bit for each permission and three for the memory
  type.
\<close>

section \<open>A library for the witnesses\<close>

definition sample_lib :: "unit page_lib" where
  "sample_lib = \<lparr>NormalizePageProperties = (\<lambda>p. Some (p AND 0xFF)),
     PageTypeSupported = (\<lambda>t. True), isSupportedSize = (\<lambda>s. s = 12 \<or> s = 21), PagingPATEnabled = True,
     PAGESIZE_ANY = 0, PAGESIZE_4KB = 12, PAGESIZE_2MB = 21,
     PGPROP_present = 1, PGPROP_writable = 2, PGPROP_user_access = 4, PGPROP_global = 8,
     PGPROP_nonexecutable = 16, PGPROP_weak = 0x200, PGPROP_MASK_TYPE = 0xE0, PGOPTS_omit_warnings = 0x100,
     PGTYPE_default = 0, PGTYPE_writeback = 0x20, PGTYPE_writethrough = 0x40, PGTYPE_uncacheable = 0x60,
     PGTYPE_writecombine = 0x80, PGTYPE_device = 0xA0, PGTYPE_noncacheable = 0xC0, kernel_paging = 2,
     Paging_Map = (\<lambda>p la pa len ps props h. (True, h)), Paging_Unmap = (\<lambda>p la len h. (True, h)),
     Paging_getEntry = (\<lambda>p va h. None), Paging_physical = (\<lambda>p va h. 0)\<rparr>"

definition sample_memory :: "unit memory" where
  "sample_memory = \<lparr>physical_mapping_records = [], mempool_results = [0x100, 0x200, 0x300, 0x400],
     mempool_freed = [], page_tables = ()\<rparr>"

lemma sample_memory_ok: "mem_ok sample_memory"
  by (simp add: mem_ok_def sample_memory_def)

definition sample_mapped :: "unit memory" where
  "sample_mapped = \<lparr>physical_mapping_records = [(0x100, \<lparr>mr_paging = 2,
       mr_virtual_range = \<lparr>pr_begin = 0x1000, pr_end = 0x4000\<rparr>,
       mr_physical_range = \<lparr>pr_begin = 0x9000, pr_end = 0xC000\<rparr>, mr_type = 0x20, mr_permissions = 2\<rparr>)],
     mempool_results = [0x200, 0x300, 0x400], mempool_freed = [], page_tables = ()\<rparr>"

lemma sample_MapPages:
  "MapPages sample_lib 2 0x1000 0x9000 0x3000 0 0x23 sample_memory = Some (True, sample_mapped)"
  by code_simp

lemma sample_mapped_ok: "mem_ok sample_mapped"
  by (simp add: mem_ok_def sample_mapped_def rec_ok_def)

definition sample_split :: "unit memory" where
  "sample_split = \<lparr>physical_mapping_records =
      [(0x100, \<lparr>mr_paging = 2, mr_virtual_range = \<lparr>pr_begin = 0x1000, pr_end = 0x2000\<rparr>,
         mr_physical_range = \<lparr>pr_begin = 0x9000, pr_end = 0xA000\<rparr>, mr_type = 0x20, mr_permissions = 2\<rparr>),
       (0x200, \<lparr>mr_paging = 2, mr_virtual_range = \<lparr>pr_begin = 0x3000, pr_end = 0x4000\<rparr>,
         mr_physical_range = \<lparr>pr_begin = 0xB000, pr_end = 0xC000\<rparr>, mr_type = 0x20, mr_permissions = 2\<rparr>)],
     mempool_results = [0x300, 0x400], mempool_freed = [], page_tables = ()\<rparr>"

lemma sample_UnmapPages: "UnmapPages sample_lib 2 0x2000 0x1000 sample_mapped = Some (True, sample_split)"
  by code_simp

lemma sample_sizes [simp]: "PAGESIZE_4KB sample_lib = 12" "PAGESIZE_ANY sample_lib = 0"
  by (simp_all add: sample_lib_def)

section \<open>Ranges\<close>

text \<open>C35: Removing one non-empty range from another always succeeds, and the fragments hold exactly the
  addresses of the first range that are not in the second. There are at most two fragments, in
  ascending order.\<close>

theorem SubtractPhysicalRange_difference:
  assumes "pr_begin source < pr_end source" "pr_begin removed < pr_end removed"
  shows "case SubtractPhysicalRange source removed of
      None \<Rightarrow> False
    | Some rs \<Rightarrow> \<Union> (addrs ` set rs) = addrs source - addrs removed \<and> length rs \<le> 2 \<and>
        sorted_wrt (\<lambda>p q. pr_end p \<le> pr_begin q) rs"
proof -
  obtain rs where rs: "SubtractPhysicalRange source removed = Some rs" using Subtract_total [OF assms] by blast
  have "x \<in> \<Union> (addrs ` set rs) \<longleftrightarrow> x \<in> addrs source - addrs removed" for x
    using Subtract_set [OF rs, of x] by (simp del: mem_addrs)
  then show ?thesis using rs Subtract_shape [OF rs] by (simp add: set_eq_iff del: mem_addrs)
qed

theorem SubtractPhysicalRange_difference_witness:
  "case SubtractPhysicalRange \<lparr>pr_begin = 0x1000, pr_end = 0x5000\<rparr> \<lparr>pr_begin = 0x2000, pr_end = 0x3000\<rparr> of
      None \<Rightarrow> False
    | Some rs \<Rightarrow> \<Union> (addrs ` set rs) = addrs \<lparr>pr_begin = 0x1000, pr_end = 0x5000\<rparr> -
          addrs \<lparr>pr_begin = 0x2000, pr_end = 0x3000\<rparr> \<and> length rs \<le> 2 \<and>
        sorted_wrt (\<lambda>p q. pr_end p \<le> pr_begin q) rs"
  by (rule SubtractPhysicalRange_difference) simp_all



section \<open>The registry\<close>



text \<open>C6: \<open>MapPages\<close> always returns: on a well-formed registry none of the assertions of the commit can
  fail, because the preparation reserves exactly the nodes that the commit takes. The registry stays
  well formed, no node is lost or given back twice, and a call that fails, for whatever reason, leaves
  every record as it was.\<close>

theorem MapPages_total:
  assumes "mem_ok m"
  shows "case MapPages L p la pa len ps props m of
      None \<Rightarrow> False
    | Some (b, m') \<Rightarrow> mem_ok m' \<and> balance m' = balance m \<and>
        (b \<or> physical_mapping_records m' = physical_mapping_records m)"
  using assms
proof (cases rule: MapPages_cases [where L = L and p = p and la = la and pa = pa and len = len and
      ps = ps and props = props])
  case (fail m2)
  then show ?thesis using assms by (simp add: same_registry_def mem_ok_def)
qed (use assms in auto)

theorem MapPages_total_witness:
  "case MapPages sample_lib 2 0x2000 0x5000 0x1000 0 0xA3 sample_mapped of
      None \<Rightarrow> False
    | Some (b, m') \<Rightarrow> mem_ok m' \<and> balance m' = balance sample_mapped \<and>
        (b \<or> physical_mapping_records m' = physical_mapping_records sample_mapped)"
  by (rule MapPages_total) (rule sample_mapped_ok)



text \<open>C31: Two mappings of one physical address never disagree about its memory type unless the older one
  is ordinary memory: when \<open>MapPages\<close> succeeds, every other record whose physical range meets the new
  one has a type that \<open>PhysicalPageTypesCompatible\<close> accepts.\<close>

theorem MapPages_types_compatible:
  assumes "mem_ok m" "len \<noteq> 0" "MapPages L p la pa len ps props m = Some (True, m')"
    "NormalizeMapRequest L p la pa len ps props = Some req" "n \<in> set (tl (physical_mapping_records m'))"
    "PhysicalRangesOverlap (mr_physical_range (snd n)) (mr_physical_range req)"
  shows "PhysicalPageTypesCompatible L (mr_type (snd n)) (mr_type req)"
  using assms(1)
proof (cases rule: MapPages_cases [where L = L and p = p and la = la and pa = pa and len = len and
      ps = ps and props = props])
  case (ok req2 m2)
  then have "\<not> MappingTypeConflicts L (snd n) req" using assms(3-5) by auto
  then show ?thesis using assms(6) by (simp add: MappingTypeConflicts_def)
qed (use assms in auto)

text \<open>Two mappings of the same physical page, the second one uncacheable device memory.\<close>

definition sample_alias :: "unit memory" where
  "sample_alias = \<lparr>physical_mapping_records =
      [(0x200, \<lparr>mr_paging = 3, mr_virtual_range = \<lparr>pr_begin = 0x7000, pr_end = 0x8000\<rparr>,
         mr_physical_range = \<lparr>pr_begin = 0x9000, pr_end = 0xA000\<rparr>, mr_type = 0xA0, mr_permissions = 2\<rparr>),
       (0x100, \<lparr>mr_paging = 2, mr_virtual_range = \<lparr>pr_begin = 0x1000, pr_end = 0x4000\<rparr>,
         mr_physical_range = \<lparr>pr_begin = 0x9000, pr_end = 0xC000\<rparr>, mr_type = 0x20, mr_permissions = 2\<rparr>)],
     mempool_results = [0x300, 0x400], mempool_freed = [], page_tables = ()\<rparr>"

theorem MapPages_types_compatible_witness:
  "PhysicalPageTypesCompatible sample_lib 0x20 0xA0"
proof -
  let ?n = "hd (tl (physical_mapping_records sample_alias))"
  have "PhysicalPageTypesCompatible sample_lib (mr_type (snd ?n))
      (mr_type (snd (hd (physical_mapping_records sample_alias))))"
  proof (rule MapPages_types_compatible [OF sample_mapped_ok])
    show "MapPages sample_lib 3 0x7000 0x9000 0x1000 0 0xA3 sample_mapped = Some (True, sample_alias)"
      by code_simp
    show "NormalizeMapRequest sample_lib 3 0x7000 0x9000 0x1000 0 0xA3 =
        Some (snd (hd (physical_mapping_records sample_alias)))" by code_simp
  qed (simp_all add: sample_alias_def PhysicalRangesOverlap_def)
  then show ?thesis by (simp add: sample_alias_def)
qed

text \<open>C11: Over any sequence of \<open>MapPages\<close>, \<open>UnmapPages\<close> and \<open>ReleasePagingMappings\<close> from an empty registry,
  no virtual address of an address space has two records, every record is well formed, and every node
  the allocator has handed out is either in the chain or has been given back, exactly as often as it
  was handed out.\<close>

theorem registry_run_sound:
  assumes "(memory_step L)\<^sup>*\<^sup>* m m'" "physical_mapping_records m = []" "mempool_freed m = []"
  shows "mem_ok m' \<and> mset (map fst (physical_mapping_records m')) + mset (mempool_freed m') +
      mset (filter valid_node (mempool_results m')) = mset (filter valid_node (mempool_results m))"
proof -
  have "mem_ok m" using assms(2) by (simp add: mem_ok_def)
  from run_inv [OF assms(1) this] show ?thesis using assms(2,3) by (simp add: balance_def)
qed

theorem registry_run_sound_witness:
  "mem_ok sample_split \<and> mset (map fst (physical_mapping_records sample_split)) +
      mset (mempool_freed sample_split) + mset (filter valid_node (mempool_results sample_split)) =
    mset (filter valid_node (mempool_results sample_memory))"
proof (rule registry_run_sound [of sample_lib])
  have "memory_step sample_lib sample_memory sample_mapped" by (rule memory_step.map [OF sample_MapPages])
  moreover have "memory_step sample_lib sample_mapped sample_split" by (rule memory_step.unmap [OF sample_UnmapPages])
  ultimately show "(memory_step sample_lib)\<^sup>*\<^sup>* sample_memory sample_split" by auto
qed (simp_all add: sample_memory_def)

end
