(* ===== verification/Plan_Claims.thy ===== *)
theory Plan_Claims
  imports Page_Claims
begin

text \<open>
  The properties of the plan of initial mappings and of the frame buffer's mapping, with the library
  of the registry's witnesses.
\<close>

section \<open>Samples\<close>

abbreviation region :: "stduint \<Rightarrow> stduint \<Rightarrow> stduint \<Rightarrow> InitialPageRegion" where
  "region a b t \<equiv> \<lparr>ir_begin = a, ir_end = b, ir_type = t, ir_permissions = 3\<rparr>"

definition sample_plan :: "InitialPageRegion list" where
  "sample_plan = [region 0x1000 0x3000 0x20, region 0x3000 0x4000 0xA0, region 0x4000 0x5000 0x20]"

lemma sample_plan_ok: "plan_ok sample_plan"
  by (simp add: plan_ok_def sample_plan_def mergeable_def InitialPageRegionAttributesEqual_def)

lemma sample_lib_stable: "normalize_stable sample_lib"
proof -
  have "(p AND 0xFF) AND NOT 0xE0 AND NOT (access_mask sample_lib) = 0" for p :: stduint
  proof -
    have "access_mask sample_lib = 0x1F" by (simp add: access_mask_def sample_lib_def)
    then have "(0xFF :: stduint) AND NOT 0xE0 AND NOT (access_mask sample_lib) = 0" by simp
    then show ?thesis by (simp add: and.assoc)
  qed
  then show ?thesis by (simp add: normalize_stable_def sample_lib_def and.assoc access_mask_def)
qed

lemma sample_lib_ok: "page_lib_ok sample_lib"
proof -
  have "(p OR 0x100) AND 0xFF = (p :: stduint) AND 0xFF" for p
    by (simp add: bit.conj_disj_distrib2)
  then show ?thesis using sample_lib_stable by (simp add: page_lib_ok_def) (simp add: sample_lib_def)
qed

lemma sample_build:
  "build_initial_page_plan sample_lib [region 0x1000 0x5000 0x20, region 0x3000 0x4000 0xA0] 4 = Some sample_plan"
  by code_simp

section \<open>Plans\<close>

text \<open>C34: The loop of \<open>OverlayInitialPageRegion\<close> that edits the plan in place, index by index, computes
  the list of the pieces that each region keeps outside the added range, in order; and the number of
  regions the function requires before it starts is exactly the number it will hold before merging.\<close>

theorem OverlayInitialPageRegion_in_place:
  "overlay_cut added 0 plan = concat (map (pieces added) plan) \<and>
   overlay_required added plan 1 = length (overlay_insert added (overlay_cut added 0 plan))"
  by (simp add: overlay_cut_eq overlay_required_eq cut_out_def overlay_insert_def Let_def min_def)

text \<open>C8: An overlay on an ordered plan gives an ordered plan with non-empty regions, in which no two
  neighbours could be merged; it fits in the array; and it has the attributes of the added region on
  its addresses and those of the old plan everywhere else.\<close>

theorem OverlayInitialPageRegion_overrides:
  assumes "plan_ok plan" "ir_begin added < ir_end added" "OverlayInitialPageRegion plan cap added = Some plan'"
  shows "plan_ok plan' \<and> length plan' \<le> cap \<and> (\<forall>x. plan_at plan' x =
    (if ir_begin added \<le> x \<and> x < ir_end added then Some (ir_type added, ir_permissions added)
     else plan_at plan x))"
  using overlay_spec(1,2) [OF assms] overlay_length(2) [OF assms]
  by (simp add: region_has_def region_attrs_def)

theorem OverlayInitialPageRegion_overrides_witness:
  "plan_ok sample_plan \<and> length sample_plan \<le> 4 \<and> (\<forall>x. plan_at sample_plan x =
    (if 0x3000 \<le> x \<and> x < 0x4000 then Some (0xA0, 3) else plan_at [region 0x1000 0x5000 0x20] x))"
  using OverlayInitialPageRegion_overrides [of "[region 0x1000 0x5000 0x20]" "region 0x3000 0x4000 0xA0" 4 sample_plan]
  by (simp add: plan_ok_def sample_plan_def OverlayInitialPageRegion_def overlay_cut.simps overlay_insert_def
    region_apart_def Let_def InitialPageRegionAttributesEqual_def)

text \<open>C15: The plan that \<open>build_initial_page_plan\<close> returns gives each address the attributes of the last
  source that covers it, with the permissions as the library normalises them, and no attributes where
  no source covers it.\<close>

theorem build_initial_page_plan_last_source:
  assumes "build_initial_page_plan L source cap = Some plan"
  shows "plan_ok plan \<and> plan_at plan x =
    (case find_last (\<lambda>r. ir_begin r \<le> x \<and> x < ir_end r) source of
       None \<Rightarrow> None
     | Some r \<Rightarrow> map_option region_attrs (NormalizeInitialPageRegion L r))"
proof -
  obtain ns where ns: "map (NormalizeInitialPageRegion L) source = map Some ns"
    "foldo (\<lambda>r plan. OverlayInitialPageRegion plan cap r) ns [] = Some plan"
    using plan_loop_fold assms unfolding build_initial_page_plan_def by blast
  note ne = normalized_nonempty [OF ns(1)]
  have "plan_at plan x = map_option region_attrs (find_last (\<lambda>r. region_has r x) ns)"
    using plan_map.look_fold [OF plan_ok_Nil ne ns(2), of x] by (simp split: option.splits)
  then show ?thesis using plan_map.fold_ok [OF plan_ok_Nil ne ns(2)] find_last_normalized [OF ns(1), of x]
    by (auto simp: region_has_def split: option.splits)
qed

theorem build_initial_page_plan_last_source_witness:
  "plan_ok sample_plan \<and> plan_at sample_plan 0x3800 = Some (0xA0, 3)"
proof -
  have "plan_ok sample_plan \<and> plan_at sample_plan 0x3800 =
    (case find_last (\<lambda>r. ir_begin r \<le> 0x3800 \<and> 0x3800 < ir_end r)
        [region 0x1000 0x5000 0x20, region 0x3000 0x4000 0xA0] of
       None \<Rightarrow> None
     | Some r \<Rightarrow> map_option region_attrs (NormalizeInitialPageRegion sample_lib r))"
    by (rule build_initial_page_plan_last_source [OF sample_build])
  then show ?thesis
    by (simp add: NormalizeInitialPageRegion_def sample_lib_def region_attrs_def Let_def)
qed

text \<open>C37: An array of twice as many entries as there are sources is always large enough: with that room,
  \<open>build_initial_page_plan\<close> fails only when a source is itself not a valid region. The UEFI build
  allocates its plan with exactly this room.\<close>

theorem build_initial_page_plan_room:
  assumes "2 * length source \<le> cap"
  shows "build_initial_page_plan L source cap = None \<longleftrightarrow>
    (\<exists>r \<in> set source. NormalizeInitialPageRegion L r = None)"
proof (cases "\<exists>r \<in> set source. NormalizeInitialPageRegion L r = None")
  case True
  then obtain r where r: "r \<in> set source" "NormalizeInitialPageRegion L r = None" by blast
  have "plan_loop L source [] cap \<noteq> Some plan" for plan
  proof
    assume "plan_loop L source [] cap = Some plan"
    from plan_loop_fold [OF this] obtain ns where "map (NormalizeInitialPageRegion L) source = map Some ns" by blast
    then have "NormalizeInitialPageRegion L r \<in> set (map Some ns)" using r(1) by (metis image_eqI list.set_map)
    then show False using r(2) by auto
  qed
  then show ?thesis using True by (auto simp: build_initial_page_plan_def)
next
  case False
  then show ?thesis using plan_loop_room [OF plan_ok_Nil, of source cap L] assms
    by (auto simp: build_initial_page_plan_def)
qed

theorem build_initial_page_plan_room_witness:
  "build_initial_page_plan sample_lib [region 0x1000 0x5000 0x20, region 0x3000 0x4000 0xA0] 4 = None \<longleftrightarrow>
    (\<exists>r \<in> set [region 0x1000 0x5000 0x20, region 0x3000 0x4000 0xA0].
      NormalizeInitialPageRegion sample_lib r = None)"
  by (rule build_initial_page_plan_room) simp



section \<open>Mapping the plan\<close>

definition sample_pool :: "unit memory" where
  "sample_pool = \<lparr>physical_mapping_records = [],
     mempool_results = [0x100, 0x200, 0x300, 0x400, 0x500, 0x600, 0x700, 0x800],
     mempool_freed = [], page_tables = ()\<rparr>"

lemma sample_pool_ok: "mem_ok sample_pool"
  by (simp add: mem_ok_def sample_pool_def)

lemma sample_plan_mapped: "map_option fst (MapInitialPagePlan sample_lib True 2 sample_plan sample_pool) = Some True"
  by code_simp



text \<open>C39: After \<open>MapFramebufferPages\<close> succeeded, every byte of the frame buffer is mapped at its own address
  in the kernel's address space, for every way in which the loop grouped its pages into runs of one
  memory type, and the registry is well formed.\<close>

theorem MapFramebufferPages_identity:
  assumes "mem_ok m" "PAGESIZE_4KB L = 12" "MapFramebufferPages L pa len m = Some (True, m')"
    "unat pa \<le> unat y" "unat y < unat pa + unat len"
  shows "mem_ok m' \<and> (\<exists>t perm. reg m' (kernel_paging L) y = Some (y, t, perm))"
  using MapFramebuffer_identity [OF assms] by (simp add: identity_at_def)

lemma sample_framebuffer: "map_option fst (MapFramebufferPages sample_lib 0x10000 0x1800 sample_memory) = Some True"
  by code_simp

theorem MapFramebufferPages_identity_witness:
  "case MapFramebufferPages sample_lib 0x10000 0x1800 sample_memory of
     None \<Rightarrow> False
   | Some (b, m') \<Rightarrow> b \<and> mem_ok m' \<and> (\<exists>t perm. reg m' (kernel_paging sample_lib) 0x11004 = Some (0x11004, t, perm))"
proof -
  obtain m' where m': "MapFramebufferPages sample_lib 0x10000 0x1800 sample_memory = Some (True, m')"
    using sample_framebuffer by (auto simp: map_option_case split: option.splits prod.splits)
  have "mem_ok m' \<and> (\<exists>t perm. reg m' (kernel_paging sample_lib) 0x11004 = Some (0x11004, t, perm))"
    by (rule MapFramebufferPages_identity [OF sample_memory_ok _ m']) simp_all
  then show ?thesis using m' by simp
qed

end
