(* ===== verification/Managed_Pages.thy ===== *)
theory Managed_Pages
  imports Prelude
begin

text \<open>
  The reference-counted physical pages of \<^verbatim>\<open>src/mecocoa/memoman-page.cpp\<close>: a table of 256 chains
  keyed by the page address, with a count of mappings and a count of cache references per page. A
  page goes back to the allocator when both counts are zero.

  A record owns its page, so a record is its page. The outcomes of the three allocations of
  \<open>AdoptManagedPage\<close> are arguments, as is \<open>owner_deletes\<close>: whether the shared pointer of the library
  runs its deleter when it cannot allocate its own state.
\<close>

section \<open>Data\<close>

datatype ManagedPageSource = Anonymous | File | ELF

record ManagedPage =
  mp_physical_address :: stduint
  mp_source :: ManagedPageSource
  mp_mapping_refs :: stduint
  mp_cache_refs :: stduint

definition managed_page_bucket_count :: stduint where
  "managed_page_bucket_count = 256"

record page_store =
  managed_page_records :: "ManagedPage list list"
  pages_freed :: "stduint list"

section \<open>Operations\<close>

text \<open>
  The link that \<open>FindManagedPageRecord\<close> returns is a chain and a position in it; the position is the
  end of the chain where the page is not there.
\<close>

definition page_bucket :: "stduint \<Rightarrow> nat" where
  "page_bucket physical_address =
     unat (physical_address div PAGE_SIZE mod managed_page_bucket_count)"

fun find_position :: "stduint \<Rightarrow> ManagedPage list \<Rightarrow> nat" where
  "find_position physical_address [] = 0"
| "find_position physical_address (page # rest) =
     (if mp_physical_address page \<noteq> physical_address
      then Suc (find_position physical_address rest) else 0)"

definition FindManagedPageRecord :: "stduint \<Rightarrow> page_store \<Rightarrow> nat \<times> nat" where
  "FindManagedPageRecord physical_address s =
     (let bucket = page_bucket physical_address in
      (bucket, find_position physical_address (managed_page_records s ! bucket)))"

definition link_record :: "nat \<times> nat \<Rightarrow> page_store \<Rightarrow> ManagedPage option" where
  "link_record link s =
     (let chain = managed_page_records s ! fst link in
      if snd link < length chain then Some (chain ! snd link) else None)"

definition put_record :: "nat \<times> nat \<Rightarrow> ManagedPage \<Rightarrow> page_store \<Rightarrow> page_store" where
  "put_record link page s = s\<lparr>managed_page_records := (managed_page_records s)
     [fst link := (managed_page_records s ! fst link)[snd link := page]]\<rparr>"

definition append_record :: "nat \<times> nat \<Rightarrow> ManagedPage \<Rightarrow> page_store \<Rightarrow> page_store" where
  "append_record link page s = s\<lparr>managed_page_records := (managed_page_records s)
     [fst link := managed_page_records s ! fst link @ [page]]\<rparr>"

definition unlink_record :: "nat \<times> nat \<Rightarrow> page_store \<Rightarrow> page_store" where
  "unlink_record link s =
     (let chain = managed_page_records s ! fst link in
      s\<lparr>managed_page_records := (managed_page_records s)
        [fst link := take (snd link) chain @ drop (Suc (snd link)) chain]\<rparr>)"

definition page_deallocate :: "stduint \<Rightarrow> page_store \<Rightarrow> page_store" where
  "page_deallocate physical_address s = s\<lparr>pages_freed := physical_address # pages_freed s\<rparr>"

definition ManagedPageDeleter :: "ManagedPage \<Rightarrow> page_store \<Rightarrow> page_store" where
  "ManagedPageDeleter page s =
     (if mp_physical_address page \<noteq> 0 then page_deallocate (mp_physical_address page) s else s)"

definition RetainManagedPageReference :: "stduint \<Rightarrow> bool \<Rightarrow> page_store \<Rightarrow> bool \<times> page_store" where
  "RetainManagedPageReference physical_address cache_reference s =
     (let link = FindManagedPageRecord physical_address s in
      case link_record link s of
        None \<Rightarrow> (False, s)
      | Some page \<Rightarrow>
          let count = (if cache_reference then mp_cache_refs page else mp_mapping_refs page) in
          if count = NOT 0 then (False, s)
          else (True, put_record link
            (if cache_reference then page\<lparr>mp_cache_refs := count + 1\<rparr>
             else page\<lparr>mp_mapping_refs := count + 1\<rparr>) s))"

definition ReleaseManagedPageReference :: "stduint \<Rightarrow> bool \<Rightarrow> page_store \<Rightarrow> bool \<times> page_store" where
  "ReleaseManagedPageReference physical_address cache_reference s =
     (let link = FindManagedPageRecord physical_address s in
      case link_record link s of
        None \<Rightarrow> (False, s)
      | Some page \<Rightarrow>
          let count = (if cache_reference then mp_cache_refs page else mp_mapping_refs page) in
          if count = 0 then (False, s)
          else
            let page = (if cache_reference then page\<lparr>mp_cache_refs := count - 1\<rparr>
                        else page\<lparr>mp_mapping_refs := count - 1\<rparr>)
            in
            if mp_mapping_refs page = 0 \<and> mp_cache_refs page = 0
            then (True, ManagedPageDeleter page (unlink_record link s))
            else (True, put_record link page s))"

definition AdoptManagedPage ::
  "bool \<Rightarrow> bool \<Rightarrow> bool \<Rightarrow> bool \<Rightarrow> stduint \<Rightarrow> ManagedPageSource \<Rightarrow> page_store \<Rightarrow> bool \<times> page_store" where
  "AdoptManagedPage new_page new_owner new_record owner_deletes physical_address source s =
     (if physical_address = 0 \<or> physical_address = NOT 0 \<or> physical_address AND (PAGE_SIZE - 1) \<noteq> 0
      then (False, if physical_address \<noteq> 0 \<and> physical_address \<noteq> NOT 0
                   then page_deallocate physical_address s else s)
      else if \<not> new_page then (False, page_deallocate physical_address s)
      else
        let page = \<lparr>mp_physical_address = physical_address, mp_source = source,
                    mp_mapping_refs = 1, mp_cache_refs = 0\<rparr>
        in
        if \<not> new_owner then (False, if owner_deletes then ManagedPageDeleter page s else s)
        else if \<not> new_record then (False, ManagedPageDeleter page s)
        else
          let link = FindManagedPageRecord physical_address s in
          if link_record link s = None then (True, append_record link page s)
          else (False, ManagedPageDeleter (page\<lparr>mp_physical_address := 0\<rparr>) s))"

definition RetainManagedPageMapping :: "stduint \<Rightarrow> page_store \<Rightarrow> bool \<times> page_store" where
  "RetainManagedPageMapping physical_address = RetainManagedPageReference physical_address False"

definition ReleaseManagedPageMapping :: "stduint \<Rightarrow> page_store \<Rightarrow> bool \<times> page_store" where
  "ReleaseManagedPageMapping physical_address = ReleaseManagedPageReference physical_address False"

definition RetainManagedPageCache :: "stduint \<Rightarrow> page_store \<Rightarrow> bool \<times> page_store" where
  "RetainManagedPageCache physical_address = RetainManagedPageReference physical_address True"

definition ReleaseManagedPageCache :: "stduint \<Rightarrow> page_store \<Rightarrow> bool \<times> page_store" where
  "ReleaseManagedPageCache physical_address = ReleaseManagedPageReference physical_address True"

text \<open>The \<open>ManagedPageInfo\<close> filled in has the four fields of the page.\<close>

definition QueryManagedPage :: "stduint \<Rightarrow> page_store \<Rightarrow> ManagedPage option" where
  "QueryManagedPage physical_address s = link_record (FindManagedPageRecord physical_address s) s"

end
