(* ===== verification/Managed_Props.thy ===== *)
theory Managed_Props
  imports Managed_Pages
begin

text \<open>
  The table of managed pages as a map from page addresses: an interface of four operations with its
  laws, proved for the chains of the code, and over it the life of a page from its adoption to the
  release of its last reference.
\<close>

section \<open>The interface of the table\<close>

locale page_map =
  fixes ok :: "'t \<Rightarrow> bool"
    and look :: "'t \<Rightarrow> 'k \<Rightarrow> 'v option"
    and key :: "'v \<Rightarrow> 'k"
    and ins :: "'v \<Rightarrow> 't \<Rightarrow> 't"
    and upd :: "'v \<Rightarrow> 't \<Rightarrow> 't"
    and del :: "'k \<Rightarrow> 't \<Rightarrow> 't"
  assumes look_key: "ok t \<Longrightarrow> look t k = Some v \<Longrightarrow> key v = k"
    and ins_ok: "ok t \<Longrightarrow> look t (key v) = None \<Longrightarrow> ok (ins v t)"
    and upd_ok: "ok t \<Longrightarrow> look t (key v) \<noteq> None \<Longrightarrow> ok (upd v t)"
    and del_ok: "ok t \<Longrightarrow> look t k \<noteq> None \<Longrightarrow> ok (del k t)"
    and look_ins: "ok t \<Longrightarrow> look t (key v) = None \<Longrightarrow> look (ins v t) = (look t)(key v \<mapsto> v)"
    and look_upd: "ok t \<Longrightarrow> look t (key v) \<noteq> None \<Longrightarrow> look (upd v t) = (look t)(key v \<mapsto> v)"
    and look_del: "ok t \<Longrightarrow> look t k \<noteq> None \<Longrightarrow> look (del k t) = (look t)(k := None)"
begin

text \<open>A property of the values is kept by storing values that have it.\<close>

lemma all_ins: "ok t \<Longrightarrow> look t (key v) = None \<Longrightarrow> \<forall>k w. look t k = Some w \<longrightarrow> P w \<Longrightarrow> P v \<Longrightarrow>
    \<forall>k w. look (ins v t) k = Some w \<longrightarrow> P w"
  by (auto simp: look_ins)

lemma all_upd: "ok t \<Longrightarrow> look t (key v) \<noteq> None \<Longrightarrow> \<forall>k w. look t k = Some w \<longrightarrow> P w \<Longrightarrow> P v \<Longrightarrow>
    \<forall>k w. look (upd v t) k = Some w \<longrightarrow> P w"
  using look_upd [of t v] by simp

lemma all_del: "ok t \<Longrightarrow> look t k \<noteq> None \<Longrightarrow> \<forall>j w. look t j = Some w \<longrightarrow> P w \<Longrightarrow>
    \<forall>j w. look (del k t) j = Some w \<longrightarrow> P w"
  using look_del [of t k] by simp

text \<open>Storing the old value again undoes an update.\<close>

lemma upd_back:
  assumes "ok t" "look t k = Some v" "key w = k"
  shows "look (upd v (upd w t)) = look t"
proof -
  have "key v = k" using look_key assms by blast
  moreover have "look (upd w t) = (look t)(k \<mapsto> w)" using look_upd [of t w] assms by simp
  moreover have "ok (upd w t)" using upd_ok [of t w] assms by simp
  ultimately show ?thesis using look_upd [of "upd w t" v] assms(2) by (simp add: fun_upd_idem)
qed

end

section \<open>The chains\<close>

definition table_ok :: "page_store \<Rightarrow> bool" where
  "table_ok s \<longleftrightarrow> length (managed_page_records s) = 256 \<and>
     (\<forall>b < 256. distinct (map mp_physical_address (managed_page_records s ! b)) \<and>
       (\<forall>page \<in> set (managed_page_records s ! b). page_bucket (mp_physical_address page) = b))"

lemma page_bucket_less [simp]: "page_bucket a < 256"
proof -
  have "unat (a div PAGE_SIZE mod 256) < unat (256 :: stduint)"
    unfolding word_less_nat_alt [symmetric] by (rule word_mod_less_divisor) simp
  then show ?thesis by (simp add: page_bucket_def managed_page_bucket_count_def)
qed

lemma find_position_le: "find_position a chain \<le> length chain"
  by (induction chain) auto

lemma find_position_find:
  "(if find_position a chain < length chain then Some (chain ! find_position a chain) else None) =
     List.find (\<lambda>page. mp_physical_address page = a) chain"
  by (induction chain) auto

lemma find_update:
  assumes "find_position a chain < length chain" "mp_physical_address page = a"
  shows "List.find (\<lambda>p. mp_physical_address p = b) (chain[find_position a chain := page]) =
      (if b = a then Some page else List.find (\<lambda>p. mp_physical_address p = b) chain)"
    and "map mp_physical_address (chain[find_position a chain := page]) = map mp_physical_address chain"
  using assms by (induction chain) (auto split: if_splits)

lemma find_snoc:
  assumes "List.find (\<lambda>p. mp_physical_address p = a) chain = None" "mp_physical_address page = a"
  shows "List.find (\<lambda>p. mp_physical_address p = b) (chain @ [page]) =
      (if b = a then Some page else List.find (\<lambda>p. mp_physical_address p = b) chain)"
  using assms by (induction chain) (auto split: if_splits)

lemma find_removed:
  assumes "find_position a chain < length chain" "distinct (map mp_physical_address chain)"
  defines "rest \<equiv> take (find_position a chain) chain @ drop (Suc (find_position a chain)) chain"
  shows "List.find (\<lambda>p. mp_physical_address p = b) rest =
      (if b = a then None else List.find (\<lambda>p. mp_physical_address p = b) chain)"
    and "set rest \<subseteq> set chain" and "distinct (map mp_physical_address rest)"
  using assms(1,2) unfolding rest_def
  by (induction chain) (auto simp: find_eq_None image_iff split: if_splits dest: in_set_takeD in_set_dropD)

lemma Query_find:
  "QueryManagedPage a s =
     List.find (\<lambda>p. mp_physical_address p = a) (managed_page_records s ! page_bucket a)"
  unfolding QueryManagedPage_def link_record_def FindManagedPageRecord_def Let_def fst_conv snd_conv
  by (rule find_position_find)

text \<open>The three changes of the table, at the link the code finds.\<close>

definition tab_ins :: "ManagedPage \<Rightarrow> page_store \<Rightarrow> page_store" where
  "tab_ins page s = append_record (FindManagedPageRecord (mp_physical_address page) s) page s"

definition tab_upd :: "ManagedPage \<Rightarrow> page_store \<Rightarrow> page_store" where
  "tab_upd page s = put_record (FindManagedPageRecord (mp_physical_address page) s) page s"

definition tab_del :: "stduint \<Rightarrow> page_store \<Rightarrow> page_store" where
  "tab_del a s = unlink_record (FindManagedPageRecord a s) s"

text \<open>All three replace one chain, so the table stays well-formed when that chain does.\<close>

lemma chain_replaced:
  assumes "table_ok s" "managed_page_records s' = (managed_page_records s)[page_bucket a := chain]"
    "distinct (map mp_physical_address chain)"
    "\<forall>p \<in> set chain. page_bucket (mp_physical_address p) = page_bucket a"
  shows "table_ok s'" "page_bucket b \<noteq> page_bucket a \<Longrightarrow> QueryManagedPage b s' = QueryManagedPage b s"
    "page_bucket b = page_bucket a \<Longrightarrow>
       QueryManagedPage b s' = List.find (\<lambda>p. mp_physical_address p = b) chain"
  using assms by (auto simp: table_ok_def Query_find nth_list_update)

lemma chain_of:
  assumes "table_ok s"
  shows "distinct (map mp_physical_address (managed_page_records s ! page_bucket a))"
    "\<forall>p \<in> set (managed_page_records s ! page_bucket a). page_bucket (mp_physical_address p) = page_bucket a"
    "page_bucket a < length (managed_page_records s)"
  using assms by (auto simp: table_ok_def)

lemma Query_key: "QueryManagedPage a s = Some page \<Longrightarrow> mp_physical_address page = a"
  unfolding Query_find by (auto dest: find_eq_SomeD)

lemma Query_position:
  "QueryManagedPage a s \<noteq> None \<longleftrightarrow>
     find_position a (managed_page_records s ! page_bucket a) < length (managed_page_records s ! page_bucket a)"
  by (simp add: QueryManagedPage_def link_record_def FindManagedPageRecord_def Let_def)

lemma tab_ins_at:
  assumes "table_ok s" "mp_physical_address page = a" "QueryManagedPage a s = None"
  shows "table_ok (tab_ins page s)"
    "QueryManagedPage b (tab_ins page s) = (if b = a then Some page else QueryManagedPage b s)"
proof -
  let ?chain = "managed_page_records s ! page_bucket a"
  have r: "managed_page_records (tab_ins page s) = (managed_page_records s)[page_bucket a := ?chain @ [page]]"
    by (simp add: tab_ins_def append_record_def FindManagedPageRecord_def Let_def assms(2))
  have none: "List.find (\<lambda>p. mp_physical_address p = a) ?chain = None" using assms(3) by (simp add: Query_find)
  then have d: "distinct (map mp_physical_address (?chain @ [page]))"
    using chain_of(1) [OF assms(1), of a] assms(2) by (auto simp: find_eq_None)
  have e: "\<forall>p \<in> set (?chain @ [page]). page_bucket (mp_physical_address p) = page_bucket a"
    using chain_of(2) [OF assms(1), of a] assms(2) by simp
  note c = chain_replaced [OF assms(1) r d e]
  show "table_ok (tab_ins page s)" by (rule c(1))
  show "QueryManagedPage b (tab_ins page s) = (if b = a then Some page else QueryManagedPage b s)"
  proof (cases "page_bucket b = page_bucket a")
    case True
    then show ?thesis using c(3) [OF True] find_snoc [OF none assms(2), of b] by (simp add: Query_find)
  next
    case False
    then show ?thesis using c(2) [OF False] by auto
  qed
qed

lemmas tab_ins_spec = tab_ins_at [OF _ refl]

lemma tab_upd_at:
  assumes "table_ok s" "mp_physical_address page = a" "QueryManagedPage a s \<noteq> None"
  shows "table_ok (tab_upd page s)"
    "QueryManagedPage b (tab_upd page s) = (if b = a then Some page else QueryManagedPage b s)"
proof -
  let ?chain = "managed_page_records s ! page_bucket a"
  let ?new = "?chain[find_position a ?chain := page]"
  have r: "managed_page_records (tab_upd page s) = (managed_page_records s)[page_bucket a := ?new]"
    by (simp add: tab_upd_def put_record_def FindManagedPageRecord_def Let_def assms(2))
  have pos: "find_position a ?chain < length ?chain" using assms(3) by (simp only: Query_position)
  have d: "distinct (map mp_physical_address ?new)"
    using chain_of(1) [OF assms(1), of a] find_update(2) [OF pos assms(2)] by simp
  have e: "\<forall>p \<in> set ?new. page_bucket (mp_physical_address p) = page_bucket a"
    using chain_of(2) [OF assms(1), of a] assms(2) set_update_subset_insert [of ?chain _ page] by blast
  note c = chain_replaced [OF assms(1) r d e]
  show "table_ok (tab_upd page s)" by (rule c(1))
  show "QueryManagedPage b (tab_upd page s) = (if b = a then Some page else QueryManagedPage b s)"
  proof (cases "page_bucket b = page_bucket a")
    case True
    then show ?thesis using c(3) [OF True] find_update(1) [OF pos assms(2), of b] by (simp add: Query_find)
  next
    case False
    then show ?thesis using c(2) [OF False] by auto
  qed
qed

lemmas tab_upd_spec = tab_upd_at [OF _ refl]

lemma tab_del_spec:
  assumes "table_ok s" "QueryManagedPage a s \<noteq> None"
  shows "table_ok (tab_del a s)"
    "QueryManagedPage b (tab_del a s) = (if b = a then None else QueryManagedPage b s)"
proof -
  let ?chain = "managed_page_records s ! page_bucket a"
  let ?new = "take (find_position a ?chain) ?chain @ drop (Suc (find_position a ?chain)) ?chain"
  have r: "managed_page_records (tab_del a s) = (managed_page_records s)[page_bucket a := ?new]"
    by (simp add: tab_del_def unlink_record_def FindManagedPageRecord_def Let_def)
  have pos: "find_position a ?chain < length ?chain" using assms(2) by (simp only: Query_position)
  note rem = find_removed [OF pos chain_of(1) [OF assms(1)]]
  have "\<forall>p \<in> set ?new. page_bucket (mp_physical_address p) = page_bucket a"
    using chain_of(2) [OF assms(1), of a] rem(2) by blast
  note c = chain_replaced [OF assms(1) r rem(3) this]
  show "table_ok (tab_del a s)" by (rule c(1))
  show "QueryManagedPage b (tab_del a s) = (if b = a then None else QueryManagedPage b s)"
  proof (cases "page_bucket b = page_bucket a")
    case True
    then show ?thesis using c(3) [OF True] rem(1) by (simp add: Query_find)
  next
    case False
    then show ?thesis using c(2) [OF False] by auto
  qed
qed

interpretation managed: page_map table_ok "\<lambda>s a. QueryManagedPage a s" mp_physical_address tab_ins tab_upd tab_del
  by unfold_locales (auto simp: Query_key tab_ins_spec tab_upd_spec tab_del_spec fun_eq_iff)

section \<open>References\<close>

definition refs :: "bool \<Rightarrow> ManagedPage \<Rightarrow> stduint" where
  "refs c page = (if c then mp_cache_refs page else mp_mapping_refs page)"

definition set_refs :: "bool \<Rightarrow> stduint \<Rightarrow> ManagedPage \<Rightarrow> ManagedPage" where
  "set_refs c n page = (if c then page\<lparr>mp_cache_refs := n\<rparr> else page\<lparr>mp_mapping_refs := n\<rparr>)"

lemma set_refs_simps [simp]:
  "mp_physical_address (set_refs c n page) = mp_physical_address page"
  "mp_source (set_refs c n page) = mp_source page"
  "refs d (set_refs c n page) = (if d = c then n else refs d page)"
  "set_refs c n (set_refs c k page) = set_refs c n page"
  "set_refs c (refs c page) page = page"
  by (auto simp: set_refs_def refs_def)

definition unreferenced :: "ManagedPage \<Rightarrow> bool" where
  "unreferenced page \<longleftrightarrow> refs False page = 0 \<and> refs True page = 0"

definition store_ok :: "page_store \<Rightarrow> bool" where
  "store_ok s \<longleftrightarrow> table_ok s \<and> (\<forall>a page. QueryManagedPage a s = Some page \<longrightarrow>
     \<not> unreferenced page \<and> mp_physical_address page \<noteq> 0)"

lemma Query_put [simp]:
  "QueryManagedPage a (s\<lparr>pages_freed := f\<rparr>) = QueryManagedPage a s"
  "table_ok (s\<lparr>pages_freed := f\<rparr>) = table_ok s"
  by (simp_all add: Query_find table_ok_def)

lemma tab_freed [simp]:
  "pages_freed (tab_ins page s) = pages_freed s" "pages_freed (tab_upd page s) = pages_freed s"
  "pages_freed (tab_del a s) = pages_freed s"
  by (simp_all add: tab_ins_def append_record_def tab_upd_def put_record_def tab_del_def unlink_record_def Let_def)

lemma Retain_eq:
  "RetainManagedPageReference a c s =
     (case QueryManagedPage a s of
        None \<Rightarrow> (False, s)
      | Some page \<Rightarrow> if refs c page = - 1 then (False, s)
          else (True, tab_upd (set_refs c (refs c page + 1) page) s))"
  by (auto simp: RetainManagedPageReference_def QueryManagedPage_def [symmetric] Let_def tab_upd_def refs_def
    set_refs_def Query_key split: option.splits)

lemma Release_eq:
  assumes "\<forall>page. QueryManagedPage a s = Some page \<longrightarrow> mp_physical_address page \<noteq> 0"
  shows "ReleaseManagedPageReference a c s =
     (case QueryManagedPage a s of
        None \<Rightarrow> (False, s)
      | Some page \<Rightarrow>
          if refs c page = 0 then (False, s)
          else
            let page = set_refs c (refs c page - 1) page in
            if unreferenced page then (True, (tab_del a s)\<lparr>pages_freed := a # pages_freed s\<rparr>)
            else (True, tab_upd page s))"
  using assms
  by (auto simp: ReleaseManagedPageReference_def QueryManagedPage_def [symmetric] Let_def tab_upd_def tab_del_def
    refs_def set_refs_def unreferenced_def ManagedPageDeleter_def page_deallocate_def unlink_record_def
    Query_key split: option.splits)

section \<open>Preservation\<close>

lemma store_ok_upd:
  assumes "store_ok s" "QueryManagedPage a s = Some page" "\<not> unreferenced (set_refs c n page)"
  shows "store_ok (tab_upd (set_refs c n page) s)"
  using assms managed.upd_ok [of s "set_refs c n page"] managed.look_upd [of s "set_refs c n page"]
  by (auto simp: store_ok_def Query_key fun_eq_iff split: if_splits)

lemma store_ok_del:
  assumes "store_ok s" "QueryManagedPage a s \<noteq> None"
  shows "store_ok ((tab_del a s)\<lparr>pages_freed := f\<rparr>)"
  using assms managed.del_ok [of s a] managed.look_del [of s a]
  by (auto simp: store_ok_def fun_eq_iff split: if_splits)

lemma Retain_ok:
  assumes "store_ok s" "RetainManagedPageReference a c s = (b, s')"
  shows "store_ok s'"
proof (cases "QueryManagedPage a s")
  case None
  then show ?thesis using assms by (simp add: Retain_eq)
next
  case (Some page)
  have "refs c page + 1 \<noteq> 0" if "refs c page \<noteq> - 1" using that by (metis add_eq_0_iff2)
  then have "\<not> unreferenced (set_refs c (refs c page + 1) page)" if "refs c page \<noteq> - 1"
    using that by (cases c) (auto simp: unreferenced_def)
  then show ?thesis using assms Some store_ok_upd [OF assms(1) Some] by (auto simp: Retain_eq split: if_splits)
qed

lemma Release_ok:
  assumes "store_ok s" "ReleaseManagedPageReference a c s = (b, s')"
  shows "store_ok s'"
proof -
  have nz: "\<forall>page. QueryManagedPage a s = Some page \<longrightarrow> mp_physical_address page \<noteq> 0"
    using assms(1) by (auto simp: store_ok_def)
  show ?thesis
    using assms store_ok_upd [OF assms(1)] store_ok_del [OF assms(1), of a] unfolding Release_eq [OF nz]
    by (auto simp: Let_def split: if_splits option.splits)
qed

lemma Adopt_cases:
  assumes "AdoptManagedPage np no nr od a src s = (b, s')"
  shows "b \<Longrightarrow> a \<noteq> 0 \<and> QueryManagedPage a s = None \<and>
      s' = tab_ins \<lparr>mp_physical_address = a, mp_source = src, mp_mapping_refs = 1, mp_cache_refs = 0\<rparr> s"
    and "\<not> b \<Longrightarrow> managed_page_records s' = managed_page_records s"
  using assms
  by (auto simp: AdoptManagedPage_def QueryManagedPage_def tab_ins_def Let_def page_deallocate_def
    ManagedPageDeleter_def split: if_splits)

lemma same_records:
  assumes "managed_page_records s' = managed_page_records s"
  shows "store_ok s' = store_ok s" "QueryManagedPage a s' = QueryManagedPage a s"
  using assms by (simp_all add: store_ok_def table_ok_def Query_find)

lemma Adopt_ok:
  assumes "store_ok s" "AdoptManagedPage np no nr od a src s = (b, s')"
  shows "store_ok s'"
proof (cases b)
  case True
  let ?page = "\<lparr>mp_physical_address = a, mp_source = src, mp_mapping_refs = 1, mp_cache_refs = 0\<rparr>"
  have A: "a \<noteq> 0" "QueryManagedPage a s = None" "s' = tab_ins ?page s" using Adopt_cases(1) [OF assms(2) True] by auto
  have "\<not> unreferenced ?page" by (simp add: unreferenced_def refs_def)
  then show ?thesis using assms(1) A managed.ins_ok [of s ?page] managed.look_ins [of s ?page]
    by (auto simp: store_ok_def fun_eq_iff split: if_splits)
next
  case False
  then show ?thesis using Adopt_cases(2) [OF assms(2)] assms(1) same_records(1) by blast
qed

section \<open>Runs\<close>

inductive page_step :: "page_store \<Rightarrow> page_store \<Rightarrow> bool" where
  adopt: "AdoptManagedPage np no nr od a src s = (b, s') \<Longrightarrow> page_step s s'"
| retain: "RetainManagedPageReference a c s = (b, s') \<Longrightarrow> page_step s s'"
| release: "ReleaseManagedPageReference a c s = (b, s') \<Longrightarrow> page_step s s'"

inductive_cases page_stepE: "page_step s s'"

lemma page_run_ok: "page_step\<^sup>*\<^sup>* s s' \<Longrightarrow> store_ok s \<Longrightarrow> store_ok s'"
  by (induction rule: rtranclp_induct) (auto elim!: page_stepE dest: Adopt_ok Retain_ok Release_ok)

definition empty_store :: page_store where
  "empty_store = \<lparr>managed_page_records = replicate 256 [], pages_freed = []\<rparr>"

lemma empty_store_ok: "store_ok empty_store"
  by (simp add: store_ok_def table_ok_def empty_store_def Query_find)

section \<open>The last reference\<close>

definition release_all :: "stduint \<Rightarrow> bool list \<Rightarrow> page_store \<Rightarrow> page_store" where
  "release_all a cs s = fold (\<lambda>c s. snd (ReleaseManagedPageReference a c s)) cs s"

lemma release_all_frees:
  assumes "store_ok s" "QueryManagedPage a s = Some page"
    "count_list cs False = unat (refs False page)" "count_list cs True = unat (refs True page)"
  shows "QueryManagedPage b (release_all a cs s) = (if b = a then None else QueryManagedPage b s) \<and>
    pages_freed (release_all a cs s) = a # pages_freed s"
  using assms
proof (induction cs arbitrary: s page)
  case Nil
  then show ?case by (auto simp: store_ok_def unreferenced_def unat_eq_0)
next
  case (Cons c cs)
  have c: "refs c page \<noteq> 0" using Cons.prems(3,4) by (cases c) (auto simp: unat_eq_0 [symmetric] split: if_splits)
  let ?p = "set_refs c (refs c page - 1) page"
  have dec: "unat (refs c page - 1) = unat (refs c page) - 1" using c by (simp add: unat_minus_one)
  have cnt: "count_list cs d = unat (refs d ?p)" for d
    using Cons.prems(3,4) dec by (cases c; cases d) auto
  have R: "ReleaseManagedPageReference a c s =
      (if unreferenced ?p then (True, (tab_del a s)\<lparr>pages_freed := a # pages_freed s\<rparr>) else (True, tab_upd ?p s))"
    using Cons.prems(1,2) c by (subst Release_eq) (auto simp: store_ok_def Let_def)
  show ?case
  proof (cases "unreferenced ?p")
    case True
    then have "cs = []" using cnt [of True] cnt [of False] by (cases cs) (auto simp: unreferenced_def split: if_splits)
    then show ?thesis using R True managed.look_del [of s a] Cons.prems(1,2)
      by (simp add: release_all_def store_ok_def fun_eq_iff)
  next
    case False
    have p: "mp_physical_address page = a" using Cons.prems(2) by (rule Query_key)
    have look: "QueryManagedPage d (tab_upd ?p s) = (if d = a then Some ?p else QueryManagedPage d s)" for d
      using managed.look_upd [of s ?p] Cons.prems(1,2) p by (simp add: store_ok_def fun_eq_iff)
    show ?thesis
      using Cons.IH [OF store_ok_upd [OF Cons.prems(1,2) False], of ?p] look cnt R False
      by (simp add: release_all_def)
  qed
qed

end
