(* ===== verification/Managed_Claims.thy ===== *)
theory Managed_Claims
  imports Managed_Props
begin

text \<open>
  The properties of the reference-counted pages: the invariant of the table over all runs, the counts,
  and the release of the last reference.
\<close>

section \<open>Samples\<close>

abbreviation sample_page :: ManagedPage where
  "sample_page \<equiv> \<lparr>mp_physical_address = 0x5000, mp_source = File, mp_mapping_refs = 1, mp_cache_refs = 0\<rparr>"

definition sample_store :: page_store where
  "sample_store = tab_ins sample_page empty_store"

lemma empty_query: "QueryManagedPage a empty_store = None"
  by (simp add: Query_find empty_store_def)

lemma sample_adopt:
  "AdoptManagedPage True True True False 0x5000 File empty_store = (True, sample_store)"
  using empty_query [of "0x5000"]
  by (simp add: AdoptManagedPage_def sample_store_def tab_ins_def QueryManagedPage_def PAGE_SIZE_def)

lemma sample_query:
  "QueryManagedPage a sample_store = (if a = 0x5000 then Some sample_page else None)"
  using managed.look_ins [of empty_store sample_page] empty_query empty_store_ok
  by (simp add: sample_store_def store_ok_def fun_eq_iff)

lemma sample_store_ok: "store_ok sample_store"
  by (rule Adopt_ok [OF empty_store_ok sample_adopt])

section \<open>Properties\<close>

text \<open>C32: In every state the operations on managed pages can reach from the empty table, a query for an
  address finds only a page with that address, and such a page has a reference: a page whose two
  counts are zero is never left in the table.\<close>

theorem managed_pages_referenced:
  assumes "page_step\<^sup>*\<^sup>* empty_store s" "QueryManagedPage a s = Some page"
  shows "mp_physical_address page = a \<and> a \<noteq> 0 \<and> (mp_mapping_refs page \<noteq> 0 \<or> mp_cache_refs page \<noteq> 0)"
  using page_run_ok [OF assms(1) empty_store_ok] assms(2) Query_key [OF assms(2)]
  by (auto simp: store_ok_def unreferenced_def refs_def)

theorem managed_pages_referenced_witness:
  "page_step\<^sup>*\<^sup>* empty_store sample_store \<and> QueryManagedPage 0x5000 sample_store = Some sample_page \<and>
   mp_cache_refs sample_page = 0 \<and> mp_physical_address sample_page = 0x5000 \<and> mp_mapping_refs sample_page \<noteq> 0"
proof -
  have run: "page_step\<^sup>*\<^sup>* empty_store sample_store"
    by (rule r_into_rtranclp) (rule page_step.adopt [OF sample_adopt])
  have query: "QueryManagedPage 0x5000 sample_store = Some sample_page" by (simp add: sample_query)
  show ?thesis using run query managed_pages_referenced [OF run query] by simp
qed



text \<open>C33: Taking a reference and releasing it again leaves every page as it was and gives nothing back.
  Taking it is refused only when the page is unknown or the count is at its maximum, so a count never
  wraps around.\<close>

theorem RetainReleaseManagedPage_restores:
  assumes "store_ok s" "QueryManagedPage a s = Some page" "refs c page \<noteq> - 1"
  shows "case RetainManagedPageReference a c s of (b, s') \<Rightarrow> b \<and>
    (case ReleaseManagedPageReference a c s' of (b', s'') \<Rightarrow> b' \<and> pages_freed s'' = pages_freed s \<and>
      (\<forall>k. QueryManagedPage k s'' = QueryManagedPage k s))"
proof -
  let ?p = "set_refs c (refs c page + 1) page" let ?s = "tab_upd ?p s"
  have key: "mp_physical_address page = a" by (rule Query_key [OF assms(2)])
  have t: "table_ok s" using assms(1) by (simp add: store_ok_def)
  have R: "RetainManagedPageReference a c s = (True, ?s)" using assms(2,3) by (simp add: Retain_eq)
  have ok: "store_ok ?s" by (rule Retain_ok [OF assms(1) R])
  have q: "QueryManagedPage a ?s = Some ?p"
    using managed.look_upd [OF t, of ?p] assms(2) key by (simp add: fun_eq_iff)
  have nz: "\<forall>page. QueryManagedPage a ?s = Some page \<longrightarrow> mp_physical_address page \<noteq> 0"
    using ok by (auto simp: store_ok_def)
  have "refs c page + 1 \<noteq> 0" using assms(3) by (metis add_eq_0_iff2)
  moreover have "\<not> unreferenced page" using assms(1,2) by (auto simp: store_ok_def)
  ultimately have S: "ReleaseManagedPageReference a c ?s = (True, tab_upd page ?s)"
    unfolding Release_eq [OF nz] q by (simp add: Let_def)
  have "(\<lambda>k. QueryManagedPage k (tab_upd page ?s)) = (\<lambda>k. QueryManagedPage k s)"
    using managed.upd_back [OF t assms(2), of ?p] key by simp
  then show ?thesis unfolding R prod.case S by (simp add: fun_eq_iff)
qed

theorem RetainReleaseManagedPage_restores_witness:
  "case RetainManagedPageReference 0x5000 True sample_store of (b, s') \<Rightarrow> b \<and>
    (case ReleaseManagedPageReference 0x5000 True s' of (b', s'') \<Rightarrow> b' \<and> pages_freed s'' = pages_freed sample_store \<and>
      (\<forall>k. QueryManagedPage k s'' = QueryManagedPage k sample_store))"
  by (rule RetainReleaseManagedPage_restores [OF sample_store_ok, where page = sample_page])
    (simp_all add: sample_query refs_def)

end
