(* ===== verification/Device_Events.thy ===== *)
theory Device_Events
  imports Scheduler
begin

text \<open>
  The per-thread queue of device events of \<^verbatim>\<open>src/mecocoa/message.cpp\<close>: events of one source are
  merged, a full queue spills into overflow slots, and full slots mark every entry so that the
  consumer rescans its device.

  \<open>uni::Queue\<close> is a library class: a first-in first-out queue over the array \<open>storage\<close>, whose \<open>Enqueue\<close>
  fails when it is full. How many of the eight elements of the array it uses is a parameter, \<open>limit\<close>.
  Delivery straight into the buffer of a waiting receiver (\<open>WriteDeviceEventMessage\<close>,
  \<open>device_event_proc\<close>) copies between address spaces and is not modelled.
\<close>

section \<open>The library queue\<close>

definition queue_Enqueue :: "nat \<Rightarrow> DeviceEvent \<Rightarrow> DeviceEvent list \<Rightarrow> DeviceEvent list option" where
  "queue_Enqueue limit event q = (if length q < limit then Some (q @ [event]) else None)"

fun queue_Dequeue :: "DeviceEvent list \<Rightarrow> (DeviceEvent \<times> DeviceEvent list) option" where
  "queue_Dequeue [] = None"
| "queue_Dequeue (event # q) = Some (event, q)"

section \<open>Merging\<close>

definition SameDeviceEventSource :: "DeviceEvent \<Rightarrow> DeviceEvent \<Rightarrow> bool" where
  "SameDeviceEventSource left right \<longleftrightarrow>
     ev_kind left = ev_kind right \<and> ev_device_handle left = ev_device_handle right \<and>
     ev_source left = ev_source right \<and> ev_generation left = ev_generation right"

definition MergeDeviceEvent :: "DeviceEvent \<Rightarrow> DeviceEvent \<Rightarrow> uint16 \<Rightarrow> DeviceEvent" where
  "MergeDeviceEvent target event extra_flags =
     (let total = (ucast (ev_count target) + ucast (ev_count event) :: uint64);
          target = target\<lparr>ev_count := (if total > 0xFFFFFFFF then 0xFFFFFFFF else ucast total)\<rparr>;
          target = target\<lparr>ev_sequence := ev_sequence event\<rparr>;
          target = target\<lparr>ev_flags := ev_flags target OR ev_flags event OR DeviceEventFlag_Coalesced OR extra_flags\<rparr>
      in
      if total > 0xFFFFFFFF then target\<lparr>ev_flags := ev_flags target OR DeviceEventFlag_Overflow\<rparr>
      else target)"

section \<open>Queueing\<close>

text \<open>
  The first loop of \<open>QueueDeviceEvent\<close> turns the queue once around. The result is the queue, whether an
  entry was merged, and whether the loop ran to its end; it stops where \<open>Dequeue\<close> or \<open>Enqueue\<close> fails.
\<close>

primrec coalesce_loop ::
  "nat \<Rightarrow> DeviceEvent \<Rightarrow> nat \<Rightarrow> DeviceEvent list \<Rightarrow> bool \<Rightarrow> DeviceEvent list \<times> bool \<times> bool" where
  "coalesce_loop limit event 0 q coalesced = (q, coalesced, True)"
| "coalesce_loop limit event (Suc n) q coalesced =
     (case queue_Dequeue q of
        None \<Rightarrow> (q, coalesced, False)
      | Some (p, q) \<Rightarrow>
          if \<not> SameDeviceEventSource p event \<or> coalesced then
            case queue_Enqueue limit p q of
              None \<Rightarrow> (q, coalesced, False)
            | Some q \<Rightarrow> coalesce_loop limit event n q coalesced
          else
            case queue_Enqueue limit (MergeDeviceEvent p event DeviceEventFlag_None) q of
              None \<Rightarrow> (q, True, False)
            | Some q \<Rightarrow> coalesce_loop limit event n q True)"

definition flag_overflow :: "DeviceEvent \<Rightarrow> DeviceEvent" where
  "flag_overflow e = e\<lparr>ev_flags := ev_flags e OR DeviceEventFlag_Overflow\<rparr>"

text \<open>The loop over the pending events once every slot is taken; a failing \<open>Dequeue\<close> ends it.\<close>

primrec mark_loop :: "nat \<Rightarrow> nat \<Rightarrow> DeviceEvent list \<Rightarrow> DeviceEvent list" where
  "mark_loop limit 0 q = q"
| "mark_loop limit (Suc n) q =
     (case queue_Dequeue q of
        None \<Rightarrow> q
      | Some (p, q) \<Rightarrow>
          mark_loop limit n (case queue_Enqueue limit (flag_overflow p) q of None \<Rightarrow> q | Some q \<Rightarrow> q))"

definition mark_slots :: "DeviceEventQueue \<Rightarrow> DeviceEvent list" where
  "mark_slots d = map (\<lambda>i. if overflow_used d ! i then flag_overflow (overflow d ! i) else overflow d ! i)
     [0..<OverflowCapacity]"

definition QueueDeviceEvent ::
  "nat \<Rightarrow> DeviceEventQueue option \<Rightarrow> DeviceEvent \<Rightarrow> bool \<times> DeviceEventQueue option" where
  "QueueDeviceEvent limit events event =
     (case events of
        None \<Rightarrow> (False, None)
      | Some d \<Rightarrow>
          let (q, coalesced, ended) = coalesce_loop limit event (length (pending d)) (pending d) False;
              d = d\<lparr>pending := q\<rparr>
          in
          if \<not> ended then (False, Some d)
          else if coalesced then (True, Some d)
          else
            case queue_Enqueue limit event q of
              Some q \<Rightarrow> (True, Some (d\<lparr>pending := q\<rparr>))
            | None \<Rightarrow>
                case List.find (\<lambda>i. overflow_used d ! i \<and> SameDeviceEventSource (overflow d ! i) event)
                  [0..<OverflowCapacity] of
                  Some i \<Rightarrow> (True, Some (d\<lparr>overflow := (overflow d)[i :=
                      MergeDeviceEvent (overflow d ! i) event DeviceEventFlag_Overflow]\<rparr>))
                | None \<Rightarrow>
                    case List.find (\<lambda>i. \<not> overflow_used d ! i) [0..<OverflowCapacity] of
                      Some i \<Rightarrow> (True, Some (d\<lparr>overflow := (overflow d)[i := flag_overflow event],
                        overflow_used := (overflow_used d)[i := True]\<rparr>))
                    | None \<Rightarrow> (False, Some (d\<lparr>pending := mark_loop limit (length q) q,
                        overflow := mark_slots d\<rparr>)))"

definition DequeueDeviceEvent ::
  "DeviceEventQueue option \<Rightarrow> (DeviceEvent \<times> DeviceEventQueue) option" where
  "DequeueDeviceEvent events =
     (case events of
        None \<Rightarrow> None
      | Some d \<Rightarrow>
          case queue_Dequeue (pending d) of
            Some (event, q) \<Rightarrow> Some (event, d\<lparr>pending := q\<rparr>)
          | None \<Rightarrow>
              case List.find (\<lambda>i. overflow_used d ! i) [0..<OverflowCapacity] of
                None \<Rightarrow> None
              | Some i \<Rightarrow> Some (overflow d ! i, d\<lparr>overflow := (overflow d)[i := null_event],
                  overflow_used := (overflow_used d)[i := False]\<rparr>))"

section \<open>Operations on threads\<close>

text \<open>
  The communication members of the threads are a function from thread addresses. \<open>prepared\<close> is the
  outcome of \<open>new DeviceEventQueue\<close>; between the two critical sections of \<open>device_event_prepare\<close> another
  core may have set the pointer, so the state of the second one is an argument.
\<close>

type_synonym comm = "ptr \<Rightarrow> CommBlock"

definition empty_events :: DeviceEventQueue where
  "empty_events = \<lparr>pending = [], overflow = replicate OverflowCapacity null_event,
     overflow_used = replicate OverflowCapacity False\<rparr>"

definition device_event_prepare :: "bool \<Rightarrow> ptr \<Rightarrow> comm \<Rightarrow> comm \<Rightarrow> bool \<times> comm" where
  "device_event_prepare prepared th c later =
     (if th = nullptr then (False, c)
      else if device_events (c th) \<noteq> None then (True, c)
      else if \<not> prepared then (False, later)
      else if device_events (later th) = None
      then (True, later(th := (later th)\<lparr>device_events := Some empty_events\<rparr>))
      else (True, later))"

definition device_event_release :: "ptr \<Rightarrow> comm \<Rightarrow> comm" where
  "device_event_release th c =
     (if th = nullptr then c else c(th := (c th)\<lparr>device_events := None\<rparr>))"

definition cancelled :: "stduint \<Rightarrow> uint32 \<Rightarrow> DeviceEvent \<Rightarrow> bool" where
  "cancelled device_handle generation event \<longleftrightarrow>
     ucast (ev_device_handle event) = device_handle \<and> ev_generation event = generation"

primrec cancel_loop :: "nat \<Rightarrow> stduint \<Rightarrow> uint32 \<Rightarrow> nat \<Rightarrow> DeviceEvent list \<Rightarrow> DeviceEvent list" where
  "cancel_loop limit handle generation 0 q = q"
| "cancel_loop limit handle generation (Suc n) q =
     (case queue_Dequeue q of
        None \<Rightarrow> q
      | Some (event, q) \<Rightarrow>
          if cancelled handle generation event then cancel_loop limit handle generation n q
          else cancel_loop limit handle generation n
            (case queue_Enqueue limit event q of None \<Rightarrow> q | Some q \<Rightarrow> q))"

definition cancel_slots :: "stduint \<Rightarrow> uint32 \<Rightarrow> DeviceEventQueue \<Rightarrow> DeviceEventQueue" where
  "cancel_slots handle generation d =
     (let gone = (\<lambda>i. overflow_used d ! i \<and> cancelled handle generation (overflow d ! i)) in
      d\<lparr>overflow := map (\<lambda>i. if gone i then null_event else overflow d ! i) [0..<OverflowCapacity],
        overflow_used := map (\<lambda>i. if gone i then False else overflow_used d ! i) [0..<OverflowCapacity]\<rparr>)"

definition device_event_cancel :: "nat \<Rightarrow> nat \<Rightarrow> stduint \<Rightarrow> uint32 \<Rightarrow> sched \<Rightarrow> comm \<Rightarrow> comm option" where
  "device_event_cancel limit t handle generation s c =
     do {
       th \<leftarrow> LocateThread t s;
       Some (if th = nullptr then c
             else
               case device_events (c th) of
                 None \<Rightarrow> c
               | Some d \<Rightarrow>
                   let d = d\<lparr>pending := cancel_loop limit handle generation (length (pending d)) (pending d)\<rparr>
                   in c(th := (c th)\<lparr>device_events := Some (cancel_slots handle generation d)\<rparr>))
     }"

end
