(* ===== verification/Event_Claims.thy ===== *)
theory Event_Claims
  imports Device_Events
begin

text \<open>
  The properties of the device event queue: turning the queue around is an update in place, no event is
  lost silently, and cancelling removes exactly the events of one device generation.
\<close>

section \<open>The loops\<close>

fun merge_first :: "DeviceEvent \<Rightarrow> DeviceEvent list \<Rightarrow> DeviceEvent list" where
  "merge_first event [] = []"
| "merge_first event (p # q) =
     (if SameDeviceEventSource p event then MergeDeviceEvent p event DeviceEventFlag_None # q
      else p # merge_first event q)"

abbreviation known :: "DeviceEvent \<Rightarrow> DeviceEvent list \<Rightarrow> bool" where
  "known event q \<equiv> \<exists>p \<in> set q. SameDeviceEventSource p event"

lemma coalesce_loop_rotated:
  assumes "length xs + length ys \<le> limit"
  shows "coalesce_loop limit event (length xs) (xs @ ys) c =
    (ys @ (if c then xs else merge_first event xs), c \<or> known event xs, True)"
  using assms
proof (induction xs arbitrary: ys c)
  case (Cons p xs)
  let ?m = "if \<not> SameDeviceEventSource p event \<or> c then p else MergeDeviceEvent p event DeviceEventFlag_None"
  have "coalesce_loop limit event (length (p # xs)) ((p # xs) @ ys) c =
      coalesce_loop limit event (length xs) (xs @ ys @ [?m]) (c \<or> SameDeviceEventSource p event)"
    using Cons.prems by (cases c; cases "SameDeviceEventSource p event") (simp_all add: queue_Enqueue_def)
  then show ?case using Cons.IH [of "ys @ [?m]" "c \<or> SameDeviceEventSource p event"] Cons.prems by auto
qed simp

lemma coalesce_loop_eq:
  "length q \<le> limit \<Longrightarrow> coalesce_loop limit event (length q) q False = (merge_first event q, known event q, True)"
  using coalesce_loop_rotated [of q "[]" limit event False] by simp

lemma mark_loop_rotated:
  "length xs + length ys \<le> limit \<Longrightarrow> mark_loop limit (length xs) (xs @ ys) = ys @ map flag_overflow xs"
  by (induction xs arbitrary: ys) (auto simp: queue_Enqueue_def)

lemma mark_loop_eq: "length q \<le> limit \<Longrightarrow> mark_loop limit (length q) q = map flag_overflow q"
  using mark_loop_rotated [of q "[]" limit] by simp

lemma cancel_loop_rotated:
  "length xs + length ys \<le> limit \<Longrightarrow> cancel_loop limit h g (length xs) (xs @ ys) =
     ys @ filter (\<lambda>e. \<not> cancelled h g e) xs"
  by (induction xs arbitrary: ys) (auto simp: queue_Enqueue_def)

lemma cancel_loop_eq:
  "length q \<le> limit \<Longrightarrow> cancel_loop limit h g (length q) q = filter (\<lambda>e. \<not> cancelled h g e) q"
  using cancel_loop_rotated [of q "[]" limit] by simp

section \<open>Sources\<close>

definition source_of :: "DeviceEvent \<Rightarrow> uint16 \<times> uint32 \<times> uint32 \<times> uint32" where
  "source_of e = (ev_kind e, ev_device_handle e, ev_source e, ev_generation e)"

lemma Same_iff: "SameDeviceEventSource a b \<longleftrightarrow> source_of a = source_of b"
  by (simp add: SameDeviceEventSource_def source_of_def)

lemma Merge_source [simp]: "source_of (MergeDeviceEvent a b f) = source_of a"
  by (simp add: MergeDeviceEvent_def source_of_def Let_def)

lemma flag_source [simp]: "source_of (flag_overflow e) = source_of e" "ev_count (flag_overflow e) = ev_count e"
  by (simp_all add: flag_overflow_def source_of_def)

lemma merge_first_sources: "map source_of (merge_first event q) = map source_of q"
  by (induction q) auto

definition overflowed :: "DeviceEvent \<Rightarrow> bool" where
  "overflowed e \<longleftrightarrow> ev_flags e AND DeviceEventFlag_Overflow \<noteq> 0"

lemma overflow_flag: "(f OR DeviceEventFlag_Overflow) AND DeviceEventFlag_Overflow \<noteq> 0"
proof -
  have "(f OR 4) AND 4 = (4 :: uint16)" by (simp add: bit.conj_disj_distrib2)
  then show ?thesis by (simp add: DeviceEventFlag_Overflow_def)
qed

lemma flag_overflowed: "overflowed (flag_overflow e)"
  using overflow_flag by (simp add: overflowed_def flag_overflow_def)

text \<open>Merging adds the counts, or saturates the count and raises the overflow flag.\<close>

lemma Merge_count:
  "unat (ev_count (MergeDeviceEvent a b f)) = unat (ev_count a) + unat (ev_count b) \<or>
   ev_count (MergeDeviceEvent a b f) = 0xFFFFFFFF \<and> overflowed (MergeDeviceEvent a b f)"
proof -
  let ?t = "ucast (ev_count a) + ucast (ev_count b) :: uint64"
  have b: "unat (ev_count a) < 2 ^ 32" "unat (ev_count b) < 2 ^ 32"
    using unsigned_less [of "ev_count a"] unsigned_less [of "ev_count b"] by simp_all
  have "unat (ucast x :: uint64) = unat x" if "unat x < 2 ^ 32" for x :: uint32
    using that by (simp add: unsigned_ucast_eq take_bit_nat_eq_self)
  then have t: "unat ?t = unat (ev_count a) + unat (ev_count b)"
    using b by (simp add: unat_word_ariths)
  show ?thesis
  proof (cases "?t > 0xFFFFFFFF")
    case True
    then show ?thesis using overflow_flag by (simp add: MergeDeviceEvent_def Let_def overflowed_def)
  next
    case False
    then have "unat ?t < 2 ^ 32" by (simp add: word_less_nat_alt)
    then have "unat (ucast ?t :: uint32) = unat ?t" by (simp add: unsigned_ucast_eq take_bit_nat_eq_self)
    then show ?thesis using False t by (simp add: MergeDeviceEvent_def Let_def)
  qed
qed

section \<open>What a queue holds\<close>

definition held :: "DeviceEventQueue \<Rightarrow> DeviceEvent \<Rightarrow> bool" where
  "held d e \<longleftrightarrow> e \<in> set (pending d) \<or> (\<exists>i < OverflowCapacity. overflow_used d ! i \<and> overflow d ! i = e)"

definition count_of :: "uint16 \<times> uint32 \<times> uint32 \<times> uint32 \<Rightarrow> DeviceEvent \<Rightarrow> nat" where
  "count_of k e = (if source_of e = k then unat (ev_count e) else 0)"

definition slot_count :: "uint16 \<times> uint32 \<times> uint32 \<times> uint32 \<Rightarrow> DeviceEventQueue \<Rightarrow> nat \<Rightarrow> nat" where
  "slot_count k d i = (if overflow_used d ! i then count_of k (overflow d ! i) else 0)"

lemma slot_count_pending [simp]: "slot_count k (d\<lparr>pending := q\<rparr>) i = slot_count k d i"
  by (cases "overflow_used d ! i") (simp_all add: slot_count_def)

text \<open>The number of events of a source that the queue stands for.\<close>

definition total_count :: "DeviceEventQueue \<Rightarrow> uint16 \<times> uint32 \<times> uint32 \<times> uint32 \<Rightarrow> nat" where
  "total_count d k = sum_list (map (count_of k) (pending d)) + (\<Sum>i<OverflowCapacity. slot_count k d i)"

definition events_ok :: "nat \<Rightarrow> DeviceEventQueue \<Rightarrow> bool" where
  "events_ok limit d \<longleftrightarrow> length (pending d) \<le> limit \<and> length (overflow d) = OverflowCapacity \<and>
     length (overflow_used d) = OverflowCapacity \<and> distinct (map source_of (pending d)) \<and>
     (\<forall>i < OverflowCapacity. \<forall>j < OverflowCapacity. i \<noteq> j \<longrightarrow> overflow_used d ! i \<longrightarrow> overflow_used d ! j \<longrightarrow>
        source_of (overflow d ! i) \<noteq> source_of (overflow d ! j))"

definition saturated :: "DeviceEventQueue \<Rightarrow> uint16 \<times> uint32 \<times> uint32 \<times> uint32 \<Rightarrow> bool" where
  "saturated d k \<longleftrightarrow> (\<exists>e. held d e \<and> source_of e = k \<and> ev_count e = 0xFFFFFFFF \<and> overflowed e)"

lemma sum_change:
  fixes f :: "nat \<Rightarrow> nat"
  assumes "i < n" "\<And>j. j < n \<Longrightarrow> j \<noteq> i \<Longrightarrow> g j = f j"
  shows "(\<Sum>j<n. g j) + f i = (\<Sum>j<n. f j) + g i"
proof -
  have "(\<Sum>j<n. g j) = g i + (\<Sum>j \<in> {..<n} - {i}. g j)" using assms(1) by (simp add: sum.remove)
  moreover have "(\<Sum>j<n. f j) = f i + (\<Sum>j \<in> {..<n} - {i}. f j)" using assms(1) by (simp add: sum.remove)
  moreover have "(\<Sum>j \<in> {..<n} - {i}. g j) = (\<Sum>j \<in> {..<n} - {i}. f j)" by (rule sum.cong) (auto simp: assms(2))
  ultimately show ?thesis by simp
qed

lemma Merge_total:
  "count_of k (MergeDeviceEvent p event f) = count_of k p + (if source_of p = k then unat (ev_count event) else 0) \<or>
   source_of p = k \<and> ev_count (MergeDeviceEvent p event f) = 0xFFFFFFFF \<and> overflowed (MergeDeviceEvent p event f)"
  using Merge_count [of p event f] by (auto simp: count_of_def)

lemma merge_first_total:
  assumes "known event q"
  shows "sum_list (map (count_of k) (merge_first event q)) = sum_list (map (count_of k) q) + count_of k event \<or>
    (\<exists>e \<in> set (merge_first event q). source_of e = k \<and> ev_count e = 0xFFFFFFFF \<and> overflowed e)"
  using assms
proof (induction q)
  case (Cons p q)
  show ?case
  proof (cases "SameDeviceEventSource p event")
    case True
    then show ?thesis using Merge_total [of k p event DeviceEventFlag_None] by (auto simp: Same_iff count_of_def)
  next
    case False
    then show ?thesis using Cons by auto
  qed
qed simp

section \<open>Every outcome\<close>

text \<open>The five ways in which \<open>QueueDeviceEvent\<close> can end.\<close>

lemma QueueDeviceEvent_cases:
  assumes "length (pending d) \<le> limit" "QueueDeviceEvent limit (Some d) event = (b, d')"
  obtains (merged) "known event (pending d)" "b" "d' = Some (d\<lparr>pending := merge_first event (pending d)\<rparr>)"
  | (queued) "\<not> known event (pending d)" "length (pending d) < limit" "b"
      "d' = Some (d\<lparr>pending := pending d @ [event]\<rparr>)"
  | (slot_merged) i where "i < OverflowCapacity" "overflow_used d ! i" "SameDeviceEventSource (overflow d ! i) event" "b"
      "d' = Some (d\<lparr>overflow := (overflow d)[i := MergeDeviceEvent (overflow d ! i) event DeviceEventFlag_Overflow]\<rparr>)"
  | (slot_taken) i where "i < OverflowCapacity" "\<not> overflow_used d ! i" "b"
      "\<forall>j < OverflowCapacity. overflow_used d ! j \<longrightarrow> \<not> SameDeviceEventSource (overflow d ! j) event"
      "d' = Some (d\<lparr>overflow := (overflow d)[i := flag_overflow event], overflow_used := (overflow_used d)[i := True]\<rparr>)"
  | (full) "\<not> b" "\<forall>j < OverflowCapacity. overflow_used d ! j"
      "d' = Some (d\<lparr>pending := map flag_overflow (pending d), overflow := mark_slots d\<rparr>)"
proof -
  have nm: "merge_first event (pending d) = pending d" if "\<not> known event (pending d)"
  proof -
    have "merge_first event q = q" if "\<not> known event q" for q using that by (induction q) auto
    then show ?thesis using that by blast
  qed
  note Q = assms(2) [unfolded QueueDeviceEvent_def option.case coalesce_loop_eq [OF assms(1)] Let_def prod.case]
  show ?thesis
  proof (cases "known event (pending d)")
    case True
    then show ?thesis using Q merged by auto
  next
    case False
    note [simp] = nm [OF False]
    show ?thesis
    proof (cases "length (pending d) < limit")
      case True
      then show ?thesis using Q False queued by (auto simp: queue_Enqueue_def)
    next
      case lim: False
      let ?same = "\<lambda>i. overflow_used d ! i \<and> SameDeviceEventSource (overflow d ! i) event"
      show ?thesis
      proof (cases "List.find ?same [0..<OverflowCapacity]")
        case (Some i)
        then show ?thesis using Q False lim slot_merged [of i] find_eq_SomeD [OF Some]
          by (simp add: queue_Enqueue_def)
      next
        case none: None
        then have ns: "\<forall>j < OverflowCapacity. overflow_used d ! j \<longrightarrow> \<not> SameDeviceEventSource (overflow d ! j) event"
          by (auto simp: find_eq_None)
        show ?thesis
        proof (cases "List.find (\<lambda>i. \<not> overflow_used d ! i) [0..<OverflowCapacity]")
          case (Some i)
          then show ?thesis using Q False lim none slot_taken [of i] find_eq_SomeD [OF Some] ns
            by (simp add: queue_Enqueue_def)
        next
          case None
          then have "\<forall>j < OverflowCapacity. overflow_used d ! j" by (auto simp: find_eq_None)
          then show ?thesis using Q False lim none None full
            by (simp add: queue_Enqueue_def mark_loop_eq [OF assms(1)] mark_slots_def)
        qed
      qed
    qed
  qed
qed

lemma mark_slots_nth: "i < OverflowCapacity \<Longrightarrow> mark_slots d ! i =
    (if overflow_used d ! i then flag_overflow (overflow d ! i) else overflow d ! i)"
  by (simp add: mark_slots_def)

lemma QueueDeviceEvent_ok:
  assumes "events_ok limit d" "QueueDeviceEvent limit (Some d) event = (b, Some d')"
  shows "events_ok limit d'"
proof -
  have lim: "length (pending d) \<le> limit" using assms(1) by (simp add: events_ok_def)
  show ?thesis
    using lim assms(2)
  proof (cases rule: QueueDeviceEvent_cases)
    case merged
    have "length (merge_first event (pending d)) = length (pending d)"
      using arg_cong [OF merge_first_sources, of length] by simp
    then show ?thesis using assms(1) merged by (simp add: events_ok_def merge_first_sources)
  next
    case queued
    then have "source_of event \<notin> source_of ` set (pending d)" by (auto simp: Same_iff)
    then show ?thesis using assms(1) queued by (simp add: events_ok_def)
  next
    case (slot_merged i)
    then show ?thesis using assms(1) by (auto simp: events_ok_def nth_list_update)
  next
    case (slot_taken i)
    then show ?thesis using assms(1) by (auto simp: events_ok_def nth_list_update Same_iff)
  next
    case full
    then show ?thesis using assms(1) by (auto simp: events_ok_def mark_slots_nth comp_def) (simp add: mark_slots_def)
  qed
qed

lemma QueueDeviceEvent_total:
  assumes "events_ok limit d" "QueueDeviceEvent limit (Some d) event = (True, Some d')"
  shows "total_count d' k = total_count d k + count_of k event \<or> saturated d' k"
proof -
  have ok: "length (pending d) \<le> limit" "length (overflow d) = OverflowCapacity"
    "length (overflow_used d) = OverflowCapacity" using assms(1) by (simp_all add: events_ok_def)
  show ?thesis
    using ok(1) assms(2)
  proof (cases rule: QueueDeviceEvent_cases)
    case merged
    then show ?thesis using merge_first_total [OF merged(1), of k]
      by (auto simp: total_count_def saturated_def held_def)
  next
    case queued
    then show ?thesis by (simp add: total_count_def)
  next
    case (slot_merged i)
    let ?m = "MergeDeviceEvent (overflow d ! i) event DeviceEventFlag_Overflow"
    have d': "overflow d' ! j = (if j = i then ?m else overflow d ! j)" "overflow_used d' = overflow_used d"
      "pending d' = pending d" for j using slot_merged ok by (auto simp: nth_list_update)
    have sum: "(\<Sum>j<OverflowCapacity. slot_count k d' j) + slot_count k d i =
        (\<Sum>j<OverflowCapacity. slot_count k d j) + slot_count k d' i"
      using slot_merged(1) by (rule sum_change) (simp add: slot_count_def d')
    consider "count_of k ?m = count_of k (overflow d ! i) +
        (if source_of (overflow d ! i) = k then unat (ev_count event) else 0)"
      | "source_of (overflow d ! i) = k" "ev_count ?m = 0xFFFFFFFF" "overflowed ?m"
      using Merge_total by blast
    then show ?thesis
    proof cases
      case 1
      have "count_of k event = (if source_of (overflow d ! i) = k then unat (ev_count event) else 0)"
        using slot_merged(3) by (simp add: count_of_def Same_iff)
      moreover have "slot_count k d' i = count_of k ?m" "slot_count k d i = count_of k (overflow d ! i)"
        using slot_merged(2) d' by (simp_all add: slot_count_def)
      ultimately have "slot_count k d' i = slot_count k d i + count_of k event" using 1 by simp
      then show ?thesis using sum by (simp add: total_count_def d'(3))
    next
      case 2
      then show ?thesis using slot_merged(1,2) d' unfolding saturated_def held_def by (metis Merge_source)
    qed
  next
    case (slot_taken i)
    have d': "overflow d' ! j = (if j = i then flag_overflow event else overflow d ! j)"
      "overflow_used d' ! j = (j = i \<or> overflow_used d ! j)" "pending d' = pending d" if "j < OverflowCapacity" for j
      using slot_taken ok that by (auto simp: nth_list_update)
    have "(\<Sum>j<OverflowCapacity. slot_count k d' j) + slot_count k d i =
        (\<Sum>j<OverflowCapacity. slot_count k d j) + slot_count k d' i"
      using slot_taken(1) by (rule sum_change) (simp add: slot_count_def d')
    moreover have "slot_count k d' i = count_of k event" "slot_count k d i = 0"
      using d' [OF slot_taken(1)] slot_taken(2) by (simp_all add: slot_count_def count_of_def)
    ultimately show ?thesis using d'(3) [OF slot_taken(1)] by (simp add: total_count_def)
  next
    case full
    then show ?thesis by simp
  qed
qed

lemma QueueDeviceEvent_refused:
  assumes "events_ok limit d" "QueueDeviceEvent limit (Some d) event = (False, Some d')"
  shows "total_count d' k = total_count d k \<and> (\<forall>e. held d' e \<longrightarrow> overflowed e)"
proof -
  have lim: "length (pending d) \<le> limit" using assms(1) by (simp add: events_ok_def)
  show ?thesis
    using lim assms(2)
  proof (cases rule: QueueDeviceEvent_cases)
    case full
    have c: "count_of k \<circ> flag_overflow = count_of k" by (auto simp: count_of_def)
    have "slot_count k d' i = slot_count k d i" if "i < OverflowCapacity" for i
      using full that by (simp add: slot_count_def mark_slots_nth count_of_def)
    then have "(\<Sum>i<OverflowCapacity. slot_count k d' i) = (\<Sum>i<OverflowCapacity. slot_count k d i)" by simp
    moreover have "overflowed e" if "held d' e" for e
      using that full by (auto simp: held_def mark_slots_nth flag_overflowed)
    ultimately show ?thesis using full by (simp add: total_count_def c)
  qed simp_all
qed

section \<open>Properties\<close>

text \<open>C13: No device event is lost silently. When \<open>QueueDeviceEvent\<close> returns true, the number of events the
  queue stands for, for every source, has grown by exactly the new event, or the counter of that
  source is saturated and carries the overflow flag. When it returns false, nothing that was queued is
  lost and every entry carries the overflow flag, which tells the consumer to rescan. The queue keeps
  at most one pending entry and one overflow entry for each source.\<close>

theorem QueueDeviceEvent_accounts:
  assumes "events_ok limit d"
  shows "case QueueDeviceEvent limit (Some d) event of
      (b, None) \<Rightarrow> False
    | (b, Some d') \<Rightarrow> events_ok limit d' \<and>
        (if b then total_count d' k = total_count d k + count_of k event \<or> saturated d' k
         else total_count d' k = total_count d k \<and> (\<forall>e. held d' e \<longrightarrow> overflowed e))"
proof -
  obtain b q where Q: "QueueDeviceEvent limit (Some d) event = (b, q)" by fastforce
  have lim: "length (pending d) \<le> limit" using assms by (simp add: events_ok_def)
  obtain d' where d': "q = Some d'" by (rule QueueDeviceEvent_cases [OF lim Q]) auto
  show ?thesis
    using Q d' QueueDeviceEvent_ok [OF assms] QueueDeviceEvent_total [OF assms, of event d' k]
      QueueDeviceEvent_refused [OF assms, of event d' k] by (cases b) auto
qed

theorem QueueDeviceEvent_accounts_witness:
  "case QueueDeviceEvent 8 (Some empty_events) (null_event\<lparr>ev_count := 3\<rparr>) of
      (b, None) \<Rightarrow> False
    | (b, Some d') \<Rightarrow> events_ok 8 d' \<and>
        (if b then total_count d' (0, 0, 0, 0) = total_count empty_events (0, 0, 0, 0) +
             count_of (0, 0, 0, 0) (null_event\<lparr>ev_count := 3\<rparr>) \<or> saturated d' (0, 0, 0, 0)
         else total_count d' (0, 0, 0, 0) = total_count empty_events (0, 0, 0, 0) \<and>
           (\<forall>e. held d' e \<longrightarrow> overflowed e))"
  by (rule QueueDeviceEvent_accounts) (simp add: events_ok_def empty_events_def)

text \<open>C40: \<open>device_event_cancel\<close> removes exactly the events of the given device and generation from the queue
  of the thread it names: pending events keep their order, an event is held afterwards if and only if
  it was held before and is not one of those, and no other thread is touched.\<close>

theorem device_event_cancel_exact:
  assumes "LocateThread t s = Some th" "th \<noteq> nullptr" "device_events (c th) = Some d" "events_ok limit d"
  shows "case device_event_cancel limit t h g s c of
      None \<Rightarrow> False
    | Some c' \<Rightarrow> (\<forall>other. other \<noteq> th \<longrightarrow> c' other = c other) \<and>
        (case device_events (c' th) of
           None \<Rightarrow> False
         | Some d' \<Rightarrow> pending d' = filter (\<lambda>e. \<not> cancelled h g e) (pending d) \<and>
             (\<forall>e. held d' e \<longleftrightarrow> held d e \<and> \<not> cancelled h g e))"
proof -
  let ?p = "filter (\<lambda>e. \<not> cancelled h g e) (pending d)"
  let ?d = "cancel_slots h g (d\<lparr>pending := ?p\<rparr>)"
  have lim: "length (pending d) \<le> limit" using assms(4) by (simp add: events_ok_def)
  have c': "device_event_cancel limit t h g s c = Some (c(th := (c th)\<lparr>device_events := Some ?d\<rparr>))"
    using assms(1-3) cancel_loop_eq [OF lim, of h g] by (simp add: device_event_cancel_def Let_def)
  have "overflow_used ?d ! i \<and> overflow ?d ! i = e \<longleftrightarrow>
      overflow_used d ! i \<and> overflow d ! i = e \<and> \<not> cancelled h g e" if "i < OverflowCapacity" for i e
    using that by (auto simp: cancel_slots_def Let_def)
  then have "held ?d e \<longleftrightarrow> held d e \<and> \<not> cancelled h g e" for e
    by (auto simp: held_def) (auto simp: cancel_slots_def Let_def)
  then show ?thesis unfolding c' by (simp add: cancel_slots_def Let_def)
qed

text \<open>A thread 2 with identifier 7 that holds two events of one device.\<close>

definition sample_events :: DeviceEventQueue where
  "sample_events = empty_events\<lparr>pending := [null_event\<lparr>ev_device_handle := 4, ev_generation := 1\<rparr>,
     null_event\<lparr>ev_device_handle := 4, ev_generation := 2\<rparr>]\<rparr>"

definition event_threads :: sched where
  "event_threads = \<lparr>thr = (\<lambda>p. null_thread\<lparr>tid := 7\<rparr>), queue_state_prev = (\<lambda>p. nullptr),
     queue_state_next = (\<lambda>p. nullptr), procs = (\<lambda>p. null_process), priority_queues = (\<lambda>i. empty_queue),
     expired_queues = (\<lambda>i. empty_queue), ready_bitmap = 0, expired_bitmap = 0, PCU_CORES = 1,
     PCU_CORES_PERCORE = (\<lambda>c. None), chain = [], thchain = [2], next_global_id = 8, scheduler_lock = False,
     ipi_log = [], freed = [], fatal = False\<rparr>"

theorem device_event_cancel_exact_witness:
  "case device_event_cancel 8 7 4 1 event_threads (\<lambda>p. null_comm\<lparr>device_events := Some sample_events\<rparr>) of
      None \<Rightarrow> False
    | Some c' \<Rightarrow> (\<forall>other. other \<noteq> 2 \<longrightarrow> c' other = null_comm\<lparr>device_events := Some sample_events\<rparr>) \<and>
        (case device_events (c' 2) of
           None \<Rightarrow> False
         | Some d' \<Rightarrow> pending d' = filter (\<lambda>e. \<not> cancelled 4 1 e) (pending sample_events) \<and>
             (\<forall>e. held d' e \<longleftrightarrow> held sample_events e \<and> \<not> cancelled 4 1 e))"
  by (rule device_event_cancel_exact)
    (simp_all add: LocateThread_def AcquireSched_def event_threads_def sample_events_def events_ok_def
      empty_events_def source_of_def null_event_def)

end
