(* ===== verification/Futex.thy ===== *)
theory Futex
  imports Scheduler
begin

text \<open>
  \<open>Taskman::Futex\<close> of \<^verbatim>\<open>src/mecocoa/threads.cpp\<close>: the critical section of the wait, up to the call of
  \<open>Schedule\<close> that follows it, and the wake. The word at the futex address, which the wait reads from the
  caller's memory, is an argument. The property at the end shows that a wake of more than 64 waiters
  counts waiters that it never unblocks, and makes them unreachable for the next wake.
\<close>

section \<open>Wait\<close>

definition futex_wait :: "uint32 \<Rightarrow> ptr \<Rightarrow> stduint \<Rightarrow> stduint \<Rightarrow> sched \<Rightarrow> (bool \<times> sched) option" where
  "futex_wait current_val th addr val s =
     do {
       s \<leftarrow> AcquireSched s;
       if current_val \<noteq> ucast val then Some (False, ReleaseSched s)
       else do {
         s \<leftarrow> DequeueReady th False (upd_thr th (\<lambda>t. t\<lparr>futex_wait_addr := addr\<rparr>) s);
         Some (True, ReleaseSched (upd_thr th (\<lambda>t. t\<lparr>state := Pended, block_reason := block_reason t OR BR_Lock\<rparr>) s))
       }
     }"

section \<open>Wake\<close>

definition futex_target_capacity :: nat where
  "futex_target_capacity = 64"

definition futex_waiter :: "ptr \<Rightarrow> stduint \<Rightarrow> ThreadBlock \<Rightarrow> bool" where
  "futex_waiter pb addr t \<longleftrightarrow> parent_process t = pb \<and> state t = Pended \<and> block_reason t AND BR_Lock \<noteq> 0 \<and>
     futex_wait_addr t = addr"

text \<open>The walk over \<open>thchain\<close>; \<open>targets\<close> is the array up to \<open>target_count\<close>.\<close>

fun futex_scan :: "ptr \<Rightarrow> stduint \<Rightarrow> nat \<Rightarrow> ptr list \<Rightarrow> nat \<Rightarrow> ptr list \<Rightarrow> sched \<Rightarrow> nat \<times> ptr list \<times> sched" where
  "futex_scan pb addr val [] woken targets s = (woken, targets, s)"
| "futex_scan pb addr val (th # rest) woken targets s =
     (if \<not> futex_waiter pb addr (thr s th) then futex_scan pb addr val rest woken targets s
      else
        let s = upd_thr th (\<lambda>t. t\<lparr>futex_wait_addr := 0\<rparr>) s;
            targets = (if length targets < futex_target_capacity then targets @ [th] else targets);
            woken = woken + 1
        in if woken \<ge> val then (woken, targets, s)
           else futex_scan pb addr val rest woken targets s)"

primrec unblock_targets :: "mcca \<Rightarrow> nat \<Rightarrow> ptr list \<Rightarrow> sched \<Rightarrow> sched option" where
  "unblock_targets m cpuid [] s = Some s"
| "unblock_targets m cpuid (th # rest) s = do { s \<leftarrow> Unblock m cpuid th BR_Lock s; unblock_targets m cpuid rest s }"

definition futex_wake :: "mcca \<Rightarrow> nat \<Rightarrow> ptr \<Rightarrow> stduint \<Rightarrow> stduint \<Rightarrow> sched \<Rightarrow> (nat \<times> sched) option" where
  "futex_wake m cpuid pb addr val s =
     (if val = 0 then Some (0, s)
      else do {
        s \<leftarrow> AcquireSched s;
        let (woken, targets, s) = futex_scan pb addr (unat val) (thchain s) 0 [] s;
        s \<leftarrow> unblock_targets m cpuid targets (ReleaseSched s);
        Some (woken, s)
      })"

section \<open>What a wake changes\<close>

lemma thr_queue_append: "queue_append pb q s = (q', s') \<Longrightarrow> thr s' = thr s"
  by (auto simp: queue_append_def Let_def split: if_splits)

lemma thr_require [simp]: "thr (RequireSchedulableKernelStackMetadata s th) = thr s"
  by (simp add: RequireSchedulableKernelStackMetadata_def)

lemma thr_EnqueueReady: "EnqueueReady m pb False s = Some s' \<Longrightarrow> thr s' = thr s"
  by (auto simp: EnqueueReady_def EnqueueReadyUnlocked_def Let_def dest!: thr_queue_append
    split: if_splits prod.splits)

lemma thr_EnqueueExpired: "EnqueueExpired m pb False s = Some s' \<Longrightarrow> other \<noteq> pb \<Longrightarrow> thr s' other = thr s other"
  by (auto simp: EnqueueExpired_def EnqueueExpiredUnlocked_def Let_def upd_thr_def dest!: thr_queue_append
    split: if_splits prod.splits)

lemma thr_Wake: "thr (snd (WakeThreadOnRecordedCpu cpuid th s)) = thr s"
  by (simp add: WakeThreadOnRecordedCpu_def SendRescheduleIPI_def Let_def split: option.splits)

lemma Unblock_other:
  assumes "Unblock m cpuid th reason s = Some s'" "other \<noteq> th"
  shows "thr s' other = thr s other"
  using assms
  by (auto simp: Unblock_def UnblockThreadLocked_def AcquireSched_def ReleaseSched_def upd_thr_def Let_def thr_Wake
    dest: thr_EnqueueReady thr_EnqueueExpired split: if_splits)

lemma unblock_targets_other:
  "unblock_targets m cpuid targets s = Some s' \<Longrightarrow> other \<notin> set targets \<Longrightarrow> thr s' other = thr s other"
  by (induction targets arbitrary: s) (auto dest: Unblock_other)

text \<open>The walk clears the address of every waiter it counts, but keeps only the first 64 as targets.\<close>

lemma futex_scan_spec:
  assumes "futex_scan pb addr val ths woken targets s = (n, ts, s')" "distinct ths" "addr \<noteq> 0" "woken < val"
    "length targets = min woken futex_target_capacity" "set targets \<inter> set ths = {}"
  defines "ws \<equiv> take (val - woken) (filter (\<lambda>th. futex_waiter pb addr (thr s th)) ths)"
  shows "n = woken + length ws \<and> ts = targets @ take (futex_target_capacity - length targets) ws \<and>
    thr s' = (\<lambda>p. if p \<in> set ws then (thr s p)\<lparr>futex_wait_addr := 0\<rparr> else thr s p)"
  using assms(1-6) unfolding ws_def
proof (induction ths arbitrary: woken targets s)
  case (Cons th ths)
  show ?case
  proof (cases "futex_waiter pb addr (thr s th)")
    case False
    then show ?thesis using Cons by auto
  next
    case True
    let ?s = "upd_thr th (\<lambda>t. t\<lparr>futex_wait_addr := 0\<rparr>) s"
    let ?t = "if length targets < futex_target_capacity then targets @ [th] else targets"
    have same: "filter (\<lambda>t. futex_waiter pb addr (thr ?s t)) ths = filter (\<lambda>t. futex_waiter pb addr (thr s t)) ths"
      using Cons.prems(2) by (intro filter_cong) (auto simp: upd_thr_def)
    show ?thesis
    proof (cases "val \<le> Suc woken")
      case True
      then have "val - woken = Suc 0" using Cons.prems(4) by simp
      then show ?thesis using Cons.prems True \<open>futex_waiter pb addr (thr s th)\<close>
        by (auto simp: upd_thr_def Let_def take_Cons' fun_eq_iff)
    next
      case False
      then have v: "val - woken = Suc (val - Suc woken)" by simp
      have scan: "futex_scan pb addr val ths (Suc woken) ?t ?s = (n, ts, s')"
        using Cons.prems(1) True False by (simp add: Let_def)
      have "n = Suc woken + length (take (val - Suc woken) (filter (\<lambda>t. futex_waiter pb addr (thr s t)) ths)) \<and>
        ts = ?t @ take (futex_target_capacity - length ?t) (take (val - Suc woken) (filter (\<lambda>t. futex_waiter pb addr (thr s t)) ths)) \<and>
        thr s' = (\<lambda>p. if p \<in> set (take (val - Suc woken) (filter (\<lambda>t. futex_waiter pb addr (thr s t)) ths))
          then (thr ?s p)\<lparr>futex_wait_addr := 0\<rparr> else thr ?s p)"
        using Cons.IH [OF scan] Cons.prems False unfolding same by auto
      then show ?thesis using True v Cons.prems(5) by (auto simp: upd_thr_def fun_eq_iff take_Cons')
    qed
  qed
qed simp

section \<open>Lost wake-ups\<close>

text \<open>A wake returns whenever the lock is free: no step of it waits for anything else.\<close>

lemma Unblock_returns:
  "\<not> scheduler_lock s \<Longrightarrow> \<exists>s'. Unblock m cpuid th reason s = Some s' \<and> \<not> scheduler_lock s'"
  by (auto simp: Unblock_def UnblockThreadLocked_def AcquireSched_def ReleaseSched_def EnqueueReady_def
    EnqueueExpired_def Let_def)

lemma unblock_targets_returns: "\<not> scheduler_lock s \<Longrightarrow> \<exists>s'. unblock_targets m cpuid ths s = Some s'"
proof (induction ths arbitrary: s)
  case (Cons th ths)
  then show ?case using Unblock_returns [OF Cons.prems, of m cpuid th BR_Lock] by fastforce
qed simp

lemma futex_wake_returns: "\<not> scheduler_lock s \<Longrightarrow> \<exists>n s'. futex_wake m cpuid pb addr val s = Some (n, s')"
proof -
  have "\<exists>s'. unblock_targets m cpuid ts (ReleaseSched t) = Some s'" for ts t
    by (rule unblock_targets_returns) (simp add: ReleaseSched_def)
  then show "\<not> scheduler_lock s \<Longrightarrow> ?thesis"
    by (fastforce simp: futex_wake_def AcquireSched_def split: prod.splits)
qed

lemma futex_wake_skips:
  assumes "futex_wake m cpuid pb addr val s = Some (n, s')" "addr \<noteq> 0" "distinct (thchain s)"
    and ws: "ws = filter (\<lambda>th. futex_waiter pb addr (thr s th)) (thchain s)"
    and more: "64 < length ws" "64 < unat val"
  shows "n > 64 \<and> thr s' (ws ! 64) = (thr s (ws ! 64))\<lparr>futex_wait_addr := 0\<rparr> \<and>
    state (thr s' (ws ! 64)) = Pended \<and> block_reason (thr s' (ws ! 64)) AND BR_Lock \<noteq> 0"
proof -
  let ?s = "s\<lparr>scheduler_lock := True\<rparr>" and ?th = "ws ! 64"
  have "val \<noteq> 0" using more(2) by auto
  then obtain ts s1 where scan: "futex_scan pb addr (unat val) (thchain s) 0 [] ?s = (n, ts, s1)"
    and un: "unblock_targets m cpuid ts (ReleaseSched s1) = Some s'"
    using assms(1) by (auto simp: futex_wake_def AcquireSched_def split: if_splits prod.splits)
  have fs: "n = length (take (unat val) ws) \<and> ts = take 64 (take (unat val) ws) \<and>
    thr s1 = (\<lambda>p. if p \<in> set (take (unat val) ws) then (thr s p)\<lparr>futex_wait_addr := 0\<rparr> else thr s p)"
    using futex_scan_spec [OF scan assms(3,2)] more(2) by (simp add: ws futex_target_capacity_def fun_eq_iff)
  have d: "distinct ws" using assms(3) by (simp add: ws)
  have ts: "ts = take 64 ws" using fs more(2) by (simp add: min_def)
  have "?th \<notin> set ts"
    using d more(1) unfolding ts by (auto simp: in_set_conv_nth nth_eq_iff_index_eq)
  then have "thr s' ?th = thr s1 ?th" using unblock_targets_other [OF un] by (simp add: ReleaseSched_def)
  moreover have "?th \<in> set (take (unat val) ws)" using more by (auto simp: in_set_conv_nth intro!: exI [of _ 64])
  moreover have "futex_waiter pb addr (thr s ?th)" using nth_mem [OF more(1)] by (simp add: ws)
  ultimately show ?thesis using fs more by (simp add: futex_waiter_def)
qed

text \<open>C24: A futex wake for more than 64 waiters loses the rest. The wake returns and counts more than 64
  threads as woken, but the waiter after the first 64 is still pended on its lock, and its futex address
  is cleared, so that no later wake finds it.\<close>

theorem futex_wake_loses_wakeups:
  assumes "\<not> scheduler_lock s" "addr \<noteq> 0" "distinct (thchain s)" "64 < unat val"
    "64 < length (filter (\<lambda>th. futex_waiter pb addr (thr s th)) (thchain s))"
  shows "case futex_wake m cpuid pb addr val s of
      None \<Rightarrow> False
    | Some (n, s') \<Rightarrow>
        let th = filter (\<lambda>th. futex_waiter pb addr (thr s th)) (thchain s) ! 64 in
        n > 64 \<and> thr s' th = (thr s th)\<lparr>futex_wait_addr := 0\<rparr> \<and>
        state (thr s' th) = Pended \<and> block_reason (thr s' th) AND BR_Lock \<noteq> 0"
  using futex_wake_returns [OF assms(1), of m cpuid pb addr val]
    futex_wake_skips [OF _ assms(2,3) refl assms(5,4), of m cpuid] by (auto simp: Let_def)

text \<open>Sixty-five threads that wait at one address.\<close>

definition futex_crowd :: sched where
  "futex_crowd = \<lparr>thr = (\<lambda>_. null_thread\<lparr>state := Pended, block_reason := BR_Lock, futex_wait_addr := 8\<rparr>),
     queue_state_prev = (\<lambda>_. nullptr), queue_state_next = (\<lambda>_. nullptr), procs = (\<lambda>_. null_process),
     priority_queues = (\<lambda>_. empty_queue), expired_queues = (\<lambda>_. empty_queue), ready_bitmap = 0,
     expired_bitmap = 0, PCU_CORES = 1, PCU_CORES_PERCORE = (\<lambda>_. None), chain = [], thchain = [1..<66],
     next_global_id = 66, scheduler_lock = False, ipi_log = [], freed = [], fatal = False\<rparr>"

lemma futex_crowd_waiters:
  "filter (\<lambda>th. futex_waiter nullptr 8 (thr futex_crowd th)) (thchain futex_crowd) = [1..<66]"
  by (simp add: futex_crowd_def futex_waiter_def null_thread_def BR_Lock_def del: upt_rec_numeral)

theorem futex_wake_loses_wakeups_witness:
  "case futex_wake MCCA_8664 0 nullptr 8 100 futex_crowd of
      None \<Rightarrow> False
    | Some (n, s') \<Rightarrow>
        let th = [1..<66] ! 64 in
        n > 64 \<and> thr s' th = (thr futex_crowd th)\<lparr>futex_wait_addr := 0\<rparr> \<and>
        state (thr s' th) = Pended \<and> block_reason (thr s' th) AND BR_Lock \<noteq> 0"
  by (rule futex_wake_loses_wakeups [of futex_crowd 8 100 nullptr MCCA_8664 0, unfolded futex_crowd_waiters])
    (simp_all add: futex_crowd_def del: upt_rec_numeral)

end
