(* ===== verification/Spec2Isabelle.thy ===== *)
theory Spec2Isabelle
  imports Sched_Claims Iova_Claims Vtd_Claims Plan_Claims Managed_Claims Event_Claims Futex
begin

text \<open>
  A verification development for the Mecocoa kernel, x86-64 build.

  \<^bold>\<open>The program.\<close> The task manager schedules threads on several cores through priority queues that a
  single lock protects (\<^verbatim>\<open>src/mecocoa/schedul.cpp\<close>); a thread waits and is woken through it, from
  futexes (\<^verbatim>\<open>src/mecocoa/threads.cpp\<close>) and from device events (\<^verbatim>\<open>src/mecocoa/message.cpp\<close>). The memory
  manager records every mapping of physical memory, counts the references to managed pages and plans the
  mappings made at boot (\<^verbatim>\<open>src/mecocoa/memoman-page.cpp\<close>). The DMA part sets up the VT-d unit and gives
  each device its own translation (\<^verbatim>\<open>src/mecocoa/memoman-iova.cpp\<close>).

  \<^bold>\<open>Scheduler.\<close> \<open>Kernel_Types\<close> has the blocks of \<^verbatim>\<open>src/include/taskman.hpp\<close> and the global state \<open>sched\<close>;
  \<open>Scheduler\<close> has the operations of \<^verbatim>\<open>schedul.cpp\<close> (\<open>EnqueueReady\<close>, \<open>DequeueReady\<close>, \<open>PickNext\<close>, \<open>Block\<close>,
  \<open>Unblock\<close>, \<open>AppendThread\<close>, \<open>Schedule\<close>, \<open>SleepAndRelease\<close>) and \<open>Taskman::DestroyThread\<close> of
  \<^verbatim>\<open>src/mecocoa/taskman.cpp\<close>. Pointers stay pointers, so the queues are intrusive lists as in the source.
  \<open>Ready_Queues\<close> relates them to lists, \<open>Pick_Next\<close> shows that the scan ends and picks the first eligible
  thread, \<open>Run_Queue\<close> states the contract of a queue as the locale \<open>run_queue\<close>, which the ready and the
  expired queues satisfy. \<open>Sched_Inv\<close> and \<open>Sched_Ops\<close> hold the multi-core invariant and its
  preservation, \<open>Sched_System\<close> the transition system \<open>kstep\<close> in which any core runs any operation.
  \<open>Sched_Claims\<close> has the properties: no thread runs on two cores, ready threads are queued, wake-ups are
  not lost, timeslices end, and two behaviours that the source does not intend.

  \<^bold>\<open>DMA.\<close> \<open>Vtd\<close> has the registers, the invalidation queue, the scan of the DMAR table, the pass-through
  tables and interrupt remapping; \<open>Iova\<close> the domains, their page tables, \<open>AllocateIovaRange\<close>,
  \<open>MapDeviceDma\<close> and \<open>UnmapDeviceDma\<close>. \<open>Iova_Ranges\<close> treats the range allocator, \<open>Iova_Tables\<close> page
  tables as trees in memory, \<open>Iova_Domains\<close> and \<open>Iova_Dma\<close> the separation of domains, \<open>Iova_Translate\<close> and
  \<open>Iova_Map\<close> the translation that a device sees. \<open>Iova_Claims\<close> shows that mapping and unmapping change
  exactly the pages asked for, of one device only, and undo each other; \<open>Vtd_Claims\<close> that the set-up code
  stays in bounds and writes the entries it means to.

  \<^bold>\<open>Physical mappings.\<close> \<open>Page_Registry\<close> has the ranges, memory types, mapping records and the two-phase
  update behind \<open>MapPages\<close>, \<open>UnmapPages\<close>, \<open>ReleasePagingMappings\<close> and \<open>MapFramebufferPages\<close>;
  \<open>Page_Plan\<close> the region overlay, \<open>build_initial_page_plan\<close>, the UEFI plan and \<open>MapInitialPagePlan\<close>.
  Registry and plan are both maps from addresses to attributes that a range overrides: the locale
  \<open>address_map\<close> of \<open>Address_Map\<close> states that contract and derives what a sequence of updates gives; it is
  interpreted on the registry in \<open>Registry_Ops\<close> and on the plan in \<open>Plan_Props\<close>. \<open>Registry_Props\<close>
  shows that the commit takes exactly the nodes that the preparation reserved. \<open>Plan_Build\<close> and
  \<open>Framebuffer\<close> compose the two. \<open>Page_Claims\<close> and \<open>Plan_Claims\<close> have the properties: the operations
  never fail an assertion, lose no node, leave the registry unchanged when they fail, and map and
  unmap exactly one aligned range; a plan follows its last source, fits its array, is accepted when it
  is mapped, and ends up in the registry at both of its addresses.

  \<^bold>\<open>Managed pages.\<close> \<open>Managed_Pages\<close> has the table of reference-counted pages, \<open>Managed_Props\<close> its
  contract as the locale \<open>page_map\<close> with the interpretation on the bucket table, and \<open>Managed_Claims\<close> the
  properties: a page in the table has a reference and is freed exactly once, with its last one.

  \<^bold>\<open>Events and futexes.\<close> \<open>Device_Events\<close> has the queue of device events and \<open>Event_Claims\<close> its properties:
  no event is lost silently, and cancelling is exact. \<open>Futex\<close> has wait and wake; its theorem shows that a
  wake of more than 64 waiters counts waiters that it does not unblock.
\<close>

text \<open>
  \<^bold>\<open>Conventions.\<close> \<open>Prelude\<close> has the machine types (\<open>stduint\<close> is a 64-bit word, arithmetic wraps), pointers
  as numbers with \<open>nullptr\<close> for 0, and the lemmas that several components share. An operation takes and
  returns the state it changes. \<open>None\<close> is a failing assertion or an operation that does not return, as its
  theory says. An operation under a lock is one atomic step.

  \<^bold>\<open>Loops and bounds.\<close> Loops over data are structural or have a termination proof. The walks over intrusive
  lists (\<open>clear_expired\<close>, \<open>scan_queue\<close>, \<open>scan_bitmap\<close>) are partial functions that are proved to return on
  every well-formed queue. \<open>find_thread_prev\<close> and \<open>await_inactive\<close> of \<open>DestroyThread\<close> are partial functions too;
  nothing is proved of when they return, except that the second does not in the case of the claim on
  detached threads. Waits for the hardware have the source's own bound, \<open>VtdCommandTimeoutSpins\<close>. The
  passes of \<open>AllocateIovaRange\<close> are bounded by the capacity of the mapping table plus one, as in the source,
  and \<open>Iova_Ranges\<close> shows that this suffices. The plan has room for twice the number of its sources, as the
  UEFI build allocates, and \<open>Plan_Claims\<close> shows that this suffices.

  \<^bold>\<open>Parameters.\<close> Code outside the repository is an argument. The VT-d unit is the record \<open>vtd_hw\<close>; the
  page-table library is the record \<open>page_lib\<close>, of which some properties assume that a page has 12 address
  bits, that a large page has 21, and that normalising page properties is stable (\<open>normalize_stable\<close>,
  \<open>page_lib_ok\<close>). The allocator is the list of addresses that its next calls return; the DMA properties
  assume that these are page aligned, distinct and not in use. The library queue of device events is
  first-in first-out with a capacity that is a parameter. Log output is left out.

  \<^bold>\<open>Not modelled.\<close> The contents of the page tables behind \<open>Paging::Map\<close>, so the properties of the registry
  speak of its records. The inside of the locks (\<^verbatim>\<open>taskman-lock.cpp\<close>) and interleavings within a critical
  section. The wake-up of idle processors and the start of secondary cores in \<^verbatim>\<open>schedul.cpp\<close>;
  \<open>build_x86_initial_page_plan\<close> of the 32-bit build; direct delivery of device events and messages between
  threads in \<^verbatim>\<open>message.cpp\<close>, which copy between address spaces; creation, exit, join and detach of threads
  in \<^verbatim>\<open>threads.cpp\<close>. Virtual memory of processes, program loading, signals, system calls, files, the
  device manager, the network, consoles and graphics, timers and interrupt entry, drivers, the user
  library, applications and loaders: they have state of their own, or rest on hardware and on library
  code, that the development does not represent.
\<close>

end
